(* ===== verification/Prelude.thy ===== *)
theory Prelude
  imports Main "HOL-Library.Word"
begin

text \<open>
  Shared vocabulary of the development: the C integer types, the RT-Thread error codes, copies
  between byte arrays, byte-order conversions, the collections of definitions and of
  preservation lemmas that the component theories fill, and generic lemmas on lists and words.
\<close>

unbundle bit_operations_syntax

subsection \<open>Integer types and error codes\<close>

type_synonym u8 = "8 word"
type_synonym u16 = "16 word"
type_synonym u32 = "32 word"
type_synonym u64 = "64 word"
type_synonym s16 = "16 word"
type_synonym s32 = "32 word"

text \<open>
  The target is a 32-bit RISC-V core: \<open>int\<close>, \<open>long\<close>, \<open>size_t\<close> and pointers have 32 bits. A C
  \<open>int\<close> result is an \<open>int\<close> here, as the code only compares and forwards such values. The error
  codes are those of rt-thread/include/klibc/kerrno.h in the newlib build, where they are
  newlib's errno values; functions return their negation.
\<close>

abbreviation (input) RT_EOK :: int where "RT_EOK \<equiv> 0"
abbreviation (input) RT_ERROR :: int where "RT_ERROR \<equiv> 255"
abbreviation (input) RT_ETIMEOUT :: int where "RT_ETIMEOUT \<equiv> 116"
abbreviation (input) RT_EFULL :: int where "RT_EFULL \<equiv> 28"
abbreviation (input) RT_EEMPTY :: int where "RT_EEMPTY \<equiv> 61"
abbreviation (input) RT_ENOMEM :: int where "RT_ENOMEM \<equiv> 12"
abbreviation (input) RT_ENOSYS :: int where "RT_ENOSYS \<equiv> 88"
abbreviation (input) RT_EBUSY :: int where "RT_EBUSY \<equiv> 16"
abbreviation (input) RT_EIO :: int where "RT_EIO \<equiv> 5"
abbreviation (input) RT_EINVAL :: int where "RT_EINVAL \<equiv> 22"

named_theorems op_defs \<open>definitions of operations\<close>
named_theorems inv_defs \<open>definitions of invariants\<close>
named_theorems inv_intros \<open>operations keep the invariants\<close>

subsection \<open>Arrays\<close>

text \<open>
  \<open>blit d i s\<close> is the array \<open>d\<close> after \<open>memcpy (d + i, s, length s)\<close>; it is used where the copy
  stays inside \<open>d\<close>, which the callers' lemmas show.
\<close>

definition blit :: "'a list \<Rightarrow> nat \<Rightarrow> 'a list \<Rightarrow> 'a list" where
  "blit d i s = take i d @ s @ drop (i + length s) d"

definition seg :: "'a list \<Rightarrow> nat \<Rightarrow> nat \<Rightarrow> 'a list" where
  "seg d i n = take n (drop i d)"

text \<open>A linear search, as in the code's \<open>for\<close> loops that stop at the first hit.\<close>

fun find_index :: "('a \<Rightarrow> bool) \<Rightarrow> 'a list \<Rightarrow> nat option" where
  "find_index p [] = None"
| "find_index p (x # xs) = (if p x then Some 0 else map_option Suc (find_index p xs))"

text \<open>Network byte order (\<open>htonl\<close>, \<open>ntohl\<close>) and the little-endian layout of packed structs.\<close>

definition be32 :: "u32 \<Rightarrow> u8 list" where
  "be32 x = [ucast (drop_bit 24 x), ucast (drop_bit 16 x), ucast (drop_bit 8 x), ucast x]"

definition be32_at :: "u8 list \<Rightarrow> nat \<Rightarrow> u32" where
  "be32_at b i = push_bit 24 (ucast (b ! i)) OR push_bit 16 (ucast (b ! (i + 1)))
     OR push_bit 8 (ucast (b ! (i + 2))) OR ucast (b ! (i + 3))"

definition le16 :: "u16 \<Rightarrow> u8 list" where
  "le16 x = [ucast x, ucast (drop_bit 8 x)]"

definition le32 :: "u32 \<Rightarrow> u8 list" where
  "le32 x = [ucast x, ucast (drop_bit 8 x), ucast (drop_bit 16 x), ucast (drop_bit 24 x)]"

definition le32_at :: "u8 list \<Rightarrow> nat \<Rightarrow> u32" where
  "le32_at b i = ucast (b ! i) OR push_bit 8 (ucast (b ! (i + 1)))
     OR push_bit 16 (ucast (b ! (i + 2))) OR push_bit 24 (ucast (b ! (i + 3)))"

definition le16_at :: "u8 list \<Rightarrow> nat \<Rightarrow> u16" where
  "le16_at b i = ucast (b ! i) OR push_bit 8 (ucast (b ! (i + 1)))"

subsection \<open>Lemmas on arrays\<close>

lemma length_blit [simp]: "i + length s \<le> length d \<Longrightarrow> length (blit d i s) = length d"
  by (simp add: blit_def)

lemma seg_blit [simp]: "i + length s \<le> length d \<Longrightarrow> seg (blit d i s) i (length s) = s"
  by (simp add: blit_def seg_def)

lemma seg_blit_same:
  "i + length s \<le> length d \<Longrightarrow> n \<le> length s \<Longrightarrow> seg (blit d i s) i n = take n s"
  by (simp add: blit_def seg_def)

lemma nth_blit:
  assumes "i + length s \<le> length d" and "k < length d"
  shows "blit d i s ! k = (if i \<le> k \<and> k < i + length s then s ! (k - i) else d ! k)"
  using assms by (auto simp: blit_def nth_append min_def)

lemma seg_blit_disjoint:
  assumes "i + length s \<le> length d" and "j + n \<le> i \<or> i + length s \<le> j" and "j + n \<le> length d"
  shows "seg (blit d i s) j n = seg d j n"
proof (rule nth_equalityI)
  show "length (seg (blit d i s) j n) = length (seg d j n)"
    using assms by (simp add: seg_def)
next
  fix k assume "k < length (seg (blit d i s) j n)"
  then have "k < n" using assms by (simp add: seg_def)
  then show "seg (blit d i s) j n ! k = seg d j n ! k"
    using assms by (auto simp: seg_def nth_blit)
qed

lemma length_seg [simp]: "i + n \<le> length d \<Longrightarrow> length (seg d i n) = n"
  by (simp add: seg_def)

lemma find_index_Some:
  "find_index p xs = Some i \<longleftrightarrow> i < length xs \<and> p (xs ! i) \<and> (\<forall>j<i. \<not> p (xs ! j))"
proof (induction xs arbitrary: i)
  case Nil
  then show ?case by simp
next
  case (Cons x xs)
  then show ?case
    by (cases i) (auto simp: All_less_Suc2 nth_Cons split: nat.splits)
qed

lemma find_index_None: "find_index p xs = None \<longleftrightarrow> (\<forall>x\<in>set xs. \<not> p x)"
  by (induction xs) auto

lemma find_index_nth: "find_index p xs = Some i \<Longrightarrow> i < length xs \<and> p (xs ! i)"
  by (simp add: find_index_Some)

lemma nth_blit_update [simp]:
  "xs[i := v] ! j = (if i = j \<and> i < length xs then v else xs ! j)"
  by (cases "i < length xs") (auto simp: list_update_beyond)

subsection \<open>Lemmas on words\<close>

text \<open>Shifts of 1 stay shifts, as in the source.\<close>

declare push_bit_of_1 [simp del]

lemma length_be32 [simp]: "length (be32 x) = 4"
  by (simp add: be32_def)

lemma length_le [simp]: "length (le16 y) = 2" "length (le32 x) = 4"
  by (simp_all add: le16_def le32_def)

lemma byte_index_cases:
  fixes k :: nat
  assumes "k < 32"
  obtains j where "j < 8" "k = j" | j where "j < 8" "k = 8 + j"
    | j where "j < 8" "k = 16 + j" | j where "j < 8" "k = 24 + j"
proof -
  consider "k < 8" | "8 \<le> k \<and> k < 16" | "16 \<le> k \<and> k < 24" | "24 \<le> k"
    by fastforce
  then show thesis
  proof cases
    case 1
    then show ?thesis by (rule that(1)) simp
  next
    case 2
    then show ?thesis by (intro that(2) [of "k - 8"]) auto
  next
    case 3
    then show ?thesis by (intro that(3) [of "k - 16"]) auto
  next
    case 4
    then show ?thesis using assms by (intro that(4) [of "k - 24"]) auto
  qed
qed

lemma byte_assemble:
  fixes x :: u32
  shows "push_bit 24 (ucast (ucast (drop_bit 24 x) :: u8)) OR push_bit 16 (ucast (ucast (drop_bit 16 x) :: u8))
      OR push_bit 8 (ucast (ucast (drop_bit 8 x) :: u8)) OR ucast (ucast x :: u8) = x" (is "?l = x")
proof (rule bit_word_eqI)
  fix k assume "k < LENGTH(32)"
  then have "k < 32" by simp
  then show "bit ?l k = bit x k"
    by (cases rule: byte_index_cases) (auto simp: bit_simps)
qed

lemma seg_nth: "seg b i n = s \<Longrightarrow> k < n \<Longrightarrow> i + n \<le> length b \<Longrightarrow> b ! (i + k) = s ! k"
  by (auto simp: seg_def)

lemma be32_roundtrip:
  assumes "seg b i 4 = be32 x" and "i + 4 \<le> length b"
  shows "be32_at b i = x"
  using seg_nth [OF assms(1) _ assms(2), of 0] seg_nth [OF assms(1) _ assms(2), of 1]
    seg_nth [OF assms(1) _ assms(2), of 2] seg_nth [OF assms(1) _ assms(2), of 3]
    byte_assemble [of x]
  by (simp add: be32_at_def be32_def)

lemma le32_roundtrip:
  assumes "seg b i 4 = le32 x" and "i + 4 \<le> length b"
  shows "le32_at b i = x"
  using seg_nth [OF assms(1) _ assms(2), of 0] seg_nth [OF assms(1) _ assms(2), of 1]
    seg_nth [OF assms(1) _ assms(2), of 2] seg_nth [OF assms(1) _ assms(2), of 3]
    byte_assemble [of x]
  by (simp add: le32_at_def le32_def or.commute or.left_commute)

lemma word_of_unat: "unat (x :: u32) = n \<Longrightarrow> x = of_nat n"
  by auto

lemma word_of_unat16: "unat (x :: u16) = n \<Longrightarrow> x = of_nat n"
  by auto

lemma unat_of_nat32: "n < 2 ^ 32 \<Longrightarrow> unat (of_nat n :: u32) = n"
  by (simp add: unsigned_of_nat take_bit_nat_eq_self)

lemma unat_u32_bound: "unat (x :: u32) < 4294967296"
  using unsigned_less [of x, where ?'a = nat] by simp

lemma sint_small: "n < 2 ^ 31 \<Longrightarrow> sint (of_nat n :: s32) = int n"
  by (simp add: signed_of_nat signed_take_bit_int_eq_self_iff)

lemma unat_plus_no_wrap: "unat (a::u32) + unat b < 2 ^ 32 \<Longrightarrow> unat (a + b) = unat a + unat b"
  by (simp add: unat_word_ariths)

lemma unat_and_not_mask: "unat ((x :: u32) AND NOT (mask n)) = unat x div 2 ^ n * 2 ^ n"
proof -
  have "unat (x AND NOT (mask n)) = push_bit n (drop_bit n (unat x))"
    by (rule bit_eqI) (auto simp: bit_simps dest: bit_imp_le_length)
  then show ?thesis by (simp add: push_bit_eq_mult drop_bit_eq_div)
qed

lemma unat_and_mask: "unat ((x :: u32) AND mask n) = unat x mod 2 ^ n"
proof -
  have "unat (x AND mask n) = take_bit n (unat x)"
    by (rule bit_eqI) (auto simp: bit_simps dest: bit_imp_le_length)
  then show ?thesis by (simp add: take_bit_eq_mod)
qed

lemma unat_minus_le: "(b::'a::len word) \<le> a \<Longrightarrow> unat (a - b) = unat a - unat b"
  by (rule unat_sub)

end
