(* ===== verification/Sdio_Protocol.thy ===== *)
theory Sdio_Protocol
  imports Prelude
begin

text \<open>
  The arithmetic of the SDIO wire protocol,
  packages/wlh_rtt_host/transport/sdio/wlh_rtt_sdio_protocol.c: padding of a frame to whole
  blocks, the register window a frame is written to, the length of the next frame from the
  coprocessor's 20-bit byte counter, and the number of transmit tokens from its 12-bit counter.
  \<open>WLH_FRAME_HEADER_SIZE\<close> belongs to the Host Core (wlh/protocol/wire.h, not part of this
  repository) and is the parameter \<open>hdr\<close>.
\<close>

abbreviation (input) WLH_RTT_SDIO_BLOCK_SIZE :: u32 where "WLH_RTT_SDIO_BLOCK_SIZE \<equiv> 512"
abbreviation (input) WLH_RTT_SDIO_MAX_FRAME :: u32 where "WLH_RTT_SDIO_MAX_FRAME \<equiv> 4092"
abbreviation (input) WLH_RTT_SDIO_STAGING_SIZE :: u32 where "WLH_RTT_SDIO_STAGING_SIZE \<equiv> 4096"
abbreviation (input) WLH_RTT_SDIO_END_ADDRESS :: u32 where "WLH_RTT_SDIO_END_ADDRESS \<equiv> 0x1f800"
abbreviation (input) WLH_RTT_SDIO_LENGTH_MODULUS :: u32 where "WLH_RTT_SDIO_LENGTH_MODULUS \<equiv> 0x100000"
abbreviation (input) WLH_RTT_SDIO_TOKEN_MODULUS :: u32 where "WLH_RTT_SDIO_TOKEN_MODULUS \<equiv> 0x1000"
abbreviation (input) UINT32_MAX :: u32 where "UINT32_MAX \<equiv> - 1"

definition wlh_rtt_sdio_padded_size :: "u32 \<Rightarrow> u32" where
  "wlh_rtt_sdio_padded_size frame_size =
   (if frame_size = 0 \<or> frame_size > WLH_RTT_SDIO_MAX_FRAME then 0
    else (frame_size + WLH_RTT_SDIO_BLOCK_SIZE - 1) AND NOT (WLH_RTT_SDIO_BLOCK_SIZE - 1))"

definition wlh_rtt_sdio_window_address :: "u32 \<Rightarrow> u32" where
  "wlh_rtt_sdio_window_address frame_size =
   (if wlh_rtt_sdio_padded_size frame_size = 0 then 0
    else WLH_RTT_SDIO_END_ADDRESS - frame_size)"

text \<open>
  The result is the return code and what the call stores in \<open>*frame_size\<close>, if anything;
  \<open>out\<close> says whether that pointer is non-null.
\<close>

definition wlh_rtt_sdio_accumulated_length :: "u32 \<Rightarrow> u32 \<Rightarrow> u32 \<Rightarrow> bool \<Rightarrow> int \<times> u32 option" where
  "wlh_rtt_sdio_accumulated_length hdr previous current out =
   (if \<not> out \<or> current = UINT32_MAX then (- 1, None)
    else let current = current AND (WLH_RTT_SDIO_LENGTH_MODULUS - 1);
             previous = previous AND (WLH_RTT_SDIO_LENGTH_MODULUS - 1);
             delta = (current + WLH_RTT_SDIO_LENGTH_MODULUS - previous) mod WLH_RTT_SDIO_LENGTH_MODULUS
         in if delta < hdr \<or> delta > WLH_RTT_SDIO_MAX_FRAME then (- 1, None)
            else (0, Some delta))"

definition wlh_rtt_sdio_available_tokens :: "u32 \<Rightarrow> u32 \<Rightarrow> u32" where
  "wlh_rtt_sdio_available_tokens consumed offered =
   (offered + WLH_RTT_SDIO_TOKEN_MODULUS - consumed) mod WLH_RTT_SDIO_TOKEN_MODULUS"

subsection \<open>Padding and windows\<close>

lemma mask_9: "(511 :: u32) = mask 9" and mask_20: "(0xFFFFF :: u32) = mask 20"
  by (simp_all add: mask_eq_exp_minus_1)

lemma unat_padded_size:
  assumes "frame_size \<noteq> 0" "frame_size \<le> WLH_RTT_SDIO_MAX_FRAME"
  shows "unat (wlh_rtt_sdio_padded_size frame_size) = (unat frame_size + 511) div 512 * 512"
proof -
  have "unat frame_size \<le> 4092" using assms(2) by (simp add: word_le_nat_alt)
  then have "unat (frame_size + 511) = unat frame_size + 511" by (simp add: unat_word_ariths)
  then show ?thesis using assms unat_and_not_mask [of "frame_size + 511" 9]
    by (simp add: wlh_rtt_sdio_padded_size_def mask_9 add_diff_eq [symmetric])
qed

lemma padded_size_0: "wlh_rtt_sdio_padded_size n = 0 \<longleftrightarrow> n = 0 \<or> n > WLH_RTT_SDIO_MAX_FRAME"
proof (cases "n = 0 \<or> n > WLH_RTT_SDIO_MAX_FRAME")
  case True
  then show ?thesis by (auto simp: wlh_rtt_sdio_padded_size_def)
next
  case False
  then have "n \<noteq> 0" "n \<le> WLH_RTT_SDIO_MAX_FRAME" by auto
  then have "unat (wlh_rtt_sdio_padded_size n) = (unat n + 511) div 512 * 512" "unat n \<noteq> 0"
    by (simp_all add: unat_padded_size unat_eq_zero)
  then have "unat (wlh_rtt_sdio_padded_size n) \<noteq> 0" by (auto simp: div_eq_0_iff)
  then show ?thesis using False by auto
qed

lemma padded_size_le: "unat (wlh_rtt_sdio_padded_size n) \<le> 4096"
proof (cases "n = 0 \<or> n > WLH_RTT_SDIO_MAX_FRAME")
  case True
  then have "wlh_rtt_sdio_padded_size n = 0" by (simp add: padded_size_0)
  then show ?thesis by simp
next
  case False
  then have "n \<noteq> 0" "n \<le> WLH_RTT_SDIO_MAX_FRAME" by auto
  moreover then have "unat n \<le> 4092" by (simp add: word_le_nat_alt)
  ultimately show ?thesis by (simp add: unat_padded_size)
qed

subsection \<open>Counters\<close>

text \<open>The difference of two counter readings, as \<open>wlh_rtt_sdio_accumulated_length\<close> computes it.\<close>

definition counter_delta :: "u32 \<Rightarrow> u32 \<Rightarrow> u32" where
  "counter_delta p c = ((c AND (WLH_RTT_SDIO_LENGTH_MODULUS - 1)) + WLH_RTT_SDIO_LENGTH_MODULUS
      - (p AND (WLH_RTT_SDIO_LENGTH_MODULUS - 1))) mod WLH_RTT_SDIO_LENGTH_MODULUS"

lemma accumulated_length_delta:
  "wlh_rtt_sdio_accumulated_length hdr p c out =
   (if out \<and> c \<noteq> UINT32_MAX \<and> hdr \<le> counter_delta p c \<and> counter_delta p c \<le> WLH_RTT_SDIO_MAX_FRAME
    then (0, Some (counter_delta p c)) else (- 1, None))"
  unfolding wlh_rtt_sdio_accumulated_length_def Let_def counter_delta_def [symmetric]
  by (auto simp: not_less)

lemma accumulated_delta:
  "unat (counter_delta p c) =
   (unat c + 2 ^ 20 - unat p mod 2 ^ 20) mod 2 ^ 20"
proof -
  let ?c = "c AND (0x100000 - 1) :: u32" and ?p = "p AND (0x100000 - 1) :: u32"
  have m: "unat ?c = unat c mod 2 ^ 20" "unat ?p = unat p mod 2 ^ 20"
    using unat_and_mask [of c 20] unat_and_mask [of p 20] by (simp_all add: mask_20 del: unat_and_mask)
  have s: "unat (?c + 0x100000) = unat ?c + 2 ^ 20" using m by (simp add: unat_word_ariths)
  then have "?p \<le> ?c + 0x100000" using m by (simp add: word_le_nat_alt)
  then have "unat (?c + 0x100000 - ?p) = unat c mod 2 ^ 20 + 2 ^ 20 - unat p mod 2 ^ 20"
    using s m by (simp add: unat_sub)
  moreover have "(unat c mod 2 ^ 20 + 2 ^ 20 - unat p mod 2 ^ 20) mod 2 ^ 20 =
      (unat c + 2 ^ 20 - unat p mod 2 ^ 20) mod (2 ^ 20 :: nat)"
    by (metis (no_types, lifting) Nat.add_diff_assoc mod_add_left_eq mod_le_divisor zero_less_numeral zero_less_power)
  ultimately show ?thesis by (simp add: counter_delta_def unat_mod)
qed

lemma mod_diff_cancel: "(p + d) mod m = c mod m \<Longrightarrow> d < m \<Longrightarrow> (c + m - p mod m) mod m = (d :: nat)"
proof -
  assume e: "(p + d) mod m = c mod m" and d: "d < m"
  have "(c + m - p mod m) mod m = (c mod m + (m - p mod m)) mod m"
  proof -
    have "p mod m \<le> m" using d by (simp add: less_imp_le)
    then have "c + m - p mod m = c + (m - p mod m)" by simp
    then show ?thesis by (simp add: mod_add_left_eq)
  qed
  also have "\<dots> = (p mod m + d + (m - p mod m)) mod m"
    by (metis e mod_add_left_eq)
  also have "\<dots> = (d + m) mod m" using d by (simp add: less_imp_le mod_less_divisor algebra_simps)
  also have "\<dots> = d" using d by simp
  finally show ?thesis .
qed

lemma unat_available_tokens:
  assumes "consumed < 0x1000" "offered < 0x1000"
  shows "unat (wlh_rtt_sdio_available_tokens consumed offered) = (unat offered + 4096 - unat consumed) mod 4096"
proof -
  have b: "unat consumed < 4096" "unat offered < 4096" using assms by (simp_all add: word_less_nat_alt)
  then have s: "unat (offered + 0x1000) = unat offered + 4096" by (simp add: unat_word_ariths)
  then have "consumed \<le> offered + 0x1000" using b by (simp add: word_le_nat_alt)
  then show ?thesis using s by (simp add: wlh_rtt_sdio_available_tokens_def unat_mod unat_sub)
qed

lemma unat_window_address:
  assumes "n \<noteq> 0" "n \<le> WLH_RTT_SDIO_MAX_FRAME"
  shows "unat (wlh_rtt_sdio_window_address n) = 0x1f800 - unat n"
proof -
  have "unat n \<le> 4092" using assms(2) by (simp add: word_le_nat_alt)
  then have "n \<le> WLH_RTT_SDIO_END_ADDRESS" by (simp add: word_le_nat_alt)
  moreover have "wlh_rtt_sdio_padded_size n \<noteq> 0" using assms by (auto simp: padded_size_0)
  ultimately show ?thesis by (simp add: wlh_rtt_sdio_window_address_def unat_sub)
qed

lemma padded_size_bounds:
  assumes "n \<noteq> 0" "n \<le> WLH_RTT_SDIO_MAX_FRAME"
  shows "unat n \<le> unat (wlh_rtt_sdio_padded_size n)"
    and "unat (wlh_rtt_sdio_padded_size n) < unat n + 512"
    and "512 dvd unat (wlh_rtt_sdio_padded_size n)"
proof -
  have *: "(n' + 511) div 512 * 512 \<ge> n' \<and> (n' + 511) div 512 * 512 < n' + (512 :: nat)" for n'
    using div_mult_mod_eq [of "n' + 511" 512] mod_less_divisor [of 512 "n' + 511"] by linarith
  show "unat n \<le> unat (wlh_rtt_sdio_padded_size n)"
    "unat (wlh_rtt_sdio_padded_size n) < unat n + 512"
    "512 dvd unat (wlh_rtt_sdio_padded_size n)"
    using * [of "unat n"] by (simp_all only: unat_padded_size [OF assms] dvd_triv_right)
qed

lemma counter_delta_iff:
  assumes "unat d < 2 ^ 20"
  shows "counter_delta p c = d \<longleftrightarrow> unat c mod 2 ^ 20 = (unat p + unat d) mod 2 ^ 20"
proof
  assume "counter_delta p c = d"
  then have "(unat p + unat d) mod 2 ^ 20 =
      (unat p mod 2 ^ 20 + (unat c + 2 ^ 20 - unat p mod 2 ^ 20)) mod 2 ^ 20"
    using accumulated_delta [of p c] by (simp only: mod_add_eq mod_add_right_eq mod_add_left_eq)
  moreover have "unat p mod 2 ^ 20 \<le> unat c + 2 ^ 20" by (simp add: trans_le_add2 less_imp_le)
  ultimately show "unat c mod 2 ^ 20 = (unat p + unat d) mod 2 ^ 20" by simp
next
  assume "unat c mod 2 ^ 20 = (unat p + unat d) mod 2 ^ 20"
  then have "unat (counter_delta p c) = unat d"
    using mod_diff_cancel [OF _ assms, of "unat p" "unat c"] by (simp only: accumulated_delta)
  then show "counter_delta p c = d" by (simp add: unsigned_word_eqI)
qed

subsection \<open>Properties\<close>

text \<open>
  C24: A frame of 1 to 4092 bytes is padded to the least multiple of the 512-byte block size that
  holds it, which never exceeds the 4096-byte staging buffer, and its window ends exactly at the
  end address 0x1f800; every other size is refused by both functions with 0.
\<close>

theorem sdio_frame_window:
  "if n \<noteq> 0 \<and> n \<le> WLH_RTT_SDIO_MAX_FRAME
   then unat n \<le> unat (wlh_rtt_sdio_padded_size n) \<and>
        unat (wlh_rtt_sdio_padded_size n) < unat n + 512 \<and>
        512 dvd unat (wlh_rtt_sdio_padded_size n) \<and>
        unat (wlh_rtt_sdio_padded_size n) \<le> unat WLH_RTT_SDIO_STAGING_SIZE \<and>
        unat (wlh_rtt_sdio_window_address n) + unat n = unat WLH_RTT_SDIO_END_ADDRESS
   else wlh_rtt_sdio_padded_size n = 0 \<and> wlh_rtt_sdio_window_address n = 0"
proof (cases "n \<noteq> 0 \<and> n \<le> WLH_RTT_SDIO_MAX_FRAME")
  case True
  then have "unat n \<le> 0x1f800" by (simp add: word_le_nat_alt)
  then show ?thesis using True padded_size_bounds [of n] padded_size_le [of n]
    by (simp add: unat_window_address)
next
  case False
  then have "n = 0 \<or> n > WLH_RTT_SDIO_MAX_FRAME" by auto
  then have "wlh_rtt_sdio_padded_size n = 0" by (simp add: padded_size_0)
  then have "wlh_rtt_sdio_padded_size n = 0 \<and> wlh_rtt_sdio_window_address n = 0"
    by (simp add: wlh_rtt_sdio_window_address_def)
  then show ?thesis using False by (simp only: if_False)
qed

text \<open>The reading \<open>c\<close> is \<open>d\<close> bytes after \<open>p\<close>, and \<open>d\<close> may be the length of a frame.\<close>

definition advanced :: "u32 \<Rightarrow> u32 \<Rightarrow> u32 \<Rightarrow> u32 \<Rightarrow> bool" where
  "advanced hdr p c d \<longleftrightarrow> c \<noteq> UINT32_MAX \<and> hdr \<le> d \<and> unat d \<le> 4092 \<and> unat c mod 2 ^ 20 = (unat p + unat d) mod 2 ^ 20"

lemma advanced_delta:
  "advanced hdr p c d \<longleftrightarrow> c \<noteq> UINT32_MAX \<and> hdr \<le> d \<and> d \<le> WLH_RTT_SDIO_MAX_FRAME \<and> d = counter_delta p c"
proof (cases "unat d \<le> 4092")
  case True
  then have "unat d < 2 ^ 20" by simp
  then show ?thesis using True unfolding advanced_def counter_delta_iff [symmetric, OF \<open>unat d < 2 ^ 20\<close>] by (auto simp: word_le_nat_alt)
qed (auto simp: advanced_def word_le_nat_alt)

text \<open>
  C11: The length of the next frame is read off the coprocessor's free-running byte counter across
  its 20-bit wrap: the call returns 0 and stores d exactly when there is a place to store it, the register is readable, d is between
  the frame header and 4092 bytes, and the counter has advanced by d modulo 2^20; it returns -1 and stores nothing exactly when there is no
  such d.
\<close>

theorem accumulated_length_exact:
  "(wlh_rtt_sdio_accumulated_length hdr p c out = (0, Some d) \<longleftrightarrow> out \<and> advanced hdr p c d) \<and>
   (wlh_rtt_sdio_accumulated_length hdr p c out = (- 1, None) \<longleftrightarrow> \<not> (out \<and> (\<exists>e. advanced hdr p c e)))"
  unfolding accumulated_length_delta advanced_delta by auto

end
