(* ===== verification/Rt_Mq.thy ===== *)
theory Rt_Mq
  imports Prelude
begin

text \<open>
  The RT-Thread message queue of rt-thread/src/ipc.c, as the package uses it: creation, the
  non-blocking send \<open>rt_mq_send\<close>, and \<open>rt_mq_recv\<close>. Message blocks are numbered by their
  position in the pool. The free list and the list from \<open>msg_queue_head\<close> to \<open>msg_queue_tail\<close> are
  lists of block numbers. A message is a value of type \<open>'a\<close> with the length the sender gave.
  The build has no \<open>RT_USING_MESSAGEQUEUE_PRIORITY\<close>.

  The contract the clients rely on is the locale \<open>bounded_fifo\<close>, interpreted at the end.
\<close>

record 'a rt_messagequeue =
  msg_size :: nat
  max_msgs :: nat
  entry :: nat
  msg_queue :: "nat list"
  msg_queue_free :: "nat list"
  msg_pool :: "(nat \<times> 'a) option list"

abbreviation (input) RT_WAITING_NO :: int where "RT_WAITING_NO \<equiv> 0"
abbreviation (input) RT_WAITING_FOREVER :: int where "RT_WAITING_FOREVER \<equiv> - 1"
abbreviation (input) RT_MQ_ENTRY_MAX :: nat where "RT_MQ_ENTRY_MAX \<equiv> 65535"

text \<open>
  \<open>rt_mq_create\<close>: the two flags say whether the object and the pool were allocated. The loop
  pushes the blocks \<open>0, 1, \<dots>\<close> on the free list, so the last block is its head.
\<close>

definition rt_mq_create :: "bool \<Rightarrow> bool \<Rightarrow> nat \<Rightarrow> nat \<Rightarrow> 'a rt_messagequeue option" where
  "rt_mq_create object_ok pool_ok sz msgs =
     (if \<not> object_ok then None
      else if \<not> pool_ok then None
      else Some \<lparr> msg_size = sz, max_msgs = msgs, entry = 0, msg_queue = [],
             msg_queue_free = fold (#) [0..<msgs] [], msg_pool = replicate msgs None \<rparr>)"

text \<open>\<open>rt_mq_send\<close> is \<open>_rt_mq_send_wait\<close> with timeout 0.\<close>

definition rt_mq_send :: "'a rt_messagequeue \<Rightarrow> 'a \<Rightarrow> nat \<Rightarrow> int \<times> 'a rt_messagequeue" where
  "rt_mq_send mq buffer sz =
     (if sz > msg_size mq then (- RT_ERROR, mq)
      else case msg_queue_free mq of
        [] \<Rightarrow> (- RT_EFULL, mq)
      | msg # rest \<Rightarrow>
          let mq = mq\<lparr> msg_queue_free := rest,
                       msg_pool := (msg_pool mq)[msg := Some (sz, buffer)],
                       msg_queue := msg_queue mq @ [msg] \<rparr>
          in if entry mq < RT_MQ_ENTRY_MAX
             then (RT_EOK, mq\<lparr> entry := entry mq + 1 \<rparr>)
             else (- RT_EFULL, mq))"

text \<open>
  A receive either suspends the caller (\<open>Blocked\<close>), dereferences a null head (\<open>Fault\<close>, which
  the invariant excludes), or returns a code, the message copied to the caller's buffer and the
  queue. On success the code is the length of the message. A message longer than the buffer
  is truncated, which leaves no value of type \<open>'a\<close>.
\<close>

datatype 'a mq_recv = Blocked | Fault | Returns int "'a option" "'a rt_messagequeue"

definition rt_mq_recv :: "'a rt_messagequeue \<Rightarrow> nat \<Rightarrow> int \<Rightarrow> 'a mq_recv" where
  "rt_mq_recv mq sz timeout =
     (if entry mq = 0 then (if timeout = 0 then Returns (- RT_ETIMEOUT) None mq else Blocked)
      else case msg_queue mq of
        [] \<Rightarrow> Fault
      | msg # rest \<Rightarrow>
          (case msg_pool mq ! msg of
             None \<Rightarrow> Fault
           | Some (len, data) \<Rightarrow>
               Returns (int (min len sz)) (if len > sz then None else Some data)
                 (mq\<lparr> msg_queue := rest, entry := entry mq - 1,
                      msg_queue_free := msg # msg_queue_free mq \<rparr>)))"

subsection \<open>Invariant and abstraction\<close>

definition mq_inv :: "'a rt_messagequeue \<Rightarrow> bool" where
  [inv_defs]: "mq_inv mq \<longleftrightarrow>
     distinct (msg_queue mq @ msg_queue_free mq) \<and>
     set (msg_queue mq @ msg_queue_free mq) = {..<max_msgs mq} \<and>
     entry mq = length (msg_queue mq) \<and> length (msg_pool mq) = max_msgs mq \<and>
     max_msgs mq \<le> RT_MQ_ENTRY_MAX \<and> 0 < msg_size mq \<and>
     (\<forall>m\<in>set (msg_queue mq). \<exists>d. msg_pool mq ! m = Some (msg_size mq, d))"

definition mq_contents :: "'a rt_messagequeue \<Rightarrow> 'a list" where
  "mq_contents mq = map (\<lambda>m. snd (the (msg_pool mq ! m))) (msg_queue mq)"

subsection \<open>The queue contract\<close>

text \<open>
  A bounded first-in first-out queue. \<open>recv\<close> yields the return code, the message and the queue
  that a non-blocking receive leaves. The last law is the documented return convention of
  \<open>rt_mq_recv\<close>: the length of the message, which is positive.
\<close>

locale bounded_fifo =
  fixes send :: "'q \<Rightarrow> 'a \<Rightarrow> int \<times> 'q"
    and recv :: "'q \<Rightarrow> int \<times> 'a option \<times> 'q"
    and content :: "'q \<Rightarrow> 'a list"
    and cap :: "'q \<Rightarrow> nat"
    and inv :: "'q \<Rightarrow> bool"
  assumes send_space: "inv q \<Longrightarrow> length (content q) < cap q \<Longrightarrow>
            fst (send q x) = RT_EOK \<and> content (snd (send q x)) = content q @ [x]"
    and send_full: "inv q \<Longrightarrow> cap q \<le> length (content q) \<Longrightarrow> send q x = (- RT_EFULL, q)"
    and send_inv: "inv q \<Longrightarrow> inv (snd (send q x)) \<and> cap (snd (send q x)) = cap q"
    and recv_empty: "inv q \<Longrightarrow> content q = [] \<Longrightarrow> recv q = (- RT_ETIMEOUT, None, q)"
    and recv_head: "inv q \<Longrightarrow> content q = x # xs \<Longrightarrow>
            0 < fst (recv q) \<and> fst (snd (recv q)) = Some x \<and> content (snd (snd (recv q))) = xs"
    and recv_inv: "inv q \<Longrightarrow> inv (snd (snd (recv q))) \<and> cap (snd (snd (recv q))) = cap q"
    and within_cap: "inv q \<Longrightarrow> length (content q) \<le> cap q"
begin

lemma send_content:
  "inv q \<Longrightarrow> content (snd (send q x)) = (if length (content q) < cap q then content q @ [x] else content q)"
  using send_space [of q x] send_full [of q x] by (cases "length (content q) < cap q") auto

lemma send_ok_iff: "inv q \<Longrightarrow> fst (send q x) = RT_EOK \<longleftrightarrow> length (content q) < cap q"
  using send_space [of q x] send_full [of q x] by (cases "length (content q) < cap q") auto

lemma send_error: "inv q \<Longrightarrow> fst (send q x) \<noteq> RT_EOK \<Longrightarrow> send q x = (- RT_EFULL, q)"
  using send_space [of q x] send_full [of q x] by (cases "length (content q) < cap q") auto

lemma recv_never_EOK: "inv q \<Longrightarrow> fst (recv q) \<noteq> RT_EOK"
  using recv_empty [of q] recv_head [of q] by (cases "content q") auto

lemma recv_content: "inv q \<Longrightarrow> content (snd (snd (recv q))) = tl (content q)"
  using recv_empty [of q] recv_head [of q] by (cases "content q") auto

lemma send_all:
  "inv q \<Longrightarrow> length (content q) + length xs \<le> cap q \<Longrightarrow>
   content (fold (\<lambda>x q. snd (send q x)) xs q) = content q @ xs"
proof (induction xs arbitrary: q)
  case Nil
  then show ?case by simp
next
  case (Cons x xs)
  then have "content (snd (send q x)) = content q @ [x]" using send_space [of q x] by simp
  with Cons.prems send_inv [of q x] Cons.IH [of "snd (send q x)"] show ?case by simp
qed

end

text \<open>
  The two operations at a fixed message size \<open>n\<close>, as the package calls them: every queue is
  created, sent to and received from with the same \<open>sizeof\<close>.
\<close>

definition mq_poll :: "nat \<Rightarrow> 'a rt_messagequeue \<Rightarrow> int \<times> 'a option \<times> 'a rt_messagequeue" where
  "mq_poll n mq = (case rt_mq_recv mq n RT_WAITING_NO of
     Returns r d mq' \<Rightarrow> (r, d, mq') | _ \<Rightarrow> (0, None, mq))"

abbreviation mq_inv_n :: "nat \<Rightarrow> 'a rt_messagequeue \<Rightarrow> bool" where
  "mq_inv_n n mq \<equiv> mq_inv mq \<and> msg_size mq = n"

subsection \<open>The model satisfies the contract\<close>

lemma mq_create_inv:
  assumes "rt_mq_create a b n k = Some mq" and "0 < n" and "k \<le> RT_MQ_ENTRY_MAX"
  shows "mq_inv_n n mq \<and> max_msgs mq = k \<and> mq_contents mq = []"
proof -
  have [simp]: "fold (#) xs ys = rev xs @ ys" for xs ys :: "nat list"
    by (induction xs arbitrary: ys) auto
  show ?thesis using assms
    by (auto simp: rt_mq_create_def mq_inv_def mq_contents_def split: if_splits)
qed

lemma mq_length: "mq_inv mq \<Longrightarrow> length (msg_queue mq) + length (msg_queue_free mq) = max_msgs mq"
  unfolding mq_inv_def by (metis card_lessThan distinct_card length_append)

lemma mq_send_push:
  assumes "mq_inv mq" "n = msg_size mq" "msg_queue_free mq = m # rest"
  shows "rt_mq_send mq x n = (RT_EOK, mq\<lparr> msg_queue_free := rest,
           msg_pool := (msg_pool mq)[m := Some (n, x)], msg_queue := msg_queue mq @ [m],
           entry := entry mq + 1 \<rparr>)"
  using assms mq_length [OF assms(1)]
  by (auto simp: rt_mq_send_def mq_inv_def Let_def)

lemma mq_send_push_inv:
  assumes "mq_inv mq" "n = msg_size mq" "msg_queue_free mq = m # rest"
  shows "mq_inv_n n (snd (rt_mq_send mq x n)) \<and> mq_contents (snd (rt_mq_send mq x n)) = mq_contents mq @ [x]"
proof -
  have m: "m < length (msg_pool mq)" "m \<notin> set (msg_queue mq)" "m \<notin> set rest"
    using assms(1,3) by (auto simp: mq_inv_def)
  then show ?thesis using assms
    unfolding mq_send_push [OF assms] by (auto simp: mq_inv_def mq_contents_def)
qed

lemma mq_send_full: "mq_inv_n n mq \<Longrightarrow> msg_queue_free mq = [] \<Longrightarrow> rt_mq_send mq x n = (- RT_EFULL, mq)"
  by (simp add: rt_mq_send_def)

lemma mq_send_fields [simp]: "max_msgs (snd (rt_mq_send mq x n)) = max_msgs mq"
  by (simp add: rt_mq_send_def Let_def split: list.splits)

lemma mq_recv_head:
  assumes "mq_inv_n n mq" "mq_contents mq = x # xs"
  obtains mq' where "rt_mq_recv mq n t = Returns (int n) (Some x) mq'" "mq_contents mq' = xs"
    "mq_inv_n n mq'" "max_msgs mq' = max_msgs mq"
proof -
  from assms(2) obtain m rest where q: "msg_queue mq = m # rest"
    by (auto simp: mq_contents_def)
  obtain d where d: "msg_pool mq ! m = Some (n, d)"
    using assms(1) q by (auto simp: mq_inv_def)
  let ?mq = "mq\<lparr> msg_queue := rest, entry := entry mq - 1, msg_queue_free := m # msg_queue_free mq \<rparr>"
  have "d = x" "mq_contents ?mq = xs"
    using assms(2) q d by (auto simp: mq_contents_def)
  moreover have "entry mq \<noteq> 0"
    using assms(1) q by (auto simp: mq_inv_def)
  then have "rt_mq_recv mq n t = Returns (int n) (Some d) ?mq"
    using q d by (simp add: rt_mq_recv_def)
  moreover have "mq_inv_n n ?mq"
    using assms(1) q by (simp add: mq_inv_def) metis
  ultimately show thesis using that [of ?mq] by simp
qed

lemma mq_recv_empty:
  "mq_inv mq \<Longrightarrow> mq_contents mq = [] \<Longrightarrow>
   rt_mq_recv mq n t = (if t = 0 then Returns (- RT_ETIMEOUT) None mq else Blocked)"
  by (simp add: mq_inv_def rt_mq_recv_def mq_contents_def)

lemma mq_poll_head:
  assumes "mq_inv_n n mq" "mq_contents mq = x # xs"
  obtains mq' where "mq_poll n mq = (int n, Some x, mq')" "mq_contents mq' = xs"
    "mq_inv_n n mq'" "max_msgs mq' = max_msgs mq"
  using assms by (rule mq_recv_head [where t = 0]) (auto simp: mq_poll_def intro: that)

lemma mq_poll_empty: "mq_inv mq \<Longrightarrow> mq_contents mq = [] \<Longrightarrow> mq_poll n mq = (- RT_ETIMEOUT, None, mq)"
  by (simp add: mq_poll_def mq_recv_empty)

interpretation mq: bounded_fifo "\<lambda>q x. rt_mq_send q x n" "mq_poll n" mq_contents max_msgs "mq_inv_n n"
  for n
proof (unfold_locales, goal_cases)
  case (1 q x)
  then show ?case using mq_length [of q] mq_send_push_inv [of q n _ _ x] mq_send_push [of q n _ _ x]
    by (cases "msg_queue_free q") (auto simp: mq_contents_def)
next
  case (2 q x)
  then have "length (msg_queue_free q) = 0"
    using mq_length [of q] unfolding mq_contents_def length_map by linarith
  with 2 show ?case by (simp add: mq_send_full)
next
  case (3 q x)
  then show ?case using mq_send_push_inv [of q n _ _ x] mq_send_full [of q n x]
    by (cases "msg_queue_free q") auto
next
  case (4 q)
  then show ?case by (simp add: mq_poll_empty)
next
  case (5 q x xs)
  then have "0 < n" by (auto simp: mq_inv_def)
  with 5 obtain mq' where "mq_poll n q = (int n, Some x, mq')" "mq_contents mq' = xs"
    by (metis mq_poll_head)
  with \<open>0 < n\<close> show ?case by simp
next
  case (6 q)
  show ?case
  proof (cases "mq_contents q")
    case Nil
    with 6 show ?thesis by (simp add: mq_poll_empty)
  next
    case (Cons x xs)
    with 6 obtain mq' where "mq_poll n q = (int n, Some x, mq')" "mq_inv_n n mq'"
      "max_msgs mq' = max_msgs q"
      by (metis mq_poll_head)
    then show ?thesis by simp
  qed
next
  case (7 q)
  then show ?case using mq_length [of q] by (simp add: mq_contents_def)
qed

end
