(* ===== verification/Wlh_Logic.thy ===== *)
theory Wlh_Logic
  imports Prelude
begin

text \<open>
  The pure logic of the host package, packages/wlh_rtt_host/src/wlh_rtt_logic.c: validation of a
  SoftAP configuration, generation numbers, routing of wire interface ids, the bit-mask pool of
  receive buffers, and the table of SoftAP clients. A pointer the code compares with \<open>NULL\<close> is an
  option. The file ends with the pool and the client table as contracts and their
  interpretations.
\<close>

subsection \<open>SoftAP validation, generations, routing\<close>

datatype wlh_rtt_validation_result = WLH_RTT_VALID | WLH_RTT_INVALID | WLH_RTT_UNSUPPORTED

datatype wlh_rtt_interface_route = WLH_RTT_ROUTE_INVALID | WLH_RTT_ROUTE_STA | WLH_RTT_ROUTE_AP

definition wlh_rtt_softap_validate ::
  "u32 \<Rightarrow> u32 \<Rightarrow> u32 \<Rightarrow> u32 \<Rightarrow> bool \<Rightarrow> u32 \<Rightarrow> u32 \<Rightarrow> wlh_rtt_validation_result" where
  "wlh_rtt_softap_validate ssid_length credential_length security channel hidden
     open_security wpa2_security =
   (if ssid_length = 0 \<or> ssid_length > 32 \<or> channel < 1 \<or> channel > 14 then WLH_RTT_INVALID
    else if hidden \<or> (security \<noteq> open_security \<and> security \<noteq> wpa2_security)
    then WLH_RTT_UNSUPPORTED
    else if security = open_security
    then (if credential_length = 0 then WLH_RTT_VALID else WLH_RTT_INVALID)
    else if credential_length \<ge> 8 \<and> credential_length \<le> 63 then WLH_RTT_VALID
    else WLH_RTT_INVALID)"

definition wlh_rtt_next_generation :: "u32 \<Rightarrow> u32" where
  "wlh_rtt_next_generation current = (let current = current + 1 in if current = 0 then 1 else current)"

definition wlh_rtt_route_wire_interface :: "u32 \<Rightarrow> u32 \<Rightarrow> u32 \<Rightarrow> wlh_rtt_interface_route" where
  "wlh_rtt_route_wire_interface wire_interface wire_sta wire_ap =
   (if wire_interface = wire_sta then WLH_RTT_ROUTE_STA
    else if wire_interface = wire_ap then WLH_RTT_ROUTE_AP
    else WLH_RTT_ROUTE_INVALID)"

subsection \<open>The buffer pool\<close>

definition wlh_rtt_pool_initial_mask :: "nat \<Rightarrow> u64" where
  "wlh_rtt_pool_initial_mask count =
   (if count = 0 \<or> count > 64 then 0
    else if count = 64 then - 1 else push_bit count 1 - 1)"

function pool_take_from :: "u64 \<Rightarrow> nat \<Rightarrow> nat \<Rightarrow> int \<times> u64" where
  "pool_take_from free_mask index count =
   (if index < count then
      (let b = push_bit index 1 in
       if free_mask AND b \<noteq> 0 then (int index, free_mask AND NOT b)
       else pool_take_from free_mask (Suc index) count)
    else (- 1, free_mask))"
  by pat_completeness auto
termination
  by (relation "measure (\<lambda>(m, i, n). n - i)") auto

definition wlh_rtt_pool_take :: "u64 option \<Rightarrow> nat \<Rightarrow> int \<times> u64 option" where
  "wlh_rtt_pool_take free_mask count =
   (case free_mask of
      None \<Rightarrow> (- 1, None)
    | Some m \<Rightarrow> if count > 64 then (- 1, Some m)
               else (let (i, m') = pool_take_from m 0 count in (i, Some m')))"

definition wlh_rtt_pool_put :: "u64 option \<Rightarrow> nat \<Rightarrow> u64 option" where
  "wlh_rtt_pool_put free_mask index =
   (case free_mask of
      None \<Rightarrow> None
    | Some m \<Rightarrow> if index < 64 then Some (m OR push_bit index 1) else Some m)"

subsection \<open>The table of SoftAP clients\<close>

record wlh_rtt_ap_client_stats =
  cl_active :: bool
  cl_mac :: "u8 list"
  cl_rssi_dbm :: s16
  cl_association_id :: u32
  cl_ieee80211_reason :: u32

text \<open>The search loop: \<open>client\<close> is the candidate slot so far, \<open>index\<close> the position of the head.\<close>

fun ap_client_scan ::
  "u8 list \<Rightarrow> bool \<Rightarrow> wlh_rtt_ap_client_stats list \<Rightarrow> nat \<Rightarrow> nat option \<Rightarrow> nat option" where
  "ap_client_scan mac joined [] index client = client"
| "ap_client_scan mac joined (c # cs) index client =
   (if cl_active c \<and> cl_mac c = mac then Some index
    else ap_client_scan mac joined cs (Suc index)
           (if joined \<and> client = None \<and> \<not> cl_active c then Some index else client))"

definition wlh_rtt_ap_client_update ::
  "wlh_rtt_ap_client_stats list option \<Rightarrow> nat \<Rightarrow> u8 list option \<Rightarrow> bool \<Rightarrow> s16 \<Rightarrow> u32 \<Rightarrow> u32 \<Rightarrow> u32 option
   \<Rightarrow> bool \<times> wlh_rtt_ap_client_stats list option \<times> u32 option" where
  "wlh_rtt_ap_client_update table capacity mac joined rssi_dbm association_id ieee80211_reason active_count =
   (case (table, mac, active_count) of
      (Some t, Some m, Some n) \<Rightarrow>
        (case ap_client_scan m joined (take capacity t) 0 None of
           None \<Rightarrow> (False, Some t, Some n)
         | Some i \<Rightarrow>
             let was_active = cl_active (t ! i);
                 t' = t[i := \<lparr> cl_active = joined, cl_mac = m, cl_rssi_dbm = rssi_dbm,
                              cl_association_id = association_id,
                              cl_ieee80211_reason = ieee80211_reason \<rparr>];
                 n' = (if joined \<and> \<not> was_active then n + 1
                       else if \<not> joined \<and> was_active \<and> n \<noteq> 0 then n - 1 else n)
             in (True, Some t', Some n'))
    | _ \<Rightarrow> (False, table, active_count))"

definition ap_client_zero :: wlh_rtt_ap_client_stats where
  "ap_client_zero = \<lparr> cl_active = False, cl_mac = replicate 6 0, cl_rssi_dbm = 0,
     cl_association_id = 0, cl_ieee80211_reason = 0 \<rparr>"

definition wlh_rtt_ap_client_clear ::
  "wlh_rtt_ap_client_stats list option \<Rightarrow> nat \<Rightarrow> u32 option \<Rightarrow>
   wlh_rtt_ap_client_stats list option \<times> u32 option" where
  "wlh_rtt_ap_client_clear table capacity active_count =
   (map_option (\<lambda>t. replicate capacity ap_client_zero @ drop capacity t) table,
    map_option (\<lambda>_. 0) active_count)"

subsection \<open>Generations\<close>

lemma next_generation_nonzero [simp]: "wlh_rtt_next_generation g \<noteq> 0"
  by (simp add: wlh_rtt_next_generation_def Let_def)

lemma unat_next_generation:
  "unat (wlh_rtt_next_generation g) = unat g mod (2 ^ 32 - 1) + 1"
proof (cases "g = - 1")
  case True
  then show ?thesis by (simp add: wlh_rtt_next_generation_def unsigned_minus_1_eq_mask mask_eq_exp_minus_1)
next
  case False
  have "unat g \<noteq> unat (- 1 :: u32)" using False by (metis unsigned_word_eqI)
  then have lt: "unat g < 2 ^ 32 - 1"
    using unat_u32_bound [of g] by (simp add: unsigned_minus_1_eq_mask mask_eq_exp_minus_1)
  have "g + 1 \<noteq> 0" using False by (metis add.inverse_inverse eq_neg_iff_add_eq_0)
  moreover have "unat (g + 1) = unat g + 1" using lt by (simp add: unat_word_ariths)
  ultimately show ?thesis using lt by (simp add: wlh_rtt_next_generation_def)
qed

lemma unat_generation_iterate:
  "unat ((wlh_rtt_next_generation ^^ Suc n) g) = (unat g + n) mod (2 ^ 32 - 1) + 1"
proof (induction n)
  case 0
  show ?case by (simp add: unat_next_generation del: mod_less)
next
  case (Suc n)
  have "unat ((wlh_rtt_next_generation ^^ Suc (Suc n)) g) =
      ((unat g + n) mod (2 ^ 32 - 1) + 1) mod (2 ^ 32 - 1) + 1"
    using unat_next_generation [of "(wlh_rtt_next_generation ^^ Suc n) g"] unfolding Suc.IH by simp
  then show ?case by (simp only: mod_Suc_eq Suc_eq_plus1 add.assoc mod_add_left_eq)
qed

lemma generation_distinct:
  assumes "i < j" "j < i + (2 ^ 32 - 1)" "0 < i"
  shows "(wlh_rtt_next_generation ^^ i) g \<noteq> (wlh_rtt_next_generation ^^ j) g"
proof
  assume e: "(wlh_rtt_next_generation ^^ i) g = (wlh_rtt_next_generation ^^ j) g"
  obtain a b where ab: "i = Suc a" "j = Suc b" using assms by (metis gr0_conv_Suc less_trans)
  have "(unat g + a) mod (2 ^ 32 - 1) = (unat g + b) mod (2 ^ 32 - 1)"
    using arg_cong [OF e, of unat] unfolding ab unat_generation_iterate by simp
  then have "(2 ^ 32 - 1) dvd (unat g + b) - (unat g + a)"
    using mod_eq_dvd_iff_nat [of "unat g + a" "unat g + b"] assms ab by (metis nat_add_left_cancel_le less_imp_le_nat not_less_eq)
  then show False using assms ab by (auto dest: dvd_imp_le)
qed

subsection \<open>The pool as a set of free blocks\<close>

text \<open>
  The contract of a pool of numbered blocks: \<open>take\<close> hands out the smallest free block or
  reports exhaustion, \<open>put\<close> returns a block.
\<close>

locale block_pool =
  fixes take_block :: "'p \<Rightarrow> int \<times> 'p"
    and put_block :: "'p \<Rightarrow> nat \<Rightarrow> 'p"
    and free :: "'p \<Rightarrow> nat set"
    and blocks :: nat
  assumes free_finite: "free p \<subseteq> {..<blocks} \<Longrightarrow> finite (free p)"
    and take_empty: "free p \<inter> {..<blocks} = {} \<Longrightarrow> take_block p = (- 1, p)"
    and take_least: "free p \<inter> {..<blocks} \<noteq> {} \<Longrightarrow>
          fst (take_block p) = int (Min (free p \<inter> {..<blocks})) \<and>
          free (snd (take_block p)) = free p - {Min (free p \<inter> {..<blocks})}"
    and put_free: "i < blocks \<Longrightarrow> free (put_block p i) = insert i (free p)"
begin

lemma take_cases:
  assumes "free p \<subseteq> {..<blocks}"
  obtains (exhausted) "free p = {}" "take_block p = (- 1, p)"
    | (block) i where "i \<in> free p" "i < blocks" "fst (take_block p) = int i"
        "free (snd (take_block p)) = free p - {i}"
proof (cases "free p = {}")
  case True
  then show thesis using take_empty [of p] exhausted by simp
next
  case False
  have e: "free p \<inter> {..<blocks} = free p" using assms by blast
  have "Min (free p) \<in> free p" using False assms free_finite by (intro Min_in) auto
  then show thesis using take_least [of p] False e assms block [of "Min (free p)"] by auto
qed

lemma take_within: "free p \<subseteq> {..<blocks} \<Longrightarrow> free (snd (take_block p)) \<subseteq> {..<blocks}"
  by (rule take_cases [of p]) auto

lemma put_within: "free p \<subseteq> {..<blocks} \<Longrightarrow> i < blocks \<Longrightarrow> free (put_block p i) \<subseteq> {..<blocks}"
  using put_free [of i p] by auto

lemma take_put:
  assumes "free p \<subseteq> {..<blocks}" "fst (take_block p) = int i"
  shows "i < blocks \<and> free (put_block (snd (take_block p)) i) = free p"
  using assms(1)
proof (cases rule: take_cases)
  case exhausted
  with assms(2) show ?thesis by simp
next
  case (block j)
  then show ?thesis using assms(2) put_free [of i "snd (take_block p)"] by auto
qed

end

definition pool_free :: "u64 \<Rightarrow> nat set" where
  "pool_free m = {i. bit m i}"

declare pool_take_from.simps [simp del]

lemma and_push_bit_1: "(m :: u64) AND push_bit i 1 \<noteq> 0 \<longleftrightarrow> bit m i"
proof -
  have "bit (m AND push_bit i 1) j \<longleftrightarrow> bit m i \<and> j = i" for j
    using bit_imp_le_length [of m i] by (auto simp: bit_simps)
  then show ?thesis by (metis bit_0_eq bot_apply bot_bool_def bit_eqI)
qed

lemma pool_free_clear: "pool_free (m AND NOT (push_bit i 1)) = pool_free m - {i}"
  by (auto simp: pool_free_def bit_simps dest: bit_imp_le_length)

lemma pool_free_set: "i < 64 \<Longrightarrow> pool_free (m OR push_bit i 1) = insert i (pool_free m)"
  by (auto simp: pool_free_def bit_simps)

lemma pool_take_from_spec:
  "pool_take_from m i n =
    (if pool_free m \<inter> {i..<n} = {} then (- 1, m)
     else (int (Min (pool_free m \<inter> {i..<n})), m AND NOT (push_bit (Min (pool_free m \<inter> {i..<n})) 1)))"
proof (induction m i n rule: pool_take_from.induct)
  case (1 m i n)
  consider "\<not> i < n" | "i < n" "bit m i" | "i < n" "\<not> bit m i" by blast
  then show ?case
  proof cases
    case 1
    then show ?thesis by (simp add: pool_take_from.simps [of m i n])
  next
    case 2
    then have "pool_free m \<inter> {i..<n} \<noteq> {}" "Min (pool_free m \<inter> {i..<n}) = i"
      by (auto simp: pool_free_def intro!: Min_eqI)
    then show ?thesis using 2 by (simp add: pool_take_from.simps [of m i n] Let_def and_push_bit_1)
  next
    case 3
    then have "pool_free m \<inter> {i..<n} = pool_free m \<inter> {Suc i..<n}"
      by (auto simp: pool_free_def Suc_le_eq order.order_iff_strict)
    then show ?thesis using 3 "1.IH" [OF 3(1) refl]
      by (simp add: pool_take_from.simps [of m i n] Let_def and_push_bit_1)
  qed
qed

abbreviation pool_take_n :: "nat \<Rightarrow> u64 \<Rightarrow> int \<times> u64" where
  "pool_take_n n m \<equiv> (fst (wlh_rtt_pool_take (Some m) n), the (snd (wlh_rtt_pool_take (Some m) n)))"

lemma pool_take_some: "n \<le> 64 \<Longrightarrow> wlh_rtt_pool_take (Some m) n =
    (fst (pool_take_from m 0 n), Some (snd (pool_take_from m 0 n)))"
  by (simp add: wlh_rtt_pool_take_def case_prod_beta Let_def)

lemma pool_contract:
  assumes "n \<le> 64"
  shows "block_pool (pool_take_n n) (\<lambda>m i. the (wlh_rtt_pool_put (Some m) i)) pool_free n"
proof (unfold_locales, goal_cases)
  case (1 p)
  then show ?case by (rule finite_subset) simp
next
  case (2 p)
  then show ?case using assms by (simp add: pool_take_some pool_take_from_spec atLeast0LessThan)
next
  case (3 p)
  then show ?case using assms
    by (simp add: pool_take_some pool_take_from_spec atLeast0LessThan pool_free_clear)
next
  case (4 i p)
  then show ?case using assms by (simp add: wlh_rtt_pool_put_def pool_free_set)
qed

text \<open>Each interface owns \<open>WLH_RTT_HOST_RX_POOL_PER_INTERFACE\<close> (rtconfig.h) blocks.\<close>

abbreviation (input) WLH_RTT_HOST_RX_POOL_PER_INTERFACE :: nat where
  "WLH_RTT_HOST_RX_POOL_PER_INTERFACE \<equiv> 16"

interpretation pool: block_pool "pool_take_n WLH_RTT_HOST_RX_POOL_PER_INTERFACE"
    "\<lambda>m i. the (wlh_rtt_pool_put (Some m) i)" pool_free WLH_RTT_HOST_RX_POOL_PER_INTERFACE
  by (rule pool_contract) simp

lemma pool_initial_free: "n \<le> 64 \<Longrightarrow> pool_free (wlh_rtt_pool_initial_mask n) = {..<n}"
proof -
  assume n: "n \<le> 64"
  have "bit (push_bit n 1 - 1 :: u64) i \<longleftrightarrow> i < n" if "n < 64" for i
  proof -
    have "push_bit n 1 - 1 = (mask n :: u64)" by (simp add: mask_eq_exp_minus_1 push_bit_eq_mult)
    then show ?thesis using that by (auto simp: bit_mask_iff)
  qed
  then show ?thesis using n
    by (cases "n = 64") (auto simp: pool_free_def wlh_rtt_pool_initial_mask_def dest: bit_imp_le_length)
qed

subsection \<open>The client table\<close>

definition ap_table_inv :: "nat \<Rightarrow> wlh_rtt_ap_client_stats list \<Rightarrow> u32 \<Rightarrow> bool" where
  [inv_defs]: "ap_table_inv capacity t n \<longleftrightarrow>
     length t = capacity \<and> capacity < 2 ^ 32 \<and>
     (\<forall>i<capacity. \<forall>j<capacity. cl_active (t ! i) \<and> cl_active (t ! j) \<and> cl_mac (t ! i) = cl_mac (t ! j)
        \<longrightarrow> i = j) \<and>
     unat n = length (filter cl_active t)"

text \<open>What the table says of a station: its last report while it is associated.\<close>

definition ap_lookup :: "wlh_rtt_ap_client_stats list \<Rightarrow> u8 list \<Rightarrow> (s16 \<times> u32 \<times> u32) option" where
  "ap_lookup t m = map_option (\<lambda>c. (cl_rssi_dbm c, cl_association_id c, cl_ieee80211_reason c))
     (find (\<lambda>c. cl_active c \<and> cl_mac c = m) t)"

lemma ap_client_scan_spec:
  "ap_client_scan m joined cs k client =
   (case find_index (\<lambda>c. cl_active c \<and> cl_mac c = m) cs of
      Some i \<Rightarrow> Some (k + i)
    | None \<Rightarrow> (if joined \<and> client = None
               then map_option (\<lambda>i. k + i) (find_index (\<lambda>c. \<not> cl_active c) cs) else client))"
proof (induction cs arbitrary: k client)
  case Nil
  then show ?case by simp
next
  case (Cons c cs)
  have [simp]: "(+) (Suc k) = (\<lambda>x. Suc (k + x))" by auto
  from Cons show ?case by (auto simp: option.map_comp comp_def split: option.splits)
qed

lemma length_filter_update:
  "i < length xs \<Longrightarrow> length (filter P (xs[i := v])) + (if P (xs ! i) then 1 else 0) =
     length (filter P xs) + (if P v then 1 else 0)"
proof (induction xs arbitrary: i)
  case Nil
  then show ?case by simp
next
  case (Cons x xs)
  show ?case
  proof (cases i)
    case 0
    then show ?thesis by simp
  next
    case (Suc j)
    with Cons.prems Cons.IH [of j] show ?thesis by (cases "P x") simp_all
  qed
qed

lemma find_eq_Some_unique:
  assumes "i < length t" "P (t ! i)" "\<forall>j<length t. P (t ! j) \<longrightarrow> j = i"
  shows "find P t = Some (t ! i)"
proof -
  have "\<forall>j<i. \<not> P (t ! j)" using assms(1,3) by (metis less_irrefl less_trans)
  then show ?thesis unfolding find_Some_iff using assms(1,2) by blast
qed

lemma find_update_other:
  "\<not> P v \<Longrightarrow> \<not> P (t ! i) \<Longrightarrow> find P (t[i := v]) = find P t"
proof (induction t arbitrary: i)
  case Nil
  then show ?case by simp
next
  case (Cons c t)
  then show ?case by (cases i) simp_all
qed

text \<open>
  The contract of the client table, on a state \<open>'t\<close> that holds at most \<open>room\<close> stations: a join
  stores the report of a station, a leave forgets it, and both say whether they found a slot.
\<close>

locale client_registry =
  fixes report :: "'t \<Rightarrow> 'k \<Rightarrow> bool \<Rightarrow> 'v \<Rightarrow> bool \<times> 't"
    and lookup :: "'t \<Rightarrow> 'k \<Rightarrow> 'v option"
    and count :: "'t \<Rightarrow> nat"
    and room :: nat
    and inv :: "'t \<Rightarrow> bool"
  assumes join_room: "inv t \<Longrightarrow> lookup t k \<noteq> None \<or> count t < room \<Longrightarrow>
            fst (report t k True v) \<and> lookup (snd (report t k True v)) = (lookup t)(k \<mapsto> v)"
    and join_full: "inv t \<Longrightarrow> lookup t k = None \<Longrightarrow> room \<le> count t \<Longrightarrow> report t k True v = (False, t)"
    and leave_known: "inv t \<Longrightarrow> lookup t k \<noteq> None \<Longrightarrow>
            fst (report t k False v) \<and> lookup (snd (report t k False v)) = (lookup t)(k := None)"
    and leave_unknown: "inv t \<Longrightarrow> lookup t k = None \<Longrightarrow> report t k False v = (False, t)"
    and report_inv: "inv t \<Longrightarrow> inv (snd (report t k j v))"
    and count_dom: "inv t \<Longrightarrow> finite (dom (lookup t)) \<and> count t = card (dom (lookup t))"
begin

lemma report_lookup:
  assumes "inv t" "card (insert k (dom (lookup t))) \<le> room"
  shows "lookup (snd (report t k j v)) = (lookup t)(k := if j then Some v else None)"
proof (cases j)
  case True
  have "lookup t k \<noteq> None \<or> count t < room"
    using assms count_dom [of t] by (cases "lookup t k") (auto simp: domIff card_insert_disjoint)
  then show ?thesis using True assms(1) join_room by simp
next
  case False
  then show ?thesis using assms(1) leave_known [of t k v] leave_unknown [of t k v]
    by (cases "lookup t k") auto
qed

text \<open>A history of reports over at most \<open>room\<close> stations is never lossy.\<close>

lemma history_lookup:
  "inv t \<Longrightarrow> dom (lookup t) \<union> (\<lambda>(k, j, v). k) ` set es \<subseteq> K \<Longrightarrow> finite K \<Longrightarrow> card K \<le> room \<Longrightarrow>
   lookup (fold (\<lambda>(k, j, v) t. snd (report t k j v)) es t) =
   fold (\<lambda>(k, j, v) m. m(k := if j then Some v else None)) es (lookup t)"
proof (induction es arbitrary: t)
  case Nil
  then show ?case by simp
next
  case (Cons e es)
  obtain k j v where e: "e = (k, j, v)" by (cases e) auto
  have "card (insert k (dom (lookup t))) \<le> card K"
    using Cons.prems e by (intro card_mono) auto
  then have l: "lookup (snd (report t k j v)) = (lookup t)(k := if j then Some v else None)"
    using Cons.prems by (intro report_lookup) auto
  have "dom (lookup (snd (report t k j v))) \<union> (\<lambda>(k, j, v). k) ` set es \<subseteq> K"
    using Cons.prems(2) e by (auto simp: l split: if_splits)
  from Cons.IH [OF report_inv [OF Cons.prems(1)] this Cons.prems(3,4)] show ?case
    unfolding l by (simp add: e)
qed

end

definition ap_report :: "nat \<Rightarrow> wlh_rtt_ap_client_stats list \<times> u32 \<Rightarrow> u8 list \<Rightarrow> bool \<Rightarrow> s16 \<times> u32 \<times> u32
    \<Rightarrow> bool \<times> wlh_rtt_ap_client_stats list \<times> u32" where
  "ap_report capacity tn mac joined v =
     (case wlh_rtt_ap_client_update (Some (fst tn)) capacity (Some mac) joined (fst v) (fst (snd v))
             (snd (snd v)) (Some (snd tn)) of
        (ok, t', n') \<Rightarrow> (ok, the t', the n'))"

definition ap_entry :: "bool \<Rightarrow> u8 list \<Rightarrow> s16 \<times> u32 \<times> u32 \<Rightarrow> wlh_rtt_ap_client_stats" where
  "ap_entry joined mac v = \<lparr> cl_active = joined, cl_mac = mac, cl_rssi_dbm = fst v,
     cl_association_id = fst (snd v), cl_ieee80211_reason = snd (snd v) \<rparr>"

lemma ap_entry_sel [simp]: "cl_active (ap_entry j m v) = j" "cl_mac (ap_entry j m v) = m"
  by (simp_all add: ap_entry_def)

lemma ap_lookup_None: "ap_lookup t m = None \<longleftrightarrow> (\<forall>i<length t. \<not> (cl_active (t ! i) \<and> cl_mac (t ! i) = m))"
  by (auto simp: ap_lookup_def find_None_iff in_set_conv_nth)

lemma ap_report_cases:
  assumes "ap_table_inv c t n"
  obtains (hit) i where "i < length t" "cl_active (t ! i)" "cl_mac (t ! i) = m"
      "ap_report c (t, n) m j v = (True, t[i := ap_entry j m v], if j \<or> n = 0 then n else n - 1)"
    | (fresh) i where "j" "ap_lookup t m = None" "i < length t" "\<not> cl_active (t ! i)"
      "ap_report c (t, n) m j v = (True, t[i := ap_entry j m v], n + 1)"
    | (lost) "ap_lookup t m = None" "j \<Longrightarrow> \<forall>c\<in>set t. cl_active c" "ap_report c (t, n) m j v = (False, t, n)"
proof (cases "find_index (\<lambda>c. cl_active c \<and> cl_mac c = m) t")
  case None
  have l: "ap_lookup t m = None" using None by (auto simp: find_index_None ap_lookup_def find_None_iff)
  have len: "take c t = t" using assms by (simp add: ap_table_inv_def)
  show thesis
  proof (cases "j \<and> (\<exists>c\<in>set t. \<not> cl_active c)")
    case True
    then obtain i where i: "find_index (\<lambda>c. \<not> cl_active c) t = Some i"
      using find_index_None by (metis not_None_eq)
    then have f: "i < length t" "\<not> cl_active (t ! i)" by (simp_all add: find_index_Some)
    then have "ap_report c (t, n) m j v = (True, t[i := ap_entry j m v], n + 1)"
      using None True len i
      by (simp add: ap_report_def wlh_rtt_ap_client_update_def ap_client_scan_spec ap_entry_def Let_def)
    then show ?thesis using True l f fresh [of i] by simp
  next
    case False
    then have "ap_report c (t, n) m j v = (False, t, n)"
      using None len find_index_None [of "\<lambda>c. \<not> cl_active c" t]
      by (auto simp: ap_report_def wlh_rtt_ap_client_update_def ap_client_scan_spec)
    then show ?thesis using False l lost by blast
  qed
next
  case (Some i)
  then have f: "i < length t" "cl_active (t ! i)" "cl_mac (t ! i) = m" by (simp_all add: find_index_Some)
  moreover have "take c t = t" using assms by (simp add: ap_table_inv_def)
  ultimately have "ap_report c (t, n) m j v = (True, t[i := ap_entry j m v], if j \<or> n = 0 then n else n - 1)"
    using Some
    by (auto simp: ap_report_def wlh_rtt_ap_client_update_def ap_client_scan_spec ap_entry_def Let_def)
  then show thesis using f hit [of i] by simp
qed

lemma ap_lookup_update:
  assumes "i < length t" "\<not> cl_active (t ! i) \<or> cl_mac (t ! i) = m"
    and "\<forall>k<length t. cl_active (t ! k) \<and> cl_mac (t ! k) = m \<longrightarrow> k = i"
  shows "ap_lookup (t[i := ap_entry j m v]) = (ap_lookup t)(m := if j then Some v else None)"
proof
  fix m'
  show "ap_lookup (t[i := ap_entry j m v]) m' = ((ap_lookup t)(m := if j then Some v else None)) m'"
  proof (cases "m' = m")
    case True
    have "find (\<lambda>c. cl_active c \<and> cl_mac c = m) (t[i := ap_entry j m v]) = (if j then Some (ap_entry j m v) else None)"
    proof (cases j)
      case True
      have "find (\<lambda>c. cl_active c \<and> cl_mac c = m) (t[i := ap_entry j m v]) = Some (t[i := ap_entry j m v] ! i)"
      proof (rule find_eq_Some_unique)
        show "\<forall>k<length (t[i := ap_entry j m v]). cl_active (t[i := ap_entry j m v] ! k) \<and>
            cl_mac (t[i := ap_entry j m v] ! k) = m \<longrightarrow> k = i"
          using assms(3) by simp
      qed (use assms(1) True in simp_all)
      then show ?thesis using assms(1) True by simp
    next
      case False
      have "\<not> (cl_active c \<and> cl_mac c = m)" if c: "c \<in> set (t[i := ap_entry j m v])" for c
      proof -
        from c obtain k where "k < length t" "c = t[i := ap_entry j m v] ! k"
          by (metis in_set_conv_nth length_list_update)
        moreover have "k \<noteq> i \<Longrightarrow> \<not> (cl_active (t ! k) \<and> cl_mac (t ! k) = m)"
          using assms(3) \<open>k < length t\<close> by blast
        ultimately show ?thesis using False by (cases "k = i") simp_all
      qed
      then have "find (\<lambda>c. cl_active c \<and> cl_mac c = m) (t[i := ap_entry j m v]) = None"
        unfolding find_None_iff by blast
      then show ?thesis using False by simp
    qed
    then show ?thesis using True by (simp add: ap_lookup_def ap_entry_def)
  next
    case False
    then show ?thesis using assms(2) by (auto simp: ap_lookup_def find_update_other)
  qed
qed

lemma ap_table_active_bound: "ap_table_inv c t n \<Longrightarrow> unat n \<le> c \<and> (n = 0 \<longleftrightarrow> (\<forall>c\<in>set t. \<not> cl_active c))"
  by (auto simp: ap_table_inv_def unat_eq_zero [symmetric] filter_empty_conv simp del: unat_eq_zero
      intro: length_filter_le [THEN order_trans])

lemma distinct_map_filter_nth:
  "distinct (map f (filter P t)) \<longleftrightarrow>
   (\<forall>i<length t. \<forall>j<length t. P (t ! i) \<and> P (t ! j) \<and> f (t ! i) = f (t ! j) \<longrightarrow> i = j)"
proof (induction t)
  case Nil
  then show ?case by simp
next
  case (Cons a t)
  let ?R = "\<lambda>t. \<forall>i<length t. \<forall>j<length t. P (t ! i) \<and> P (t ! j) \<and> f (t ! i) = f (t ! j) \<longrightarrow> i = j"
  let ?H = "P a \<longrightarrow> (\<forall>j<length t. \<not> (P (t ! j) \<and> f a = f (t ! j)))"
  have "f a \<notin> f ` {x \<in> set t. P x} \<longleftrightarrow> (\<forall>j<length t. \<not> (P (t ! j) \<and> f a = f (t ! j)))"
    by (force simp: in_set_conv_nth)
  then have "distinct (map f (filter P (a # t))) \<longleftrightarrow> ?H \<and> ?R t"
    using Cons.IH by simp
  moreover have "?R (a # t) \<longleftrightarrow> ?H \<and> ?R t"
  proof
    assume R: "?R (a # t)"
    have ?H using R [rule_format, of 0 "Suc j" for j] by auto
    moreover have "?R t" using R [rule_format, of "Suc i" "Suc j" for i j] by auto
    ultimately show "?H \<and> ?R t" ..
  next
    assume h: "?H \<and> ?R t"
    show "?R (a # t)"
    proof (intro allI impI)
      fix i j
      assume "i < length (a # t)" "j < length (a # t)"
        "P ((a # t) ! i) \<and> P ((a # t) ! j) \<and> f ((a # t) ! i) = f ((a # t) ! j)"
      then show "i = j" using h by (cases i; cases j) (simp_all, metis+)
    qed
  qed
  ultimately show ?case by (simp only:)
qed

lemma ap_table_macs: "ap_table_inv c t n \<Longrightarrow> distinct (map cl_mac (filter cl_active t))"
  unfolding distinct_map_filter_nth ap_table_inv_def by simp

lemma ap_lookup_dom: "dom (ap_lookup t) = set (map cl_mac (filter cl_active t))"
proof (rule set_eqI)
  fix m
  show "m \<in> dom (ap_lookup t) \<longleftrightarrow> m \<in> set (map cl_mac (filter cl_active t))"
    using find_None_iff [of "\<lambda>c. cl_active c \<and> cl_mac c = m" t] by (auto simp: domIff ap_lookup_def)
qed

lemma ap_table_count: "ap_table_inv c t n \<Longrightarrow> unat n = card (dom (ap_lookup t))"
  using distinct_card [OF ap_table_macs, of c t n] by (simp add: ap_lookup_dom ap_table_inv_def)

lemma ap_table_update_inv:
  assumes "ap_table_inv c t n" "i < length t"
    and "\<forall>k<length t. k \<noteq> i \<longrightarrow> \<not> (cl_active (t ! k) \<and> cl_mac (t ! k) = m)"
    and "unat n' + (if cl_active (t ! i) then 1 else 0) = unat n + (if j then 1 else 0)"
  shows "ap_table_inv c (t[i := ap_entry j m v]) n'"
proof -
  have "a = b" if "a < c" "b < c" "cl_active (t[i := ap_entry j m v] ! a)" "cl_active (t[i := ap_entry j m v] ! b)"
    "cl_mac (t[i := ap_entry j m v] ! a) = cl_mac (t[i := ap_entry j m v] ! b)" for a b
    using that assms(1-3) unfolding ap_table_inv_def by (cases "a = i"; cases "b = i") auto
  moreover have "unat n' = length (filter cl_active (t[i := ap_entry j m v]))"
    using length_filter_update [OF assms(2), of cl_active "ap_entry j m v"] assms(1,4)
    by (simp add: ap_table_inv_def split: if_splits)
  ultimately show ?thesis using assms(1) by (simp add: ap_table_inv_def)
qed

lemma ap_report_inv [inv_intros]:
  assumes inv: "ap_table_inv c t n"
  shows "ap_table_inv c (fst (snd (ap_report c (t, n) m j v))) (snd (snd (ap_report c (t, n) m j v)))"
  using inv
proof (cases rule: ap_report_cases [where m = m and j = j and v = v])
  case (hit i)
  then have "n \<noteq> 0" using ap_table_active_bound [OF inv] by (metis nth_mem)
  then have "unat (n - 1) = unat n - 1" "unat n \<noteq> 0" by (simp_all add: unat_minus_one unat_eq_zero)
  moreover have "\<forall>k<length t. k \<noteq> i \<longrightarrow> \<not> (cl_active (t ! k) \<and> cl_mac (t ! k) = m)"
    using inv hit by (auto simp: ap_table_inv_def)
  ultimately show ?thesis
    using hit ap_table_update_inv [OF inv hit(1), of m "if j \<or> n = 0 then n else n - 1" j v] \<open>n \<noteq> 0\<close> by simp
next
  case (fresh i)
  have "length (filter cl_active t) < length t"
    using fresh(3,4) by (metis length_filter_less nth_mem)
  then have "unat (n + 1) = unat n + 1" using inv by (simp add: ap_table_inv_def unat_word_ariths)
  then show ?thesis
    using fresh ap_table_update_inv [OF inv fresh(3), of m "n + 1" j v] by (simp add: ap_lookup_None)
next
  case lost
  then show ?thesis using inv by simp
qed

lemma ap_lookup_hit:
  assumes "ap_table_inv c t n" "i < length t" "cl_active (t ! i)" "cl_mac (t ! i) = m"
  shows "ap_lookup (t[i := ap_entry j m v]) = (ap_lookup t)(m := if j then Some v else None)"
proof (rule ap_lookup_update)
  show "\<forall>k<length t. cl_active (t ! k) \<and> cl_mac (t ! k) = m \<longrightarrow> k = i"
    using assms unfolding ap_table_inv_def by blast
qed (use assms in simp_all)

interpretation ap_clients: client_registry "ap_report c" "ap_lookup \<circ> fst" "unat \<circ> snd" c
    "\<lambda>tn. ap_table_inv c (fst tn) (snd tn)"
  for c
proof (unfold_locales, goal_cases)
  case (1 tn m v)
  obtain t n where tn: "tn = (t, n)" by (cases tn)
  have inv: "ap_table_inv c t n" using 1 tn by simp
  then show ?case
  proof (cases rule: ap_report_cases [where m = m and j = True and v = v])
    case (hit i)
    then show ?thesis using tn ap_lookup_hit [OF inv hit(1-3), of True v] by simp
  next
    case (fresh i)
    then have "ap_lookup (t[i := ap_entry True m v]) = (ap_lookup t)(m := if True then Some v else None)"
      by (intro ap_lookup_update) (auto simp: ap_lookup_None)
    with fresh tn show ?thesis by simp
  next
    case lost
    then have "unat n = c" using inv by (simp add: ap_table_inv_def)
    then show ?thesis using 1 lost tn by simp
  qed
next
  case (2 tn m v)
  obtain t n where tn: "tn = (t, n)" by (cases tn)
  have inv: "ap_table_inv c t n" using 2 tn by simp
  then show ?case
  proof (cases rule: ap_report_cases [where m = m and j = True and v = v])
    case (hit i)
    then show ?thesis using 2 tn by (simp add: ap_lookup_None)
  next
    case (fresh i)
    then have "length (filter cl_active t) < length t" by (metis length_filter_less nth_mem)
    moreover have "length t = c" "unat n = length (filter cl_active t)" using inv by (simp_all add: ap_table_inv_def)
    ultimately show ?thesis using 2(3) tn by simp
  next
    case lost
    then show ?thesis using tn by simp
  qed
next
  case (3 tn m v)
  obtain t n where tn: "tn = (t, n)" by (cases tn)
  have inv: "ap_table_inv c t n" using 3 tn by simp
  then show ?case
  proof (cases rule: ap_report_cases [where m = m and j = False and v = v])
    case (hit i)
    then show ?thesis using tn ap_lookup_hit [OF inv hit(1-3), of False v] by simp
  next
    case lost
    then show ?thesis using 3 tn by simp
  qed simp
next
  case (4 tn m v)
  obtain t n where tn: "tn = (t, n)" by (cases tn)
  have inv: "ap_table_inv c t n" using 4 tn by simp
  then show ?case using 4 tn
    by (cases rule: ap_report_cases [where m = m and j = False and v = v]) (auto simp: ap_lookup_None)
next
  case (5 tn m j v)
  then show ?case using ap_report_inv [of c "fst tn" "snd tn" m j v] by simp
next
  case (6 tn)
  then show ?case using ap_table_count [of c "fst tn" "snd tn"] by (simp add: ap_lookup_dom)
qed

lemma ap_clear_inv: "capacity < 2 ^ 32 \<Longrightarrow> ap_table_inv capacity (replicate capacity ap_client_zero) 0"
  by (simp add: ap_table_inv_def ap_client_zero_def)

subsection \<open>Properties\<close>

text \<open>C22: Generation numbers are never zero, the value that marks "no request", and two requests
  issued fewer than \<open>2^32 - 1\<close> requests apart never carry the same generation, also across the
  wrap-around of the 32-bit counter.\<close>

theorem generation_no_reuse:
  assumes "0 < i" "i < j" "j - i < 2 ^ 32 - 1"
  shows "(wlh_rtt_next_generation ^^ i) g \<noteq> 0 \<and> (wlh_rtt_next_generation ^^ j) g \<noteq> 0 \<and>
    (wlh_rtt_next_generation ^^ i) g \<noteq> (wlh_rtt_next_generation ^^ j) g"
proof -
  have "(wlh_rtt_next_generation ^^ k) g \<noteq> 0" if "0 < k" for k
    using that by (cases k) simp_all
  then show ?thesis using generation_distinct [of i j g] assms by simp
qed

theorem generation_no_reuse_witness:
  "(wlh_rtt_next_generation ^^ 1) (- 1) \<noteq> 0 \<and> (wlh_rtt_next_generation ^^ 3) (- 1) \<noteq> 0 \<and>
   (wlh_rtt_next_generation ^^ 1) (- 1) \<noteq> (wlh_rtt_next_generation ^^ 3) (- 1)"
  using generation_no_reuse [of 1 3 "- 1"] by simp

text \<open>C23: The block pool behaves as a set of free block numbers, for every pool of at most 64 blocks:
  the initial mask frees exactly the blocks below the count; a take on a pool with a free block
  returns the least one and removes only it, and on an exhausted pool returns -1 and changes
  nothing; putting the block back restores the pool.\<close>

theorem pool_set_semantics:
  assumes "n \<le> 64" "pool_free m \<subseteq> {..<n}"
  shows "pool_free (wlh_rtt_pool_initial_mask n) = {..<n} \<and>
    (if pool_free m = {} then wlh_rtt_pool_take (Some m) n = (- 1, Some m)
     else \<exists>m'. wlh_rtt_pool_take (Some m) n = (int (Min (pool_free m)), Some m') \<and>
          pool_free m' = pool_free m - {Min (pool_free m)} \<and>
          wlh_rtt_pool_put (Some m') (Min (pool_free m)) = Some m)"
proof (cases "pool_free m = {}")
  case True
  then show ?thesis using assms(1) by (simp add: pool_initial_free pool_take_some pool_take_from_spec)
next
  case False
  have e: "pool_free m \<inter> {0..<n} = pool_free m" using assms(2) by auto
  have mem: "Min (pool_free m) \<in> pool_free m"
    using False assms(2) by (intro Min_in) (auto intro: finite_subset)
  then have b: "bit m (Min (pool_free m))" "Min (pool_free m) < 64" using assms by (auto simp: pool_free_def)
  then have "m AND NOT (push_bit (Min (pool_free m)) 1) OR push_bit (Min (pool_free m)) 1 = m"
    by (intro bit_word_eqI) (auto simp: bit_simps)
  then show ?thesis using False assms(1) e b(2)
    by (simp add: pool_initial_free pool_take_some pool_take_from_spec pool_free_clear wlh_rtt_pool_put_def)
qed

theorem pool_set_semantics_witness:
  "\<exists>m'. wlh_rtt_pool_take (Some (wlh_rtt_pool_initial_mask 16)) 16 = (0, Some m') \<and>
     pool_free m' = {..<16} - {0} \<and> wlh_rtt_pool_put (Some m') 0 = Some (wlh_rtt_pool_initial_mask 16)"
proof -
  have f: "pool_free (wlh_rtt_pool_initial_mask 16) = {..<16}" by (rule pool_initial_free) simp
  have m: "Min {..<16::nat} = 0" by (intro Min_eqI) auto
  have ne: "({..<16::nat} = {}) = False" by (simp add: lessThan_empty_iff)
  show ?thesis
    using pool_set_semantics [of 16 "wlh_rtt_pool_initial_mask 16"] unfolding f ne m if_False by simp
qed

text \<open>C8: The table of SoftAP clients refines a map from station addresses to their last report: a
  history of join and leave reports over at most as many stations as the table has slots leaves
  in the table exactly what the history leaves in the map, and the counter is the number of
  associated stations.\<close>

theorem ap_client_table_refines_map:
  assumes "ap_table_inv c t n" and "finite K" "card K \<le> c"
    and "dom (ap_lookup t) \<union> (\<lambda>(k, j, v). k) ` set es \<subseteq> K"
    and "fold (\<lambda>(k, j, v) tn. snd (ap_report c tn k j v)) es (t, n) = (t', n')"
  shows "ap_lookup t' = fold (\<lambda>(k, j, v) m. m(k := if j then Some v else None)) es (ap_lookup t) \<and>
         ap_table_inv c t' n' \<and> unat n' = card (dom (ap_lookup t'))"
proof -
  have "ap_lookup t' = fold (\<lambda>(k, j, v) m. m(k := if j then Some v else None)) es (ap_lookup t)"
    using ap_clients.history_lookup [of c "(t, n)" es K] assms by simp
  moreover have "ap_table_inv c (fst tn) (snd tn) \<Longrightarrow>
      ap_table_inv c (fst (fold (\<lambda>(k, j, v) tn. snd (ap_report c tn k j v)) es tn))
        (snd (fold (\<lambda>(k, j, v) tn. snd (ap_report c tn k j v)) es tn))" for tn
  proof (induction es arbitrary: tn)
    case (Cons e es)
    obtain k j v where "e = (k, j, v)" by (cases e)
    then show ?case using Cons.IH ap_clients.report_inv [OF Cons.prems, of k j v] by simp
  qed simp
  ultimately show ?thesis using assms(1,5) ap_table_count [of c t' n'] by fastforce
qed

theorem ap_client_table_refines_map_witness:
  "\<exists>t' n'. fold (\<lambda>(k, j, v) tn. snd (ap_report 2 tn k j v))
      [([2, 0, 0, 0, 0, 1], True, (200, 7, 0)), ([2, 0, 0, 0, 0, 2], True, (201, 8, 0)),
       ([2, 0, 0, 0, 0, 1], False, (0, 7, 4))]
      (replicate 2 ap_client_zero, 0) = (t', n') \<and> unat n' = card (dom (ap_lookup t'))"
proof -
  let ?es = "[([2, 0, 0, 0, 0, 1], True, (200, 7, 0)), ([2, 0, 0, 0, 0, 2], True, (201, 8, 0)),
       ([2, 0, 0, 0, 0, 1], False, (0, 7, 4))] :: (u8 list \<times> bool \<times> s16 \<times> u32 \<times> u32) list"
  obtain t' n' where f: "fold (\<lambda>(k, j, v) tn. snd (ap_report 2 tn k j v)) ?es (replicate 2 ap_client_zero, 0) = (t', n')"
    by (metis surj_pair)
  have "ap_table_inv 2 (replicate 2 ap_client_zero) 0" by (rule ap_clear_inv) simp
  moreover have "dom (ap_lookup (replicate 2 ap_client_zero)) \<union> (\<lambda>(k, j, v). k) ` set ?es
      \<subseteq> {[2, 0, 0, 0, 0, 1], [2, 0, 0, 0, 0, 2]}"
    by (simp add: ap_lookup_dom ap_client_zero_def)
  ultimately show ?thesis
    using ap_client_table_refines_map [OF _ _ _ _ f, of "{[2, 0, 0, 0, 0, 1], [2, 0, 0, 0, 0, 2]}"] f by simp
qed

end
