(* ===== verification/Host_State.thy ===== *)
theory Host_State
  imports Wlh_Logic Rt_Mq
begin

text \<open>
  The state of the host package: the structures of
  packages/wlh_rtt_host/src/wlh_rtt_internal.h and of the public headers, and the interface of the
  parts that are not in the repository.

  The Host Core (wlh/host.h, wire.h) and the nanopb messages (wifi.pb.h) are the record
  \<open>core_api\<close>: the constants the code uses, the functions it calls, and the decoders; the type
  variable \<open>'c\<close> is the state of the Core. \<open>'t\<close> is the state behind \<open>transport_context\<close>. Pointers
  into the host structure are indices: an interface is 0 (station) or 1 (access point), a
  completion slot is an interface and a position. A pointer that the code compares with null is
  an option. Function pointers with their contexts that the package only stores and passes on are
  numbers.

  The calls to the RT-Thread WLAN layer that have no result are appended to logs of the host:
  \<open>indications\<close> for \<open>rt_wlan_dev_indicate_event_handle\<close>, \<open>reported\<close> for the frames passed to
  \<open>rt_wlan_dev_report_data\<close>, \<open>modes\<close> for \<open>rt_wlan_set_mode\<close>, \<open>fatal\<close> for \<open>fatal_recovery\<close>.
  A section under \<open>host->lock\<close> or with interrupts disabled is one atomic step.
\<close>

abbreviation (input) WLH_RTT_MAGIC :: u32 where "WLH_RTT_MAGIC \<equiv> 0x574c4852"
abbreviation (input) WLH_RTT_INTERFACE_STA :: nat where "WLH_RTT_INTERFACE_STA \<equiv> 0"
abbreviation (input) WLH_RTT_INTERFACE_AP :: nat where "WLH_RTT_INTERFACE_AP \<equiv> 1"
abbreviation (input) WLH_RTT_INTERFACE_COUNT :: nat where "WLH_RTT_INTERFACE_COUNT \<equiv> 2"
abbreviation (input) WLH_RTT_ETHERNET_MAX_FRAME :: nat where "WLH_RTT_ETHERNET_MAX_FRAME \<equiv> 1600"
abbreviation (input) WLH_RTT_EXECUTOR_DEPTH :: nat where "WLH_RTT_EXECUTOR_DEPTH \<equiv> 16"
abbreviation (input) WLH_RTT_LIFECYCLE_DEPTH :: nat where "WLH_RTT_LIFECYCLE_DEPTH \<equiv> 4"
abbreviation (input) WLH_RTT_REQUEST_COMPLETION_SLOTS :: nat where
  "WLH_RTT_REQUEST_COMPLETION_SLOTS \<equiv> 4"
abbreviation (input) WLH_RTT_RX_QUEUE_DEPTH :: nat where "WLH_RTT_RX_QUEUE_DEPTH \<equiv> 32"
abbreviation (input) WLH_RTT_HOST_AP_MAX_CLIENTS :: nat where "WLH_RTT_HOST_AP_MAX_CLIENTS \<equiv> 4"
abbreviation (input) WLH_RTT_HOST_RPC_TIMEOUT_MS :: u32 where "WLH_RTT_HOST_RPC_TIMEOUT_MS \<equiv> 10000"
abbreviation (input) WLH_RTT_HOST_TX_QUEUE_DEPTH :: nat where "WLH_RTT_HOST_TX_QUEUE_DEPTH \<equiv> 16"

subsection \<open>The RT-Thread WLAN layer's types\<close>

datatype rt_wlan_dev_event =
    RT_WLAN_DEV_EVT_CONNECT | RT_WLAN_DEV_EVT_CONNECT_FAIL | RT_WLAN_DEV_EVT_DISCONNECT
  | RT_WLAN_DEV_EVT_AP_START | RT_WLAN_DEV_EVT_AP_STOP | RT_WLAN_DEV_EVT_AP_ASSOCIATED
  | RT_WLAN_DEV_EVT_AP_DISASSOCIATED | RT_WLAN_DEV_EVT_SCAN_REPORT | RT_WLAN_DEV_EVT_SCAN_DONE

datatype rt_wlan_security =
    SECURITY_OPEN | SECURITY_WEP_PSK | SECURITY_WEP_SHARED | SECURITY_WPA_TKIP_PSK
  | SECURITY_WPA_AES_PSK | SECURITY_WPA2_AES_PSK | SECURITY_WPA2_TKIP_PSK
  | SECURITY_WPA2_MIXED_PSK | SECURITY_WPS_OPEN | SECURITY_WPS_SECURE | SECURITY_UNKNOWN

datatype rt_802_11_band = RT_802_11_BAND_5GHZ | RT_802_11_BAND_2_4GHZ

datatype rt_wlan_mode = RT_WLAN_NONE | RT_WLAN_STATION | RT_WLAN_AP

record rt_wlan_info =
  security :: rt_wlan_security
  band :: rt_802_11_band
  datarate :: u32
  channel :: s16
  rssi :: s16
  ssid_len :: u8
  ssid_val :: "u8 list"
  bssid :: "u8 list"
  hidden :: u8

text \<open>\<open>rt_memset (info, 0, sizeof info)\<close>.\<close>

definition rt_wlan_info_zero :: rt_wlan_info where
  "rt_wlan_info_zero = \<lparr> security = SECURITY_OPEN, band = RT_802_11_BAND_5GHZ, datarate = 0,
     channel = 0, rssi = 0, ssid_len = 0, ssid_val = replicate 33 0, bssid = replicate 6 0, hidden = 0 \<rparr>"

text \<open>The address fields of the network device and of the lwIP interface behind it.\<close>

record netdev =
  nd_hwaddr_len :: nat
  nd_hwaddr :: "u8 list"
  nd_netif :: "(nat \<times> u8 list) option"

subsection \<open>The package's structures\<close>

datatype wlh_rtt_request_kind =
    WLH_RTT_REQUEST_NONE | WLH_RTT_REQUEST_SCAN | WLH_RTT_REQUEST_CONNECT
  | WLH_RTT_REQUEST_DISCONNECT | WLH_RTT_REQUEST_AP_START | WLH_RTT_REQUEST_AP_STOP

record wlh_rtt_request =
  req_kind :: wlh_rtt_request_kind
  req_generation :: u32
  req_active :: bool

definition wlh_rtt_request_zero :: wlh_rtt_request where
  "wlh_rtt_request_zero = \<lparr> req_kind = WLH_RTT_REQUEST_NONE, req_generation = 0, req_active = False \<rparr>"

record wlh_rtt_request_completion =
  slot_interface :: "nat option"
  slot_kind :: wlh_rtt_request_kind
  slot_generation :: u32
  in_use :: bool

record wlh_rtt_interface_stats =
  st_active :: bool
  tx_frames :: u32
  tx_dropped :: u32
  rx_frames :: u32
  rx_pool_empty :: u32
  rx_queue_full :: u32
  rx_delivery_failed :: u32

record wlh_rtt_interface =
  if_netdev :: "netdev option"
  if_id :: nat
  if_active :: bool
  registered :: bool
  if_mac :: "u8 list"
  info :: rt_wlan_info
  request :: wlh_rtt_request
  completions :: "wlh_rtt_request_completion list"
  rx_storage :: "u8 list option"
  rx_free_mask :: u64
  stats :: wlh_rtt_interface_stats

record wlh_rtt_executor_job =
  task :: "nat option"
  task_context :: nat

record wlh_rtt_lifecycle_job =
  job_start :: bool
  job_completion :: nat
  job_context :: nat

record wlh_rtt_rx_job =
  job_interface_id :: u8
  job_block :: u8
  job_length :: u16

record wlh_rtt_transport_stats =
  ts_tx_frames :: u32
  ts_tx_errors :: u32
  ts_tx_queue_full :: u32
  ts_rx_frames :: u32
  ts_rx_errors :: u32
  ts_rx_invalid_length :: u32
  ts_bus_resets :: u32

text \<open>\<open>submit_tx\<close> takes the frame, and the completion function and its context.\<close>

record 't wlh_rtt_transport_ops =
  ops_start :: "('t \<Rightarrow> int \<times> 't) option"
  ops_stop :: "('t \<Rightarrow> int \<times> 't) option"
  ops_submit_tx :: "(u8 list \<Rightarrow> nat \<Rightarrow> nat \<Rightarrow> 't \<Rightarrow> int \<times> 't) option"
  ops_soft_reset :: "('t \<Rightarrow> int \<times> 't) option"
  ops_get_stats :: "('t \<Rightarrow> wlh_rtt_transport_stats) option"

text \<open>\<open>board_fatal\<close> says that \<open>board_ops\<close> and its \<open>fatal_recovery\<close> are present.\<close>

record 't wlh_rtt_host_config =
  sta_device_name :: "string option"
  ap_device_name :: "string option"
  transport_ops :: "'t wlh_rtt_transport_ops option"
  board_fatal :: bool

record ('c, 't) wlh_rtt_host_impl =
  magic :: u32
  host_config :: "'t wlh_rtt_host_config"
  transport_context :: 't
  core :: 'c
  lock :: bool
  executor_queue :: "wlh_rtt_executor_job rt_messagequeue option"
  lifecycle_queue :: "wlh_rtt_lifecycle_job rt_messagequeue option"
  rx_queue :: "wlh_rtt_rx_job rt_messagequeue option"
  executor_thread :: bool
  lifecycle_thread :: bool
  rx_thread :: bool
  interfaces :: "wlh_rtt_interface list"
  next_generation :: u32
  recoveries :: u32
  ap_clients :: u32
  ap_client :: "wlh_rtt_ap_client_stats list"
  initialized :: bool
  started :: bool
  wifi_initialized :: bool
  recovering :: bool
  indications :: "(nat \<times> rt_wlan_dev_event \<times> rt_wlan_info option) list"
  reported :: "(nat \<times> u8 list) list"
  modes :: "(string option \<times> rt_wlan_mode) list"
  fatal :: "int list"

definition request_completion_zero :: wlh_rtt_request_completion where
  "request_completion_zero = \<lparr> slot_interface = None, slot_kind = WLH_RTT_REQUEST_NONE, slot_generation = 0, in_use = False \<rparr>"

definition interface_zero :: wlh_rtt_interface where
  "interface_zero = \<lparr> if_netdev = None, if_id = 0, if_active = False, registered = False,
     if_mac = replicate 6 0, info = rt_wlan_info_zero, request = wlh_rtt_request_zero,
     completions = replicate WLH_RTT_REQUEST_COMPLETION_SLOTS request_completion_zero, rx_storage = None, rx_free_mask = 0,
     stats = \<lparr> st_active = False, tx_frames = 0, tx_dropped = 0, rx_frames = 0, rx_pool_empty = 0,
       rx_queue_full = 0, rx_delivery_failed = 0 \<rparr> \<rparr>"

subsection \<open>Threads\<close>

text \<open>
  One round of a thread's main loop: the loop ends, the thread is suspended on its queue, the
  round dereferences a null pointer, or it leaves a new state.
\<close>

datatype 's round = Ends | Suspended | Crash | Round 's

subsection \<open>Access to the interfaces\<close>

definition update_interface ::
  "nat \<Rightarrow> (wlh_rtt_interface \<Rightarrow> wlh_rtt_interface) \<Rightarrow> ('c, 't) wlh_rtt_host_impl \<Rightarrow> ('c, 't) wlh_rtt_host_impl" where
  "update_interface i f host = host\<lparr> interfaces := (interfaces host)[i := f (interfaces host ! i)] \<rparr>"

lemma update_interface_simps [simp]:
  "length (interfaces (update_interface i f h)) = length (interfaces h)"
  "rx_queue (update_interface i f h) = rx_queue h"
  "next_generation (update_interface i f h) = next_generation h"
  "indications (update_interface i f h) = indications h"
  "reported (update_interface i f h) = reported h"
  "ap_clients (update_interface i f h) = ap_clients h"
  "ap_client (update_interface i f h) = ap_client h"
  "core (update_interface i f h) = core h"
  "initialized (update_interface i f h) = initialized h"
  by (simp_all add: update_interface_def)

lemma nth_update_interface [simp]:
  "i < length (interfaces h) \<Longrightarrow>
   interfaces (update_interface i f h) ! j = (if i = j then f (interfaces h ! i) else interfaces h ! j)"
  by (simp add: update_interface_def)

subsection \<open>The Host Core\<close>

record wifi_scan_params =
  sp_scan_id :: u32
  sp_max_results :: nat
  sp_ssid :: "u8 list option"

record wifi_connect_params =
  cp_ssid :: "u8 list"
  cp_credential :: "u8 list"
  cp_security :: u32
  cp_timeout_ms :: u32

record wifi_start_ap_params =
  ap_ssid :: "u8 list"
  ap_credential :: "u8 list"
  ap_security :: u32
  ap_channel :: u32
  ap_max_clients :: nat

text \<open>Decoded messages, with the fields the code reads.\<close>

record wifi_link =
  l_interface :: u32
  l_security :: u32
  l_band :: u32
  l_channel :: u32
  l_rssi_dbm :: u32
  l_ssid :: "u8 list"
  l_bssid :: "u8 list"
  l_mac :: "u8 list"

type_synonym slot = "nat \<times> nat"

datatype host_event_kind =
    STATE_CHANGED | WIFI_SCAN_RESULT | WIFI_SCAN_COMPLETED | WIFI_CONNECTED | WIFI_DISCONNECTED
  | WIFI_AP_CLIENT_JOINED | WIFI_AP_CLIENT_LEFT | ETHERNET_STA_RX | ETHERNET_AP_RX | OTHER_EVENT

record wlh_host_event =
  ev_kind :: host_event_kind
  ev_state :: u32
  ev_payload :: "u8 list option"

text \<open>The values \<open>wlh_rtt_lifecycle_init\<close> passes to \<open>wlh_host_init\<close>.\<close>

record wlh_host_config =
  max_frame_size :: nat
  rpc_timeout_ms :: u32
  heartbeat_timeout_ms :: u32
  max_pending_rpc :: nat
  core_queue_depth :: nat
  ethernet_tx_depth :: nat
  ethernet_tx_aggregation_limit :: nat
  stop_timeout_ms :: u32
  core_task_name :: string
  core_task_stack_size :: nat
  core_task_priority :: nat

record 'c core_api =
  WLH_HOST_MAX_PENDING :: nat
  WLH_HOST_OK :: int
  STATE_READY :: u32
  WIRE_SECURITY_OPEN :: u32
  WIRE_SECURITY_WPA_PSK :: u32
  WIRE_SECURITY_WPA2_PSK :: u32
  WIRE_SECURITY_WPA_WPA2_PSK :: u32
  WIRE_INTERFACE_STA :: u32
  WIRE_INTERFACE_AP :: u32
  WIRE_BAND_2_4_GHZ :: u32
  FLAG_STA :: u32
  FLAG_AP :: u32
  core_state :: "'c \<Rightarrow> u32"
  core_session_id :: "'c \<Rightarrow> u32"
  core_init :: "wlh_host_config \<Rightarrow> int \<times> 'c"
  core_start :: "'c \<Rightarrow> int \<times> 'c"
  core_stop :: "'c \<Rightarrow> int \<times> 'c"
  core_on_frame :: "u8 list \<Rightarrow> 'c \<Rightarrow> int \<times> 'c"
  core_transport_lost :: "'c \<Rightarrow> 'c"
  core_initialize_interfaces :: "u32 \<Rightarrow> 'c \<Rightarrow> int \<times> 'c"
  core_wifi_scan :: "wifi_scan_params \<Rightarrow> slot \<Rightarrow> 'c \<Rightarrow> int \<times> 'c"
  core_wifi_connect :: "wifi_connect_params \<Rightarrow> slot \<Rightarrow> 'c \<Rightarrow> int \<times> 'c"
  core_wifi_disconnect :: "slot \<Rightarrow> 'c \<Rightarrow> int \<times> 'c"
  core_wifi_start_ap :: "wifi_start_ap_params \<Rightarrow> slot \<Rightarrow> 'c \<Rightarrow> int \<times> 'c"
  core_wifi_stop_ap :: "slot \<Rightarrow> 'c \<Rightarrow> int \<times> 'c"
  core_ethernet_sta_send :: "u8 list \<Rightarrow> 'c \<Rightarrow> int \<times> 'c"
  core_ethernet_ap_send :: "u8 list \<Rightarrow> 'c \<Rightarrow> int \<times> 'c"
  core_run_task :: "nat \<Rightarrow> nat \<Rightarrow> 'c \<Rightarrow> 'c"
  core_lifecycle_complete :: "nat \<Rightarrow> nat \<Rightarrow> int \<Rightarrow> 'c \<Rightarrow> 'c"
  decode_scan_result :: "u8 list \<Rightarrow> (u32 \<times> wifi_link list) option"
  decode_scan_completed :: "u8 list \<Rightarrow> u32 option"
  decode_connected :: "u8 list \<Rightarrow> wifi_link option option"
  decode_disconnected :: "u8 list \<Rightarrow> u32 option"
  decode_client_joined :: "u8 list \<Rightarrow> (u8 list \<times> u32 \<times> u32) option option"
  decode_client_left :: "u8 list \<Rightarrow> (u8 list \<times> u32 \<times> u32) option"

text \<open>The enumerations of the wire protocol have distinct values.\<close>

definition wire_enums_distinct :: "'c core_api \<Rightarrow> bool" where
  "wire_enums_distinct K \<longleftrightarrow>
     distinct [WIRE_SECURITY_OPEN K, WIRE_SECURITY_WPA_PSK K, WIRE_SECURITY_WPA2_PSK K, WIRE_SECURITY_WPA_WPA2_PSK K] \<and>
     WIRE_INTERFACE_STA K \<noteq> WIRE_INTERFACE_AP K"

subsection \<open>A concrete instance\<close>

text \<open>
  A Core that accepts every call, with one-byte messages, and the zeroed host structure with both
  interfaces: the concrete inputs of the examples in the component theories.
\<close>

definition sample_link :: "u32 \<Rightarrow> wifi_link" where
  "sample_link i = \<lparr> l_interface = i, l_security = 2, l_band = 1, l_channel = 6, l_rssi_dbm = - 40,
     l_ssid = [97, 98], l_bssid = [1, 2, 3, 4, 5, 6], l_mac = [6, 5, 4, 3, 2, 1] \<rparr>"

definition sample_core :: "unit core_api" where
  "sample_core = \<lparr> WLH_HOST_MAX_PENDING = 8, WLH_HOST_OK = 0, STATE_READY = 4,
     WIRE_SECURITY_OPEN = 0, WIRE_SECURITY_WPA_PSK = 1, WIRE_SECURITY_WPA2_PSK = 2, WIRE_SECURITY_WPA_WPA2_PSK = 3,
     WIRE_INTERFACE_STA = 1, WIRE_INTERFACE_AP = 2, WIRE_BAND_2_4_GHZ = 1, FLAG_STA = 1, FLAG_AP = 2,
     core_state = (\<lambda>_. 4), core_session_id = (\<lambda>_. 1), core_init = (\<lambda>_. (0, ())),
     core_start = (\<lambda>c. (0, c)), core_stop = (\<lambda>c. (0, c)), core_on_frame = (\<lambda>_ c. (0, c)),
     core_transport_lost = (\<lambda>c. c), core_initialize_interfaces = (\<lambda>_ c. (0, c)),
     core_wifi_scan = (\<lambda>_ _ c. (0, c)), core_wifi_connect = (\<lambda>_ _ c. (0, c)),
     core_wifi_disconnect = (\<lambda>_ c. (0, c)), core_wifi_start_ap = (\<lambda>_ _ c. (0, c)),
     core_wifi_stop_ap = (\<lambda>_ c. (0, c)), core_ethernet_sta_send = (\<lambda>_ c. (0, c)),
     core_ethernet_ap_send = (\<lambda>_ c. (0, c)), core_run_task = (\<lambda>_ _ c. c),
     core_lifecycle_complete = (\<lambda>_ _ _ c. c),
     decode_scan_result = (\<lambda>b. case b of [] \<Rightarrow> None | x # xs \<Rightarrow> Some (ucast x, map (\<lambda>y. sample_link (ucast y)) xs)),
     decode_scan_completed = (\<lambda>b. case b of [] \<Rightarrow> None | x # _ \<Rightarrow> Some (ucast x)),
     decode_connected = (\<lambda>b. case b of [] \<Rightarrow> None | x # _ \<Rightarrow> Some (Some (sample_link (ucast x)))),
     decode_disconnected = (\<lambda>b. case b of [] \<Rightarrow> None | x # _ \<Rightarrow> Some (ucast x)),
     decode_client_joined = (\<lambda>b. Some (Some (b, - 50, 1))),
     decode_client_left = (\<lambda>b. Some (b, 1, 3)) \<rparr>"

definition sample_host :: "(unit, unit) wlh_rtt_host_impl" where
  "sample_host = \<lparr> magic = WLH_RTT_MAGIC,
     host_config = \<lparr> sta_device_name = Some ''wlan0'', ap_device_name = Some ''wlan1'', transport_ops = None, board_fatal = False \<rparr>,
     transport_context = (), core = (), lock = True, executor_queue = None, lifecycle_queue = None, rx_queue = None,
     executor_thread = False, lifecycle_thread = False, rx_thread = False,
     interfaces = [interface_zero, interface_zero], next_generation = 0, recoveries = 0, ap_clients = 0,
     ap_client = replicate WLH_RTT_HOST_AP_MAX_CLIENTS ap_client_zero, initialized = True, started = False, wifi_initialized = False,
     recovering = False, indications = [], reported = [], modes = [], fatal = [] \<rparr>"

end
