(* ===== verification/Sdio_Transport.thy ===== *)
theory Sdio_Transport
  imports Sdio_Protocol Rt_Mq Host_State
begin

text \<open>
  The SDIO transport, packages/wlh_rtt_host/transport/sdio/wlh_rtt_sdio.c: register access, frame
  transfers, the worker's receive and transmit bursts, card probe and removal, and the transport
  operations the host calls.

  The SDIO bus driver, the Core's frame check and the two calls back into the host are the record
  \<open>sdio_env\<close>; \<open>'w\<close> is the state of the bus and the coprocessor behind it, \<open>'h\<close> that of the host.
  Semaphores are their counts. A transmit job carries the frame it points to. The calls of
  completion functions are appended to \<open>completed\<close>. The worker runs one burst under the
  transport's lock; \<open>running\<close>, which the stop and removal operations clear without the lock, is
  read at the start of each iteration and does not change inside a burst here. Delays have no
  effect on the state.
\<close>

abbreviation (input) WLH_SDIO_VENDOR :: u32 where "WLH_SDIO_VENDOR \<equiv> 0x6666"
abbreviation (input) WLH_SDIO_PRODUCT :: u32 where "WLH_SDIO_PRODUCT \<equiv> 0x2222"
abbreviation (input) WLH_SDIO_FUNCTION :: nat where "WLH_SDIO_FUNCTION \<equiv> 1"
abbreviation (input) WLH_SDIO_ADDRESS_MASK :: u32 where "WLH_SDIO_ADDRESS_MASK \<equiv> 0x3ff"
abbreviation (input) WLH_SDIO_TOKEN_MASK :: u32 where "WLH_SDIO_TOKEN_MASK \<equiv> 0xfff"
abbreviation (input) WLH_SDIO_NEW_PACKET_BIT :: u32 where "WLH_SDIO_NEW_PACKET_BIT \<equiv> push_bit 23 1"
abbreviation (input) WLH_SDIO_REG_TOKEN :: u32 where "WLH_SDIO_REG_TOKEN \<equiv> 0x44"
abbreviation (input) WLH_SDIO_REG_INT_RAW :: u32 where "WLH_SDIO_REG_INT_RAW \<equiv> 0x50"
abbreviation (input) WLH_SDIO_REG_PACKET_LEN :: u32 where "WLH_SDIO_REG_PACKET_LEN \<equiv> 0x60"
abbreviation (input) WLH_SDIO_REG_HOST_TO_SLAVE :: u32 where "WLH_SDIO_REG_HOST_TO_SLAVE \<equiv> 0x8c"
abbreviation (input) WLH_SDIO_REG_INT_CLEAR :: u32 where "WLH_SDIO_REG_INT_CLEAR \<equiv> 0xd4"
abbreviation (input) WLH_SDIO_REG_HOST_INT_ENABLE :: u32 where "WLH_SDIO_REG_HOST_INT_ENABLE \<equiv> 0xdc"
abbreviation (input) WLH_SDIO_RX_BURST :: nat where "WLH_SDIO_RX_BURST \<equiv> 8"
abbreviation (input) WLH_SDIO_TX_BURST :: nat where "WLH_SDIO_TX_BURST \<equiv> 8"
abbreviation (input) WLH_SDIO_INVALID_LIMIT :: nat where "WLH_SDIO_INVALID_LIMIT \<equiv> 10"
abbreviation (input) SIZEOF_TX_JOB :: nat where "SIZEOF_TX_JOB \<equiv> 20"

record ('w, 'h) sdio_env =
  frame_header_size :: u32
  frame_ok :: "u8 list \<Rightarrow> u32 \<Rightarrow> bool"
  host_ok :: int
  host_input :: "u8 list \<Rightarrow> 'h \<Rightarrow> int \<times> 'h"
  host_link_lost :: "'h \<Rightarrow> 'h"
  bus_readl :: "u32 \<Rightarrow> 'w \<Rightarrow> int \<times> u32 \<times> 'w"
  bus_writel :: "u32 \<Rightarrow> u32 \<Rightarrow> 'w \<Rightarrow> int \<times> 'w"
  bus_write_multi :: "u32 \<Rightarrow> u8 list \<Rightarrow> 'w \<Rightarrow> int \<times> 'w"
  bus_read_multi :: "u32 \<Rightarrow> nat \<Rightarrow> 'w \<Rightarrow> int \<times> u8 list \<times> 'w"
  bus_enable_func :: "'w \<Rightarrow> int \<times> 'w"
  bus_set_block_size :: "u32 \<Rightarrow> 'w \<Rightarrow> int \<times> 'w"
  bus_attach_irq :: "'w \<Rightarrow> int \<times> 'w"

record wlh_sdio_tx_job =
  tx_frame :: "u8 list"
  tx_length :: u32
  tx_done :: nat
  tx_context :: nat
  tx_generation :: u32

record ('w, 'h) wlh_sdio_transport =
  t_host :: 'h
  function_present :: bool
  t_lock :: bool
  wake :: "nat option"
  probed :: "nat option"
  tx_queue :: "wlh_sdio_tx_job rt_messagequeue option"
  worker :: bool
  staging :: "u8 list"
  rx_byte_count :: u32
  tx_buffer_count :: u32
  t_generation :: u32
  invalid_streak :: nat
  t_running :: bool
  irq_attached :: bool
  t_stats :: wlh_rtt_transport_stats
  bus :: 'w
  completed :: "(nat \<times> nat \<times> u8 list \<times> u32 \<times> int) list"

definition read_register ::
  "('w, 'h) sdio_env \<Rightarrow> u32 \<Rightarrow> ('w, 'h) wlh_sdio_transport \<Rightarrow> int \<times> u32 \<times> ('w, 'h) wlh_sdio_transport" where
  "read_register E address t =
   (let (error, value, w) = bus_readl E (address AND WLH_SDIO_ADDRESS_MASK) (bus t) in (error, value, t\<lparr> bus := w \<rparr>))"

definition write_register ::
  "('w, 'h) sdio_env \<Rightarrow> u32 \<Rightarrow> u32 \<Rightarrow> ('w, 'h) wlh_sdio_transport \<Rightarrow> int \<times> ('w, 'h) wlh_sdio_transport" where
  "write_register E address value t =
   (let (error, w) = bus_writel E value (address AND WLH_SDIO_ADDRESS_MASK) (bus t) in (error, t\<lparr> bus := w \<rparr>))"

text \<open>The loop of \<open>wait_for_token\<close> with \<open>n\<close> attempts left.\<close>

fun token_loop ::
  "('w, 'h) sdio_env \<Rightarrow> nat \<Rightarrow> ('w, 'h) wlh_sdio_transport \<Rightarrow> int \<times> ('w, 'h) wlh_sdio_transport" where
  "token_loop E 0 t = (- RT_ETIMEOUT, t)"
| "token_loop E (Suc n) t =
   (if \<not> t_running t then (- RT_ETIMEOUT, t)
    else
      let (result, token, t) = read_register E WLH_SDIO_REG_TOKEN t in
      if result \<noteq> RT_EOK then (result, t)
      else
        let token = drop_bit 16 token AND WLH_SDIO_TOKEN_MASK in
        if wlh_rtt_sdio_available_tokens (tx_buffer_count t) token \<noteq> 0
        then (RT_EOK, t\<lparr> tx_buffer_count := (tx_buffer_count t + 1) mod WLH_RTT_SDIO_TOKEN_MODULUS \<rparr>)
        else token_loop E n t)"

definition wait_for_token ::
  "('w, 'h) sdio_env \<Rightarrow> ('w, 'h) wlh_sdio_transport \<Rightarrow> int \<times> ('w, 'h) wlh_sdio_transport" where
  "wait_for_token E t = token_loop E 200 t"

definition write_frame ::
  "('w, 'h) sdio_env \<Rightarrow> u8 list \<Rightarrow> u32 \<Rightarrow> ('w, 'h) wlh_sdio_transport \<Rightarrow> int \<times> ('w, 'h) wlh_sdio_transport" where
  "write_frame E frame len t =
   (let transfer_size = wlh_rtt_sdio_padded_size len in
    if transfer_size = 0 then (- RT_EINVAL, t)
    else
      let (result, t) = wait_for_token E t in
      if result \<noteq> RT_EOK then (result, t)
      else
        let t = t\<lparr> staging := blit (staging t) 0 (replicate (unat transfer_size) 0) \<rparr>;
            t = t\<lparr> staging := blit (staging t) 0 (take (unat len) frame) \<rparr>;
            (result, w) = bus_write_multi E (wlh_rtt_sdio_window_address len) (take (unat transfer_size) (staging t)) (bus t)
        in (result, t\<lparr> bus := w \<rparr>))"

text \<open>The result, what is stored in \<open>*length\<close>, and the transport.\<close>

definition read_frame ::
  "('w, 'h) sdio_env \<Rightarrow> ('w, 'h) wlh_sdio_transport \<Rightarrow> int \<times> u32 option \<times> ('w, 'h) wlh_sdio_transport" where
  "read_frame E t =
   (let (result, interrupt_status, t) = read_register E WLH_SDIO_REG_INT_RAW t in
    if result \<noteq> RT_EOK then (result, None, t)
    else if interrupt_status AND WLH_SDIO_NEW_PACKET_BIT = 0 then (- RT_EEMPTY, None, t)
    else
      let (result, packet_length, t) = read_register E WLH_SDIO_REG_PACKET_LEN t in
      if result \<noteq> RT_EOK then (result, None, t)
      else case wlh_rtt_sdio_accumulated_length (frame_header_size E) (rx_byte_count t) packet_length True of
        (_, None) \<Rightarrow> (- RT_EINVAL, None,
           t\<lparr> t_stats := (t_stats t)\<lparr> ts_rx_invalid_length := ts_rx_invalid_length (t_stats t) + 1 \<rparr> \<rparr>)
      | (_, Some len) \<Rightarrow>
          let transfer_size = wlh_rtt_sdio_padded_size len;
              (result, bytes, w) = bus_read_multi E (wlh_rtt_sdio_window_address len) (unat transfer_size) (bus t);
              t = t\<lparr> bus := w, staging := blit (staging t) 0 bytes \<rparr>
          in if result \<noteq> RT_EOK then (result, Some len, t)
             else if \<not> frame_ok E (staging t) len then (- RT_EINVAL, Some len, t)
             else
               let (result, t) = write_register E WLH_SDIO_REG_INT_CLEAR interrupt_status t in
               if result \<noteq> RT_EOK then (result, Some len, t)
               else (RT_EOK, Some len,
                     t\<lparr> rx_byte_count := packet_length AND (WLH_RTT_SDIO_LENGTH_MODULUS - 1) \<rparr>))"

text \<open>\<open>wlh_rtt_host_link_event (host, WLH_RTT_LINK_LOST)\<close> as the transport calls it.\<close>

definition link_lost :: "('w, 'h) sdio_env \<Rightarrow> ('w, 'h) wlh_sdio_transport \<Rightarrow> ('w, 'h) wlh_sdio_transport" where
  "link_lost E t = t\<lparr> t_host := host_link_lost E (t_host t) \<rparr>"

text \<open>One iteration of the loop of \<open>drain_rx\<close>: whether it goes on, and the transport.\<close>

definition count_rx_error :: "('w, 'h) wlh_sdio_transport \<Rightarrow> ('w, 'h) wlh_sdio_transport" where
  "count_rx_error t = t\<lparr> t_stats := (t_stats t)\<lparr> ts_rx_errors := ts_rx_errors (t_stats t) + 1 \<rparr> \<rparr>"

definition rx_burst_step ::
  "('w, 'h) sdio_env \<Rightarrow> ('w, 'h) wlh_sdio_transport \<Rightarrow> bool \<times> ('w, 'h) wlh_sdio_transport" where
  "rx_burst_step E t =
   (case read_frame E t of (result, stored, t) \<Rightarrow>
      let len = (case stored of None \<Rightarrow> 0 | Some l \<Rightarrow> l) in
      if result = - RT_EEMPTY then (False, t\<lparr> invalid_streak := 0 \<rparr>)
      else if result = - RT_EINVAL then
        let t = t\<lparr> invalid_streak := invalid_streak t + 1 \<rparr> in
        if invalid_streak t \<ge> WLH_SDIO_INVALID_LIMIT
        then (False, link_lost E ((count_rx_error t)\<lparr> invalid_streak := 0 \<rparr>))
        else (True, t)
      else if result \<noteq> RT_EOK then (False, count_rx_error t)
      else
        let t = t\<lparr> invalid_streak := 0 \<rparr>;
            (rc, h) = host_input E (take (unat len) (staging t)) (t_host t);
            t = t\<lparr> t_host := h \<rparr>
        in (True, if rc \<noteq> host_ok E then count_rx_error t
                  else t\<lparr> t_stats := (t_stats t)\<lparr> ts_rx_frames := ts_rx_frames (t_stats t) + 1 \<rparr> \<rparr>))"

fun rx_burst :: "('w, 'h) sdio_env \<Rightarrow> nat \<Rightarrow> ('w, 'h) wlh_sdio_transport \<Rightarrow> ('w, 'h) wlh_sdio_transport" where
  "rx_burst E 0 t = t"
| "rx_burst E (Suc n) t =
   (if \<not> t_running t then t
    else case rx_burst_step E t of (go_on, t) \<Rightarrow> if go_on then rx_burst E n t else t)"

definition drain_rx :: "('w, 'h) sdio_env \<Rightarrow> ('w, 'h) wlh_sdio_transport \<Rightarrow> ('w, 'h) wlh_sdio_transport" where
  "drain_rx E t = rx_burst E WLH_SDIO_RX_BURST t"

text \<open>The part of \<open>drain_tx\<close> after a job was received.\<close>

definition tx_process ::
  "('w, 'h) sdio_env \<Rightarrow> wlh_sdio_tx_job \<Rightarrow> ('w, 'h) wlh_sdio_transport \<Rightarrow> ('w, 'h) wlh_sdio_transport" where
  "tx_process E job t =
   (let (result, t) = (if tx_generation job \<noteq> t_generation t then (- RT_EIO, t)
                       else write_frame E (tx_frame job) (tx_length job) t);
        t = (if result = RT_EOK
             then t\<lparr> t_stats := (t_stats t)\<lparr> ts_tx_frames := ts_tx_frames (t_stats t) + 1 \<rparr> \<rparr>
             else t\<lparr> t_stats := (t_stats t)\<lparr> ts_tx_errors := ts_tx_errors (t_stats t) + 1 \<rparr> \<rparr>)
    in t\<lparr> completed := completed t @ [(tx_done job, tx_context job, tx_frame job, tx_length job, result)] \<rparr>)"

fun tx_burst :: "('w, 'h) sdio_env \<Rightarrow> nat \<Rightarrow> ('w, 'h) wlh_sdio_transport \<Rightarrow> ('w, 'h) wlh_sdio_transport round" where
  "tx_burst E 0 t = Round t"
| "tx_burst E (Suc n) t =
   (if \<not> t_running t then Round t
    else case tx_queue t of
      None \<Rightarrow> Crash
    | Some q \<Rightarrow>
        (case rt_mq_recv q SIZEOF_TX_JOB RT_WAITING_NO of
           Blocked \<Rightarrow> Suspended
         | Fault \<Rightarrow> Crash
         | Returns r job q' \<Rightarrow>
             let t = t\<lparr> tx_queue := Some q' \<rparr> in
             if r \<noteq> RT_EOK then Round t
             else tx_burst E n (tx_process E (the job) t)))"

definition drain_tx :: "('w, 'h) sdio_env \<Rightarrow> ('w, 'h) wlh_sdio_transport \<Rightarrow> ('w, 'h) wlh_sdio_transport round" where
  "drain_tx E t = tx_burst E WLH_SDIO_TX_BURST t"

text \<open>One round of \<open>worker_main\<close>.\<close>

definition worker_main :: "('w, 'h) sdio_env \<Rightarrow> ('w, 'h) wlh_sdio_transport \<Rightarrow> ('w, 'h) wlh_sdio_transport round" where
  "worker_main E t =
   (case wake t of
      None \<Rightarrow> Crash
    | Some 0 \<Rightarrow> Suspended
    | Some (Suc n) \<Rightarrow>
        let t = t\<lparr> wake := Some n \<rparr> in
        if \<not> t_running t then Round t else drain_tx E (drain_rx E t))"

definition sdio_irq :: "('w, 'h) wlh_sdio_transport \<Rightarrow> ('w, 'h) wlh_sdio_transport" where
  "sdio_irq t = t\<lparr> wake := map_option Suc (wake t) \<rparr>"

text \<open>A card: manufacturer, number of functions, and the product code of function 1 if it exists.\<close>

definition probe :: "(u32 \<times> nat \<times> u32 option) option \<Rightarrow> ('w, 'h) wlh_sdio_transport \<Rightarrow> int \<times> ('w, 'h) wlh_sdio_transport" where
  "probe mmc t =
   (case mmc of
      None \<Rightarrow> (- RT_EINVAL, t)
    | Some (manufacturer, functions, function1) \<Rightarrow>
        if manufacturer \<noteq> WLH_SDIO_VENDOR \<or> functions < WLH_SDIO_FUNCTION then (- RT_EINVAL, t)
        else case function1 of
          None \<Rightarrow> (- RT_EINVAL, t)
        | Some pid \<Rightarrow>
            if pid \<noteq> WLH_SDIO_PRODUCT then (- RT_EINVAL, t)
            else (RT_EOK, t\<lparr> function_present := True, probed := map_option Suc (probed t) \<rparr>))"

definition remove_card :: "('w, 'h) sdio_env \<Rightarrow> ('w, 'h) wlh_sdio_transport \<Rightarrow> int \<times> ('w, 'h) wlh_sdio_transport" where
  "remove_card E t = (RT_EOK, link_lost E (t\<lparr> t_running := False, function_present := False \<rparr>))"

text \<open>
  \<open>transport_start\<close>: \<open>arrives\<close> says whether a probe arrives while the call waits for the
  \<open>probed\<close> semaphore, and leaves the function present.
\<close>

definition take_probed :: "bool \<Rightarrow> ('w, 'h) wlh_sdio_transport \<Rightarrow> bool \<times> ('w, 'h) wlh_sdio_transport" where
  "take_probed arrives t =
   (case probed t of
      Some (Suc n) \<Rightarrow> (True, t\<lparr> probed := Some n \<rparr>)
    | _ \<Rightarrow> if arrives then (True, t\<lparr> function_present := True \<rparr>) else (False, t))"

definition on_bus :: "('w \<Rightarrow> int \<times> 'w) \<Rightarrow> ('w, 'h) wlh_sdio_transport \<Rightarrow> int \<times> ('w, 'h) wlh_sdio_transport" where
  "on_bus f t = (let (r, w) = f (bus t) in (r, t\<lparr> bus := w \<rparr>))"

definition transport_start ::
  "('w, 'h) sdio_env \<Rightarrow> bool \<Rightarrow> ('w, 'h) wlh_sdio_transport \<Rightarrow> int \<times> ('w, 'h) wlh_sdio_transport" where
  "transport_start E arrives t =
   (let (have_function, t) = (if function_present t then (True, t) else take_probed arrives t) in
    if \<not> have_function then (- RT_ETIMEOUT, t)
    else
      let (result, t) = on_bus (bus_enable_func E) t;
          (result, t) = (if result = RT_EOK then on_bus (bus_set_block_size E WLH_RTT_SDIO_BLOCK_SIZE) t else (result, t));
          (result, t) = (if result = RT_EOK \<and> \<not> irq_attached t
                         then (let (r, t) = on_bus (bus_attach_irq E) t
                               in (r, if r = RT_EOK then t\<lparr> irq_attached := True \<rparr> else t))
                         else (result, t));
          (result, t) = (if result = RT_EOK then write_register E WLH_SDIO_REG_HOST_INT_ENABLE WLH_SDIO_NEW_PACKET_BIT t
                         else (result, t))
      in if result \<noteq> RT_EOK then (result, t)
         else (RT_EOK, t\<lparr> rx_byte_count := 0, tx_buffer_count := 0, invalid_streak := 0,
                 t_generation := t_generation t + 1, t_running := True, wake := map_option Suc (wake t) \<rparr>))"

text \<open>The loop of \<open>transport_stop\<close> ends after at most as many rounds as there are queued jobs.\<close>

fun stop_loop :: "nat \<Rightarrow> ('w, 'h) wlh_sdio_transport \<Rightarrow> ('w, 'h) wlh_sdio_transport option" where
  "stop_loop 0 t = None"
| "stop_loop (Suc n) t =
   (case tx_queue t of
      None \<Rightarrow> None
    | Some q \<Rightarrow>
        (case rt_mq_recv q SIZEOF_TX_JOB RT_WAITING_NO of
           Returns r job q' \<Rightarrow>
             let t = t\<lparr> tx_queue := Some q' \<rparr> in
             if r \<noteq> RT_EOK then Some t
             else stop_loop n (t\<lparr> t_stats := (t_stats t)\<lparr> ts_tx_errors := ts_tx_errors (t_stats t) + 1 \<rparr>,
                    completed := completed t @ [(tx_done (the job), tx_context (the job), tx_frame (the job), tx_length (the job), - RT_EIO)] \<rparr>)
         | _ \<Rightarrow> None))"

definition transport_stop :: "('w, 'h) wlh_sdio_transport \<Rightarrow> (int \<times> ('w, 'h) wlh_sdio_transport) option" where
  "transport_stop t =
   (let t = t\<lparr> t_running := False, t_generation := t_generation t + 1 \<rparr>
    in map_option (\<lambda>t. (RT_EOK, t)) (stop_loop (Suc (entry (the (tx_queue t)))) t))"

definition transport_submit_tx ::
  "('w, 'h) sdio_env \<Rightarrow> u8 list option \<Rightarrow> u32 \<Rightarrow> nat option \<Rightarrow> nat \<Rightarrow> ('w, 'h) wlh_sdio_transport \<Rightarrow>
   int \<times> ('w, 'h) wlh_sdio_transport" where
  "transport_submit_tx E frame len done done_context t =
   (case (frame, done) of
      (Some f, Some d) \<Rightarrow>
        if \<not> t_running t \<or> len < frame_header_size E \<or> len > WLH_RTT_SDIO_MAX_FRAME then (- RT_EINVAL, t)
        else
          let (rc, q) = rt_mq_send (the (tx_queue t))
                \<lparr> tx_frame = f, tx_length = len, tx_done = d, tx_context = done_context, tx_generation = t_generation t \<rparr>
                SIZEOF_TX_JOB;
              t = t\<lparr> tx_queue := Some q \<rparr>
          in if rc \<noteq> RT_EOK
             then (- RT_EFULL, t\<lparr> t_stats := (t_stats t)\<lparr> ts_tx_queue_full := ts_tx_queue_full (t_stats t) + 1 \<rparr> \<rparr>)
             else (RT_EOK, t\<lparr> wake := map_option Suc (wake t) \<rparr>)
    | _ \<Rightarrow> (- RT_EINVAL, t))"

definition transport_soft_reset ::
  "('w, 'h) sdio_env \<Rightarrow> ('w, 'h) wlh_sdio_transport \<Rightarrow> int \<times> ('w, 'h) wlh_sdio_transport" where
  "transport_soft_reset E t =
   (if \<not> function_present t then (- RT_EIO, t)
    else
      let (result, t) = write_register E WLH_SDIO_REG_HOST_TO_SLAVE 1 t in
      if result = RT_EOK
      then (result, t\<lparr> t_stats := (t_stats t)\<lparr> ts_bus_resets := ts_bus_resets (t_stats t) + 1 \<rparr>,
              rx_byte_count := 0, tx_buffer_count := 0 \<rparr>)
      else (result, t))"

definition transport_get_stats :: "bool \<Rightarrow> ('w, 'h) wlh_sdio_transport \<Rightarrow> int \<times> wlh_rtt_transport_stats option" where
  "transport_get_stats out t = (if \<not> out then (- RT_EINVAL, None) else (RT_EOK, Some (t_stats t)))"

text \<open>\<open>rt_memset (&transport, 0, sizeof transport)\<close>; the null host pointer is the argument.\<close>

definition transport_zero :: "'h \<Rightarrow> 'w \<Rightarrow> (nat \<times> nat \<times> u8 list \<times> u32 \<times> int) list \<Rightarrow> ('w, 'h) wlh_sdio_transport" where
  "transport_zero h w log = \<lparr> t_host = h, function_present = False, t_lock = False, wake = None, probed = None,
     tx_queue = None, worker = False, staging = replicate (unat WLH_RTT_SDIO_STAGING_SIZE) 0, rx_byte_count = 0,
     tx_buffer_count = 0, t_generation = 0, invalid_streak = 0, t_running = False, irq_attached = False,
     t_stats = \<lparr> ts_tx_frames = 0, ts_tx_errors = 0, ts_tx_queue_full = 0, ts_rx_frames = 0, ts_rx_errors = 0,
       ts_rx_invalid_length = 0, ts_bus_resets = 0 \<rparr>,
     bus = w, completed = log \<rparr>"

definition transport_release_resources :: "'h \<Rightarrow> ('w, 'h) wlh_sdio_transport \<Rightarrow> ('w, 'h) wlh_sdio_transport" where
  "transport_release_resources null t = transport_zero null (bus t) (completed t)"

text \<open>
  The five allocations succeed as the flags say (the queue has two), \<open>register_rc\<close> is the result of
  \<open>sdio_register_driver\<close>; \<open>args_ok\<close> says that no pointer argument is null.
\<close>

definition wlh_rtt_sdio_transport_create ::
  "'h \<Rightarrow> bool \<Rightarrow> 'h \<Rightarrow> bool \<Rightarrow> bool \<Rightarrow> bool \<Rightarrow> bool \<times> bool \<Rightarrow> bool \<Rightarrow> int \<Rightarrow> ('w, 'h) wlh_sdio_transport \<Rightarrow>
   int \<times> ('w, 'h) wlh_sdio_transport" where
  "wlh_rtt_sdio_transport_create null args_ok host lock_ok wake_ok probed_ok mq_ok worker_ok register_rc t =
   (if \<not> args_ok then (- RT_EINVAL, t)
    else if t_lock t then (- RT_EBUSY, t)
    else
      let t = (transport_zero null (bus t) (completed t))
            \<lparr> t_host := host, t_lock := lock_ok, wake := (if wake_ok then Some 0 else None),
              probed := (if probed_ok then Some 0 else None),
              tx_queue := rt_mq_create (fst mq_ok) (snd mq_ok) SIZEOF_TX_JOB WLH_RTT_HOST_TX_QUEUE_DEPTH, worker := worker_ok \<rparr>
      in if \<not> t_lock t \<or> wake t = None \<or> probed t = None \<or> tx_queue t = None \<or> \<not> worker t
         then (- RT_ENOMEM, transport_release_resources null t)
         else if register_rc \<noteq> RT_EOK \<and> register_rc \<noteq> - RT_EEMPTY
         then (register_rc, transport_release_resources null t)
         else (RT_EOK, t))"

subsection \<open>Tokens and frames\<close>

lemma token_loop_frame:
  assumes "token_loop E n t = (r, t')"
  shows "t' = t\<lparr> bus := bus t', tx_buffer_count := tx_buffer_count t' \<rparr> \<and>
    (if r = RT_EOK then tx_buffer_count t' = (tx_buffer_count t + 1) mod WLH_RTT_SDIO_TOKEN_MODULUS
     else tx_buffer_count t' = tx_buffer_count t)"
  using assms
proof (induction n arbitrary: t)
  case 0
  then show ?case by auto
next
  case (Suc n)
  let ?rd = "bus_readl E (WLH_SDIO_REG_TOKEN AND WLH_SDIO_ADDRESS_MASK) (bus t)"
  obtain e v w where rd: "?rd = (e, v, w)" by (metis surj_pair)
  let ?tok = "drop_bit 16 v AND WLH_SDIO_TOKEN_MASK"
  consider "\<not> t_running t" | "t_running t" "e \<noteq> RT_EOK"
    | "t_running t" "e = RT_EOK" "wlh_rtt_sdio_available_tokens (tx_buffer_count t) ?tok \<noteq> 0"
    | "t_running t" "e = RT_EOK" "wlh_rtt_sdio_available_tokens (tx_buffer_count t) ?tok = 0" by blast
  then show ?case
  proof cases
    case 4
    then have "token_loop E n (t\<lparr> bus := w \<rparr>) = (r, t')" using Suc.prems rd by (simp add: read_register_def Let_def)
    from Suc.IH [OF this] show ?thesis by simp
  qed (use Suc.prems rd in \<open>auto simp: read_register_def Let_def\<close>)
qed

lemma window_args:
  assumes "wlh_rtt_sdio_padded_size len \<noteq> 0"
  shows "unat len \<le> unat (wlh_rtt_sdio_padded_size len)" "unat (wlh_rtt_sdio_padded_size len) \<le> 4096"
    "512 dvd unat (wlh_rtt_sdio_padded_size len)"
    "unat (wlh_rtt_sdio_window_address len) + unat len = unat WLH_RTT_SDIO_END_ADDRESS"
proof -
  have l: "len \<noteq> 0" "len \<le> WLH_RTT_SDIO_MAX_FRAME" using assms by (auto simp: padded_size_0)
  then have "unat len \<le> 0x1f800" by (simp add: word_le_nat_alt)
  then show "unat (wlh_rtt_sdio_window_address len) + unat len = unat WLH_RTT_SDIO_END_ADDRESS"
    using unat_window_address [OF l] by simp
  show "unat len \<le> unat (wlh_rtt_sdio_padded_size len)" "unat (wlh_rtt_sdio_padded_size len) \<le> 4096"
    "512 dvd unat (wlh_rtt_sdio_padded_size len)"
    using padded_size_bounds [OF l] padded_size_le by simp_all
qed

text \<open>Clearing the transfer and copying the frame over it pads the frame with zeros.\<close>

lemma staged_bytes:
  assumes "length f = n" "n \<le> p" "p \<le> length s"
  shows "take p (blit (blit s 0 (replicate p 0)) 0 f) = f @ replicate (p - n) 0"
  using assms by (simp add: blit_def)

lemma read_frame_cases:
  assumes "read_frame E t = (r, stored, t')"
  obtains (failed) "r \<noteq> RT_EOK" "rx_byte_count t' = rx_byte_count t"
  | (ok) len c where "r = RT_EOK" "stored = Some len"
      "wlh_rtt_sdio_accumulated_length (frame_header_size E) (rx_byte_count t) c True = (0, Some len)"
      "rx_byte_count t' = c AND (WLH_RTT_SDIO_LENGTH_MODULUS - 1)" "frame_ok E (staging t') len"
proof -
  obtain e i w where r1: "bus_readl E (WLH_SDIO_REG_INT_RAW AND WLH_SDIO_ADDRESS_MASK) (bus t) = (e, i, w)" by (metis surj_pair)
  obtain e' c w' where r2: "bus_readl E (WLH_SDIO_REG_PACKET_LEN AND WLH_SDIO_ADDRESS_MASK) w = (e', c, w')" by (metis surj_pair)
  let ?acc = "wlh_rtt_sdio_accumulated_length (frame_header_size E) (rx_byte_count t) c True"
  show thesis
  proof (cases "e = RT_EOK \<and> i AND WLH_SDIO_NEW_PACKET_BIT \<noteq> 0 \<and> e' = RT_EOK \<and> snd ?acc \<noteq> None")
    case False
    then have "r \<noteq> RT_EOK \<and> rx_byte_count t' = rx_byte_count t"
      using assms r1 r2 by (auto simp: read_frame_def read_register_def Let_def split: if_splits option.splits prod.splits)
    then show ?thesis using failed by blast
  next
    case True
    then obtain len where l: "?acc = (0, Some len)" by (auto simp: accumulated_length_delta split: if_splits)
    obtain e3 bytes w3 where r3: "bus_read_multi E (wlh_rtt_sdio_window_address len) (unat (wlh_rtt_sdio_padded_size len)) w' = (e3, bytes, w3)"
      by (metis surj_pair)
    obtain e4 w4 where r4: "bus_writel E i (WLH_SDIO_REG_INT_CLEAR AND WLH_SDIO_ADDRESS_MASK) w3 = (e4, w4)" by fastforce
    show ?thesis
    proof (cases "e3 = RT_EOK \<and> frame_ok E (blit (staging t) 0 bytes) len \<and> e4 = RT_EOK")
      case all: True
      then show ?thesis using assms r1 r2 r3 r4 l True ok
        by (auto simp: read_frame_def read_register_def write_register_def Let_def)
    next
      case False
      then have "r \<noteq> RT_EOK \<and> rx_byte_count t' = rx_byte_count t"
        using assms r1 r2 r3 r4 l True
        by (auto simp: read_frame_def read_register_def write_register_def Let_def split: if_splits)
      then show ?thesis using failed by blast
    qed
  qed
qed

lemma accumulated_advance:
  assumes "wlh_rtt_sdio_accumulated_length hdr p c True = (0, Some len)"
  shows "hdr \<le> len \<and> len \<le> WLH_RTT_SDIO_MAX_FRAME \<and>
    unat (c AND (WLH_RTT_SDIO_LENGTH_MODULUS - 1)) = (unat p + unat len) mod 2 ^ 20"
proof -
  have l: "hdr \<le> len" "len \<le> WLH_RTT_SDIO_MAX_FRAME" "counter_delta p c = len"
    using assms unfolding accumulated_length_delta by (auto split: if_splits)
  have "unat len < 2 ^ 20" using l(2) by (simp add: word_le_nat_alt)
  then have "unat c mod 2 ^ 20 = (unat p + unat len) mod 2 ^ 20" using l(3) counter_delta_iff by blast
  moreover have "unat (c AND (WLH_RTT_SDIO_LENGTH_MODULUS - 1)) = unat c mod 2 ^ 20"
    using unat_and_mask [of c 20] by (simp add: mask_20 del: unat_and_mask)
  ultimately show ?thesis using l by simp
qed

lemma read_frame_streak: "read_frame E t = (r, x, t') \<Longrightarrow> invalid_streak t' = invalid_streak t"
  by (auto simp: read_frame_def read_register_def write_register_def Let_def split: if_splits option.splits prod.splits)

lemma rx_burst_streak: "invalid_streak t < 10 \<Longrightarrow> invalid_streak (rx_burst E n t) < 10"
proof (induction n arbitrary: t)
  case 0
  then show ?case by simp
next
  case (Suc n)
  obtain r x t1 where rf: "read_frame E t = (r, x, t1)" by (metis surj_pair)
  have "invalid_streak (snd (rx_burst_step E t)) < 10"
    using Suc.prems read_frame_streak [OF rf]
    by (simp add: rx_burst_step_def rf count_rx_error_def link_lost_def Let_def case_prod_beta)
  then show ?case using Suc by (auto split: prod.splits)
qed

subsection \<open>The transmit queue\<close>

definition tx_pending :: "('w, 'h) wlh_sdio_transport \<Rightarrow> wlh_sdio_tx_job list" where
  "tx_pending t = mq_contents (the (tx_queue t))"

definition tx_inv :: "('w, 'h) wlh_sdio_transport \<Rightarrow> bool" where
  "tx_inv t \<longleftrightarrow> length (staging t) = unat WLH_RTT_SDIO_STAGING_SIZE \<and>
     (\<exists>q. tx_queue t = Some q \<and> mq_inv_n SIZEOF_TX_JOB q \<and> max_msgs q = WLH_RTT_HOST_TX_QUEUE_DEPTH)"

lemma tx_dequeue:
  assumes "tx_inv t" "tx_pending t = j # js"
  obtains q q' where "tx_queue t = Some q" "rt_mq_recv q SIZEOF_TX_JOB RT_WAITING_NO = Returns (int SIZEOF_TX_JOB) (Some j) q'"
    "mq_contents q' = js" "mq_inv_n SIZEOF_TX_JOB q'" "max_msgs q' = WLH_RTT_HOST_TX_QUEUE_DEPTH"
proof -
  obtain q where q: "tx_queue t = Some q" "mq_inv_n 20 q" "max_msgs q = 16" using assms(1) by (auto simp: tx_inv_def)
  have "mq_contents q = j # js" using assms(2) q by (simp add: tx_pending_def)
  with q show thesis using that mq_recv_head [of q 20 j js] by metis
qed

lemma wait_for_token_state:
  assumes "wait_for_token E t = (r, t')"
  obtains b c where "t' = t\<lparr> bus := b, tx_buffer_count := c \<rparr>"
    "r = RT_EOK \<Longrightarrow> c = (tx_buffer_count t + 1) mod WLH_RTT_SDIO_TOKEN_MODULUS"
  using token_loop_frame [of E 200 t r t'] assms that [where b = "bus t'" and c = "tx_buffer_count t'"]
  by (auto simp: wait_for_token_def)

lemma write_frame_state:
  assumes "write_frame E f len t = (r, t')" "length (staging t) = 4096" "length f \<ge> unat len"
  obtains b c s where "t' = t\<lparr> bus := b, tx_buffer_count := c, staging := s \<rparr>" "length s = 4096"
proof -
  obtain r1 t1 where w: "wait_for_token E t = (r1, t1)" by fastforce
  then obtain b c where t1: "t1 = t\<lparr> bus := b, tx_buffer_count := c \<rparr>" by (rule wait_for_token_state) blast
  let ?p = "wlh_rtt_sdio_padded_size len"
  let ?s = "blit (blit (staging t) 0 (replicate (unat ?p) 0)) 0 (take (unat len) f)"
  show thesis
  proof (cases "?p = 0 \<or> r1 \<noteq> RT_EOK")
    case True
    then have "t' = t \<or> t' = t1" using assms(1) w by (auto simp: write_frame_def Let_def split: if_splits)
    then have "t' = t\<lparr> bus := bus t', tx_buffer_count := tx_buffer_count t', staging := staging t \<rparr>" using t1 by auto
    then show ?thesis using assms(2) by (rule that)
  next
    case False
    then have "t' = t1\<lparr> staging := ?s, bus := bus t' \<rparr>"
      using assms(1) w t1 by (auto simp: write_frame_def Let_def split: prod.splits)
    also have "\<dots> = t\<lparr> bus := bus t', tx_buffer_count := c, staging := ?s \<rparr>" unfolding t1 by simp
    finally have "t' = t\<lparr> bus := bus t', tx_buffer_count := c, staging := ?s \<rparr>" .
    moreover have "length ?s = 4096" using assms(2,3) window_args(1,2) [of len] False by simp
    ultimately show ?thesis by (rule that)
  qed
qed

subsection \<open>A concrete instance\<close>

text \<open>
  A bus whose coprocessor always offers five tokens and one packet of 24 bytes, a host that accepts
  every frame, and a transport that was created, started, and given one frame to send.
\<close>

definition sample_sdio :: "(nat, unit) sdio_env" where
  "sample_sdio = \<lparr> frame_header_size = 16, frame_ok = (\<lambda>_ _. True), host_ok = 0,
     host_input = (\<lambda>_ h. (0, h)), host_link_lost = (\<lambda>h. h),
     bus_readl = (\<lambda>a w. (0, if a = 0x44 then 0x50000 else if a = 0x50 then 0x800000 else 24, Suc w)),
     bus_writel = (\<lambda>_ _ w. (0, Suc w)), bus_write_multi = (\<lambda>_ _ w. (0, Suc w)),
     bus_read_multi = (\<lambda>_ n w. (0, replicate n 7, Suc w)), bus_enable_func = (\<lambda>w. (0, w)),
     bus_set_block_size = (\<lambda>_ w. (0, w)), bus_attach_irq = (\<lambda>w. (0, w)) \<rparr>"

definition sample_transport :: "(nat, unit) wlh_sdio_transport" where
  "sample_transport = snd (transport_start sample_sdio True
     (snd (wlh_rtt_sdio_transport_create () True () True True True (True, True) True RT_EOK (transport_zero () 0 []))))"

definition sample_job :: wlh_sdio_tx_job where
  "sample_job = \<lparr> tx_frame = replicate 20 9, tx_length = 20, tx_done = 1, tx_context = 2, tx_generation = 1 \<rparr>"

lemma create_tx_inv:
  assumes "wlh_rtt_sdio_transport_create null args host l w p mq wk rc t = (RT_EOK, t')"
  shows "tx_inv t' \<and> tx_pending t' = [] \<and> wake t' = Some 0 \<and> \<not> t_running t' \<and> t_host t' = host"
proof -
  obtain q :: "wlh_sdio_tx_job rt_messagequeue" where q: "rt_mq_create (fst mq) (snd mq) 20 16 = Some q"
    using assms by (auto simp: wlh_rtt_sdio_transport_create_def Let_def split: if_splits)
  from mq_create_inv [OF this] show ?thesis using assms q
    by (auto simp: wlh_rtt_sdio_transport_create_def transport_zero_def tx_inv_def tx_pending_def Let_def split: if_splits)
qed

lemma sample_transport_facts:
  "tx_inv sample_transport" "tx_pending sample_transport = []" "wake sample_transport = Some 1"
  "t_running sample_transport" "t_generation sample_transport = 1" "invalid_streak sample_transport = 0"
  "length (staging sample_transport) = 4096"
proof -
  let ?c = "wlh_rtt_sdio_transport_create () True () True True True (True, True) True RT_EOK (transport_zero () 0 [])
    :: int \<times> (nat, unit) wlh_sdio_transport"
  have "?c = (RT_EOK, snd ?c)"
    by (simp add: wlh_rtt_sdio_transport_create_def transport_zero_def rt_mq_create_def Let_def)
  note c = create_tx_inv [OF this]
  have "\<exists>b. sample_transport = (snd ?c)\<lparr> function_present := True, irq_attached := True, bus := b, rx_byte_count := 0,
      tx_buffer_count := 0, invalid_streak := 0, t_generation := 1, t_running := True, wake := Some 1 \<rparr>"
    by (simp add: sample_transport_def transport_start_def sample_sdio_def on_bus_def write_register_def take_probed_def
        wlh_rtt_sdio_transport_create_def transport_zero_def rt_mq_create_def Let_def)
  then obtain b where s: "sample_transport = (snd ?c)\<lparr> function_present := True, irq_attached := True, bus := b, rx_byte_count := 0,
      tx_buffer_count := 0, invalid_streak := 0, t_generation := 1, t_running := True, wake := Some 1 \<rparr>" by blast
  show "tx_inv sample_transport" "tx_pending sample_transport = []" "wake sample_transport = Some 1"
    "t_running sample_transport" "t_generation sample_transport = 1" "invalid_streak sample_transport = 0"
    using c unfolding s by (simp_all add: tx_inv_def tx_pending_def)
  then show "length (staging sample_transport) = 4096" by (simp add: tx_inv_def)
qed

subsection \<open>Properties\<close>

text \<open>
  Writing a frame of 1 to 4092 bytes consumes one transmit token, advancing the 12-bit counter,
  and then makes one bus write whose bytes are the frame followed by zeros up to a whole number of
  512-byte blocks, at the address that makes the frame end at 0x1f800; the transfer stays inside
  the staging buffer. Without a token, or for any other length, nothing is written and the call
  fails.
\<close>

theorem write_frame_transfers:
  assumes "length (staging t) = unat WLH_RTT_SDIO_STAGING_SIZE" and "length frame = unat len"
    and "write_frame E frame len t = (r, t')"
  shows "(\<exists>bytes address w w'. r = fst (bus_write_multi E address bytes w) \<and> bus t' = snd (bus_write_multi E address bytes w) \<and>
      wait_for_token E t = (RT_EOK, w') \<and> w = bus w' \<and>
      tx_buffer_count t' = (tx_buffer_count t + 1) mod WLH_RTT_SDIO_TOKEN_MODULUS \<and>
      bytes = frame @ replicate (length bytes - length frame) 0 \<and> length bytes < length frame + 512 \<and>
      512 dvd length bytes \<and> length bytes \<le> unat WLH_RTT_SDIO_STAGING_SIZE \<and>
      unat address + length frame = unat WLH_RTT_SDIO_END_ADDRESS) \<or>
    (r \<noteq> RT_EOK \<and> (t' = t \<or> wait_for_token E t = (r, t')))"
proof -
  let ?p = "wlh_rtt_sdio_padded_size len"
  obtain r1 t1 where w: "wait_for_token E t = (r1, t1)" by fastforce
  then obtain b c where t1: "t1 = t\<lparr> bus := b, tx_buffer_count := c \<rparr>"
    and c: "r1 = RT_EOK \<Longrightarrow> c = (tx_buffer_count t + 1) mod WLH_RTT_SDIO_TOKEN_MODULUS"
    by (rule wait_for_token_state) blast
  show ?thesis
  proof (cases "?p = 0 \<or> r1 \<noteq> RT_EOK")
    case True
    then show ?thesis using assms(3) w by (auto simp: write_frame_def Let_def split: if_splits)
  next
    case False
    let ?bytes = "frame @ replicate (unat ?p - unat len) 0"
    have l: "len \<noteq> 0" "len \<le> WLH_RTT_SDIO_MAX_FRAME" using False by (auto simp: padded_size_0)
    note W = window_args [of len] and B = padded_size_bounds [OF l]
    have "take (unat ?p) (blit (blit (staging t1) 0 (replicate (unat ?p) 0)) 0 (take (unat len) frame)) = ?bytes"
      using staged_bytes [of frame "unat len" "unat ?p" "staging t1"] W False assms(1,2) t1 by simp
    then have "r = fst (bus_write_multi E (wlh_rtt_sdio_window_address len) ?bytes (bus t1))"
      "bus t' = snd (bus_write_multi E (wlh_rtt_sdio_window_address len) ?bytes (bus t1))"
      "tx_buffer_count t' = tx_buffer_count t1"
      using assms(3) w False by (auto simp: write_frame_def Let_def split: prod.splits)
    moreover have "length ?bytes = unat ?p" using W(1) False assms(2) by simp
    ultimately show ?thesis using w False c t1 W B assms(2)
      by (intro disjI1 exI [of _ ?bytes] exI [of _ "wlh_rtt_sdio_window_address len"]) auto
  qed
qed

theorem write_frame_transfers_example:
  "\<exists>r t'. write_frame sample_sdio (replicate 20 9) 20 sample_transport = (r, t') \<and>
     (r \<noteq> RT_EOK \<or> tx_buffer_count t' = (tx_buffer_count sample_transport + 1) mod WLH_RTT_SDIO_TOKEN_MODULUS)"
proof -
  obtain r t' where w: "write_frame sample_sdio (replicate 20 9) 20 sample_transport = (r, t')" by fastforce
  show ?thesis using write_frame_transfers [OF _ _ w] sample_transport_facts(7) w by auto
qed

text \<open>
  C14: Receiving never loses its place in the coprocessor's byte stream: the byte counter advances
  only when a frame was read, validated and acknowledged, and then by exactly the length of that
  frame modulo 2^20, which is between the frame header and 4092 bytes; after any failure the
  counter is unchanged, so the same frame is read again.
\<close>

theorem read_frame_byte_stream:
  assumes "read_frame E t = (r, stored, t')"
  shows "if r = RT_EOK
    then \<exists>len. stored = Some len \<and> frame_header_size E \<le> len \<and> len \<le> WLH_RTT_SDIO_MAX_FRAME \<and>
           frame_ok E (staging t') len \<and> unat (rx_byte_count t') = (unat (rx_byte_count t) + unat len) mod 2 ^ 20
    else rx_byte_count t' = rx_byte_count t"
  using assms
proof (cases rule: read_frame_cases)
  case failed
  then show ?thesis by simp
next
  case (ok len c)
  then show ?thesis using accumulated_advance [OF ok(3)] by simp
qed

theorem read_frame_byte_stream_witness:
  "\<exists>r stored t'. read_frame sample_sdio sample_transport = (r, stored, t') \<and>
     (r \<noteq> RT_EOK \<longrightarrow> rx_byte_count t' = rx_byte_count sample_transport)"
proof -
  obtain r stored t' where "read_frame sample_sdio sample_transport = (r, stored, t')" by (metis surj_pair)
  then show ?thesis using read_frame_byte_stream [of sample_sdio sample_transport r stored t'] by auto
qed

text \<open>
  A burst of the receive loop never leaves ten invalid frames in a row uncounted: the streak of
  invalid frames stays below the limit of 10, as reaching it reports the link as lost and starts
  again from 0.
\<close>

theorem rx_invalid_streak_bounded:
  assumes "invalid_streak t < WLH_SDIO_INVALID_LIMIT"
  shows "invalid_streak (drain_rx E t) < WLH_SDIO_INVALID_LIMIT"
  unfolding drain_rx_def using assms by (rule rx_burst_streak)

theorem rx_invalid_streak_bounded_example:
  "invalid_streak (drain_rx sample_sdio sample_transport) < WLH_SDIO_INVALID_LIMIT"
  using rx_invalid_streak_bounded [of sample_transport sample_sdio] sample_transport_facts(6) by simp

text \<open>
  C35: Processing a transmit job calls its completion function exactly once, with the frame it was
  given and the result, and counts it exactly once as sent or as an error. A job submitted before
  the last start or stop has an old generation: it completes with -RT_EIO and the bus is not
  touched.
\<close>

theorem tx_job_completes_once:
  assumes "length (staging t) = unat WLH_RTT_SDIO_STAGING_SIZE" and "length (tx_frame job) = unat (tx_length job)"
  shows "\<exists>result. completed (tx_process E job t) =
      completed t @ [(tx_done job, tx_context job, tx_frame job, tx_length job, result)] \<and>
      ts_tx_frames (t_stats (tx_process E job t)) = ts_tx_frames (t_stats t) + (if result = RT_EOK then 1 else 0) \<and>
      ts_tx_errors (t_stats (tx_process E job t)) = ts_tx_errors (t_stats t) + (if result = RT_EOK then 0 else 1) \<and>
      tx_queue (tx_process E job t) = tx_queue t \<and>
      (tx_generation job \<noteq> t_generation t \<longrightarrow> result = - RT_EIO \<and> bus (tx_process E job t) = bus t)"
proof (cases "tx_generation job = t_generation t")
  case False
  then show ?thesis by (simp add: tx_process_def)
next
  case True
  obtain r t' where w: "write_frame E (tx_frame job) (tx_length job) t = (r, t')" by fastforce
  then obtain b c s where "t' = t\<lparr> bus := b, tx_buffer_count := c, staging := s \<rparr>"
    using assms by (auto elim: write_frame_state)
  then show ?thesis using True w by (simp add: tx_process_def Let_def)
qed

theorem tx_job_completes_once_witness:
  "\<exists>result. completed (tx_process sample_sdio sample_job sample_transport) =
     completed sample_transport @ [(1, 2, replicate 20 9, 20, result)]"
  using tx_job_completes_once [of sample_transport sample_job sample_sdio] sample_transport_facts(7)
  by (auto simp: sample_job_def)

text \<open>
  C36: As written, neither the transmit burst nor the stop operation completes a queued frame: both
  compare the result of rt_mq_recv with RT_EOK, but a successful receive returns the message
  length. The burst takes the oldest job off the queue, sends nothing and calls nothing; stop
  drops the oldest job and leaves the others queued. The frame's owner is never told.
\<close>

theorem tx_frames_dropped_silently:
  assumes "tx_inv t" and "tx_pending t = job # jobs" and "t_running t"
  shows "\<exists>t1 t2. drain_tx E t = Round t1 \<and> transport_stop t = Some (RT_EOK, t2) \<and>
    tx_pending t1 = jobs \<and> completed t1 = completed t \<and> bus t1 = bus t \<and> t_stats t1 = t_stats t \<and>
    tx_pending t2 = jobs \<and> completed t2 = completed t \<and> t_stats t2 = t_stats t"
proof -
  obtain q q' where q: "tx_queue t = Some q" "rt_mq_recv q 20 0 = Returns 20 (Some job) q'" "mq_contents q' = jobs"
    by (rule tx_dequeue [OF assms(1,2)]) (auto intro: that)
  have "drain_tx E t = tx_burst E (Suc 7) t" by (simp add: drain_tx_def)
  then have "drain_tx E t = Round (t\<lparr> tx_queue := Some q' \<rparr>)"
    unfolding tx_burst.simps using q assms(3) by simp
  moreover have "transport_stop t = Some (RT_EOK, t\<lparr> t_running := False, t_generation := t_generation t + 1, tx_queue := Some q' \<rparr>)"
    using q by (simp add: transport_stop_def Let_def)
  ultimately show ?thesis using q by (simp add: tx_pending_def)
qed

lemma sample_submitted:
  "\<exists>t. transport_submit_tx sample_sdio (Some (replicate 20 9)) 20 (Some 1) 2 sample_transport = (RT_EOK, t) \<and>
     tx_inv t \<and> tx_pending t = [sample_job] \<and> t_running t"
proof -
  obtain q where q: "tx_queue sample_transport = Some q" "mq_inv_n 20 q" "max_msgs q = 16" "length (staging sample_transport) = 4096"
    using sample_transport_facts(1) by (auto simp: tx_inv_def)
  have e: "mq_contents q = []" using sample_transport_facts(2) q by (simp add: tx_pending_def)
  let ?s = "rt_mq_send q sample_job 20"
  have s: "fst ?s = RT_EOK" "mq_contents (snd ?s) = [sample_job]" "mq_inv_n 20 (snd ?s)" "max_msgs (snd ?s) = 16"
    using mq.send_space [OF q(2), of sample_job] mq.send_inv [OF q(2), of sample_job] q(3) e by simp_all
  have "transport_submit_tx sample_sdio (Some (replicate 20 9)) 20 (Some 1) 2 sample_transport =
      (RT_EOK, sample_transport\<lparr> tx_queue := Some (snd ?s), wake := Some 2 \<rparr>)"
    using q(1) s(1) sample_transport_facts(3,4,5)
    by (simp add: transport_submit_tx_def sample_job_def sample_sdio_def case_prod_beta Let_def)
  then show ?thesis using s q(4) sample_transport_facts(4) by (simp add: tx_inv_def tx_pending_def)
qed

theorem tx_frames_dropped_silently_witness:
  "\<exists>t t1. transport_submit_tx sample_sdio (Some (replicate 20 9)) 20 (Some 1) 2 sample_transport = (RT_EOK, t) \<and>
     drain_tx sample_sdio t = Round t1 \<and> tx_pending t = [sample_job] \<and> tx_pending t1 = [] \<and> completed t1 = completed t"
proof -
  obtain t where t: "transport_submit_tx sample_sdio (Some (replicate 20 9)) 20 (Some 1) 2 sample_transport = (RT_EOK, t)"
    "tx_inv t" "tx_pending t = [sample_job]" "t_running t" using sample_submitted by blast
  show ?thesis using tx_frames_dropped_silently [OF t(2,3,4), of sample_sdio] t by auto
qed

text \<open>
  Submitting a frame either refuses it and changes nothing (transport not running, no frame or
  completion, bad length), or reports a full queue, counted, with the 16 queued jobs kept, or
  appends one job with the current generation to the queue and wakes the worker.
\<close>

theorem submit_tx_outcomes:
  assumes "tx_inv t" and "wake t = Some n"
  shows "let (r, t') = transport_submit_tx E (Some frame) len (Some d) ctx t;
       job = \<lparr> tx_frame = frame, tx_length = len, tx_done = d, tx_context = ctx, tx_generation = t_generation t \<rparr>
     in tx_inv t' \<and>
        (if \<not> t_running t \<or> len < frame_header_size E \<or> len > WLH_RTT_SDIO_MAX_FRAME then r = - RT_EINVAL \<and> t' = t
         else if length (tx_pending t) = WLH_RTT_HOST_TX_QUEUE_DEPTH
         then r = - RT_EFULL \<and> tx_pending t' = tx_pending t \<and> wake t' = Some n \<and>
              ts_tx_queue_full (t_stats t') = ts_tx_queue_full (t_stats t) + 1
         else r = RT_EOK \<and> tx_pending t' = tx_pending t @ [job] \<and> wake t' = Some (Suc n))"
proof -
  obtain q where q: "tx_queue t = Some q" "mq_inv_n 20 q" "max_msgs q = 16" "length (staging t) = 4096"
    using assms(1) by (auto simp: tx_inv_def)
  let ?job = "\<lparr> tx_frame = frame, tx_length = len, tx_done = d, tx_context = ctx, tx_generation = t_generation t \<rparr>"
  define s where "s = rt_mq_send q ?job 20"
  have cap: "length (mq_contents q) \<le> 16" using mq.within_cap [OF q(2)] q(3) by simp
  have inv: "mq_inv_n 20 (snd s)" "max_msgs (snd s) = 16"
    using mq.send_inv [OF q(2), of ?job] q(3) by (simp_all add: s_def)
  have cont: "fst s = RT_EOK \<longleftrightarrow> length (mq_contents q) \<noteq> 16"
    "mq_contents (snd s) = (if length (mq_contents q) \<noteq> 16 then mq_contents q @ [?job] else mq_contents q)"
    using mq.send_ok_iff [OF q(2), of ?job] mq.send_content [OF q(2), of ?job] cap q(3) by (auto simp: s_def)
  have "transport_submit_tx E (Some frame) len (Some d) ctx t =
      (if \<not> t_running t \<or> len < frame_header_size E \<or> len > WLH_RTT_SDIO_MAX_FRAME then (- RT_EINVAL, t)
       else if fst s \<noteq> RT_EOK
       then (- RT_EFULL, t\<lparr> tx_queue := Some (snd s), t_stats := (t_stats t)\<lparr> ts_tx_queue_full := ts_tx_queue_full (t_stats t) + 1 \<rparr> \<rparr>)
       else (RT_EOK, t\<lparr> tx_queue := Some (snd s), wake := Some (Suc n) \<rparr>))"
    using q(1) assms(2) by (simp add: transport_submit_tx_def s_def case_prod_beta Let_def)
  then show ?thesis using q inv cont assms by (simp add: tx_inv_def tx_pending_def Let_def)
qed

theorem submit_tx_outcomes_example:
  "let (r, t') = transport_submit_tx sample_sdio (Some [1, 2, 3]) 3 (Some 1) 2 sample_transport in r = - RT_EINVAL \<and> t' = sample_transport"
  using submit_tx_outcomes [OF sample_transport_facts(1,3), of sample_sdio "[1, 2, 3]" 3 1 2] sample_transport_facts(4)
  by (simp add: Let_def case_prod_beta sample_sdio_def)

end
