(* ===== verification/Sdio_Core.thy ===== *)
theory Sdio_Core
  imports Sdio_Transport "HOL-Library.Monad_Syntax"
begin

text \<open>
  The part of RT-Thread's SDIO layer the transport calls,
  rt-thread/components/drivers/sdio/dev_sdio.c and \<open>mmcsd_send_request\<close> of dev_mmcsd_core.c: register access by command 52,
  transfers by command 53 split into blocks and bytes, enabling a function, its block size and its interrupt, and the
  lists of cards and drivers. The host controller (\<open>host->ops->request\<close>) is the parameter \<open>sd_host\<close>; \<open>'w\<close> is the state of the bus.
  \<open>None\<close> is a failed \<open>RT_ASSERT\<close> or a division by zero. Sizes are natural numbers: none exceeds the length of the buffer. A buffer that the
  code leaves uninitialised is an argument.
\<close>

abbreviation (input) SD_IO_RW_DIRECT :: nat where "SD_IO_RW_DIRECT \<equiv> 52"
abbreviation (input) SD_IO_RW_EXTENDED :: nat where "SD_IO_RW_EXTENDED \<equiv> 53"
abbreviation (input) SDIO_MAX_FUNCTIONS :: u32 where "SDIO_MAX_FUNCTIONS \<equiv> 7"
abbreviation (input) SDIO_ARG_CMD53_REG_MASK :: u32 where "SDIO_ARG_CMD53_REG_MASK \<equiv> 0x1ffff"
abbreviation (input) R5_ERROR :: u32 where "R5_ERROR \<equiv> 0x800"
abbreviation (input) R5_FUNCTION_NUMBER :: u32 where "R5_FUNCTION_NUMBER \<equiv> 0x200"
abbreviation (input) R5_OUT_OF_RANGE :: u32 where "R5_OUT_OF_RANGE \<equiv> 0x100"
abbreviation (input) SDIO_REG_CCCR_IO_EN :: u32 where "SDIO_REG_CCCR_IO_EN \<equiv> 2"
abbreviation (input) SDIO_REG_CCCR_IO_RDY :: u32 where "SDIO_REG_CCCR_IO_RDY \<equiv> 3"
abbreviation (input) SDIO_REG_CCCR_INT_EN :: u32 where "SDIO_REG_CCCR_INT_EN \<equiv> 4"
abbreviation (input) SDIO_REG_CCCR_INT_PEND :: u32 where "SDIO_REG_CCCR_INT_PEND \<equiv> 5"
abbreviation (input) SDIO_REG_FBR_BLKSIZE :: u32 where "SDIO_REG_FBR_BLKSIZE \<equiv> 0x10"
abbreviation (input) SDIO_ANY_MAN_ID :: u32 where "SDIO_ANY_MAN_ID \<equiv> 0xffff"
abbreviation (input) SDIO_ANY_PROD_ID :: u32 where "SDIO_ANY_PROD_ID \<equiv> 0xffff"

text \<open>A request to the controller, with its data phase (number and size of the blocks, bytes to write), and what it leaves.\<close>

record sd_request =
  sq_code :: nat
  sq_arg :: u32
  sq_write :: bool
  sq_blks :: nat
  sq_blksize :: nat
  sq_out :: "u8 list"

record sd_response =
  sr_cmd_err :: int
  sr_data_err :: int
  sr_resp0 :: u32
  sr_resp1 :: u32
  sr_in :: "u8 list"

record 'w sd_host =
  sd_ops_request :: "sd_request \<Rightarrow> 'w \<Rightarrow> sd_response \<times> 'w"
  is_spi :: bool
  max_seg_size :: nat
  max_blk_size :: nat
  max_blk_count :: nat

text \<open>\<open>rt_sdio_function\<close>, with \<open>multi_block\<close> of its card.\<close>

record sdio_function =
  func_num :: u32
  func_max_blk :: nat
  cur_blk_size :: nat
  enable_timeout_val :: u32
  irq_handler :: "nat option"
  multi_block :: bool

subsection \<open>Commands\<close>

function mmcsd_send_request :: "'w sd_host \<Rightarrow> sd_request \<Rightarrow> int \<Rightarrow> 'w \<Rightarrow> sd_response \<times> 'w" where
  "mmcsd_send_request H req retries w =
   (let (rsp, w) = sd_ops_request H req w in
    if sr_cmd_err rsp \<noteq> 0 \<and> retries - 1 > 0 then mmcsd_send_request H req (retries - 1) w else (rsp, w))"
  by auto
termination by (relation "measure (\<lambda>(H, req, retries, w). nat retries)") auto

declare mmcsd_send_request.simps [simp del]

definition r5_result :: "'w sd_host \<Rightarrow> u32 \<Rightarrow> int" where
  "r5_result H resp =
   (if is_spi H then 0
    else if resp AND R5_ERROR \<noteq> 0 then - RT_EIO
    else if resp AND R5_FUNCTION_NUMBER \<noteq> 0 then - RT_ERROR
    else if resp AND R5_OUT_OF_RANGE \<noteq> 0 then - RT_ERROR
    else 0)"

definition cmd52_arg :: "bool \<Rightarrow> u32 \<Rightarrow> u32 \<Rightarrow> u8 \<Rightarrow> bool \<Rightarrow> u32" where
  "cmd52_arg rw fn reg_addr data raw =
   (if rw then push_bit 31 1 else 0) OR push_bit 28 fn OR (if raw then push_bit 27 1 else 0) OR push_bit 9 reg_addr OR ucast data"

definition sdio_io_rw_direct :: "'w sd_host \<Rightarrow> bool \<Rightarrow> u32 \<Rightarrow> u32 \<Rightarrow> u8 \<Rightarrow> bool \<Rightarrow> 'w \<Rightarrow> (int \<times> u8 \<times> 'w) option" where
  "sdio_io_rw_direct H rw fn reg_addr data raw w =
   (if fn > SDIO_MAX_FUNCTIONS then None
    else if reg_addr AND NOT SDIO_ARG_CMD53_REG_MASK \<noteq> 0 then Some (- RT_ERROR, data, w)
    else
      let (rsp, w) = mmcsd_send_request H \<lparr> sq_code = SD_IO_RW_DIRECT, sq_arg = cmd52_arg rw fn reg_addr data raw,
            sq_write = rw, sq_blks = 0, sq_blksize = 0, sq_out = [] \<rparr> 0 w
      in if sr_cmd_err rsp \<noteq> 0 then Some (sr_cmd_err rsp, data, w)
         else if r5_result H (sr_resp0 rsp) \<noteq> 0 then Some (r5_result H (sr_resp0 rsp), data, w)
         else Some (0, if \<not> rw \<or> raw
                       then (if is_spi H then ucast (drop_bit 8 (sr_resp0 rsp) AND 0xFF) else ucast (sr_resp0 rsp AND 0xFF))
                       else data, w))"

definition cmd53_arg :: "bool \<Rightarrow> u32 \<Rightarrow> bool \<Rightarrow> u32 \<Rightarrow> nat \<Rightarrow> nat \<Rightarrow> u32" where
  "cmd53_arg rw fn op_code addr blocks blksize =
   (if rw then push_bit 31 1 else 0) OR push_bit 28 fn OR (if op_code then push_bit 26 1 else 0) OR push_bit 9 addr OR
   (if blocks = 1 \<and> blksize \<le> 512 then (if blksize = 512 then 0 else of_nat blksize)
    else push_bit 27 1 OR of_nat blocks)"

definition sdio_io_rw_extended ::
  "'w sd_host \<Rightarrow> bool \<Rightarrow> u32 \<Rightarrow> u32 \<Rightarrow> bool \<Rightarrow> u8 list \<Rightarrow> nat \<Rightarrow> nat \<Rightarrow> 'w \<Rightarrow> (int \<times> u8 list \<times> 'w) option" where
  "sdio_io_rw_extended H rw fn addr op_code buf blocks blksize w =
   (if fn > SDIO_MAX_FUNCTIONS \<or> blocks = 1 \<and> blksize > 512 \<or> blocks = 0 \<or> blksize = 0 then None
    else if addr AND NOT SDIO_ARG_CMD53_REG_MASK \<noteq> 0 then Some (- RT_ERROR, [], w)
    else
      let (rsp, w) = mmcsd_send_request H \<lparr> sq_code = SD_IO_RW_EXTENDED, sq_arg = cmd53_arg rw fn op_code addr blocks blksize,
            sq_write = rw, sq_blks = blocks, sq_blksize = blksize, sq_out = (if rw then take (blocks * blksize) buf else []) \<rparr> 0 w
      in Some (if sr_cmd_err rsp \<noteq> 0 then sr_cmd_err rsp
               else if sr_data_err rsp \<noteq> 0 then sr_data_err rsp
               else r5_result H (sr_resp0 rsp), sr_in rsp, w))"

subsection \<open>Transfers\<close>

definition sdio_max_block_size :: "'w sd_host \<Rightarrow> sdio_function \<Rightarrow> nat" where
  "sdio_max_block_size H f = min (min (min (max_seg_size H) (max_blk_size H)) (func_max_blk f)) 512"

text \<open>
  The two loops: \<open>n\<close> bytes are left, \<open>buf\<close> holds those to be written. The result has the bytes read. The first
  loop goes on with the second one.
\<close>

function byte_loop ::
  "'w sd_host \<Rightarrow> sdio_function \<Rightarrow> bool \<Rightarrow> u32 \<Rightarrow> bool \<Rightarrow> u8 list \<Rightarrow> nat \<Rightarrow> 'w \<Rightarrow> (int \<times> u8 list \<times> 'w) option" where
  "byte_loop H f rw addr op_code buf n w =
   (if n = 0 then Some (0, [], w)
    else
      let len = min n (sdio_max_block_size H f) in
      if len = 0 then None
      else do {
        (ret, bytes, w) \<leftarrow> sdio_io_rw_extended H rw (func_num f) addr op_code buf 1 len w;
        if ret \<noteq> 0 then Some (ret, bytes, w)
        else do {
          (ret, rest, w) \<leftarrow> byte_loop H f rw (if op_code then addr + of_nat len else addr) op_code (drop len buf) (n - len) w;
          Some (ret, bytes @ rest, w)
        }
      })"
  by auto
termination by (relation "measure (\<lambda>(H, f, rw, addr, op_code, buf, n, w). n)") auto

declare byte_loop.simps [simp del]

function block_loop ::
  "'w sd_host \<Rightarrow> sdio_function \<Rightarrow> nat \<Rightarrow> bool \<Rightarrow> u32 \<Rightarrow> bool \<Rightarrow> u8 list \<Rightarrow> nat \<Rightarrow> 'w \<Rightarrow> (int \<times> u8 list \<times> 'w) option" where
  "block_loop H f max_blks rw addr op_code buf n w =
   (if n > cur_blk_size f
    then
      let blks = min (n div cur_blk_size f) max_blks;
          len = blks * cur_blk_size f
      in if len = 0 then None
         else do {
           (ret, bytes, w) \<leftarrow> sdio_io_rw_extended H rw (func_num f) addr op_code buf blks (cur_blk_size f) w;
           if ret \<noteq> 0 then Some (ret, bytes, w)
           else do {
             (ret, rest, w) \<leftarrow> block_loop H f max_blks rw (if op_code then addr + of_nat len else addr) op_code (drop len buf) (n - len) w;
             Some (ret, bytes @ rest, w)
           }
         }
    else byte_loop H f rw addr op_code buf n w)"
  by auto
termination by (relation "measure (\<lambda>(H, f, m, rw, addr, op_code, buf, n, w). n)") auto

declare block_loop.simps [simp del]

definition sdio_io_rw_extended_block ::
  "'w sd_host \<Rightarrow> sdio_function \<Rightarrow> bool \<Rightarrow> u32 \<Rightarrow> bool \<Rightarrow> u8 list \<Rightarrow> nat \<Rightarrow> 'w \<Rightarrow> (int \<times> u8 list \<times> 'w) option" where
  "sdio_io_rw_extended_block H f rw addr op_code buf len w =
   (if multi_block f \<and> len > sdio_max_block_size H f
    then
      if cur_blk_size f = 0 then None
      else block_loop H f (min (min (max_blk_count H) (max_seg_size H div cur_blk_size f)) 511) rw addr op_code buf len w
    else byte_loop H f rw addr op_code buf len w)"

definition sdio_io_readb :: "'w sd_host \<Rightarrow> sdio_function \<Rightarrow> u32 \<Rightarrow> 'w \<Rightarrow> (int \<times> u8 \<times> 'w) option" where
  "sdio_io_readb H f reg w = sdio_io_rw_direct H False (func_num f) reg 0 False w"

definition sdio_io_writeb :: "'w sd_host \<Rightarrow> sdio_function \<Rightarrow> u32 \<Rightarrow> u8 \<Rightarrow> 'w \<Rightarrow> (int \<times> 'w) option" where
  "sdio_io_writeb H f reg data w =
   map_option (\<lambda>(ret, _, w). (ret, w)) (sdio_io_rw_direct H True (func_num f) reg data False w)"

definition sdio_io_readl :: "'w sd_host \<Rightarrow> sdio_function \<Rightarrow> u8 list \<Rightarrow> u32 \<Rightarrow> 'w \<Rightarrow> (int \<times> u32 \<times> 'w) option" where
  "sdio_io_readl H f dmabuf addr w =
   map_option (\<lambda>(ret, bytes, w). (ret, le32_at (blit dmabuf 0 (take 4 bytes)) 0, w))
     (sdio_io_rw_extended_block H f False addr True [] 4 w)"

definition sdio_io_writel :: "'w sd_host \<Rightarrow> sdio_function \<Rightarrow> u32 \<Rightarrow> u32 \<Rightarrow> 'w \<Rightarrow> (int \<times> 'w) option" where
  "sdio_io_writel H f data addr w =
   map_option (\<lambda>(ret, _, w). (ret, w)) (sdio_io_rw_extended_block H f True addr True (le32 data) 4 w)"

definition sdio_io_readw :: "'w sd_host \<Rightarrow> sdio_function \<Rightarrow> u8 list \<Rightarrow> u32 \<Rightarrow> 'w \<Rightarrow> (int \<times> u16 \<times> 'w) option" where
  "sdio_io_readw H f dmabuf addr w =
   map_option (\<lambda>(ret, bytes, w). (ret, le16_at (blit dmabuf 0 (take 2 bytes)) 0, w))
     (sdio_io_rw_extended_block H f False addr True [] 2 w)"

definition sdio_io_writew :: "'w sd_host \<Rightarrow> sdio_function \<Rightarrow> u16 \<Rightarrow> u32 \<Rightarrow> 'w \<Rightarrow> (int \<times> 'w) option" where
  "sdio_io_writew H f data addr w =
   map_option (\<lambda>(ret, _, w). (ret, w)) (sdio_io_rw_extended_block H f True addr True (le16 data) 2 w)"

definition sdio_io_read_multi_fifo_b :: "'w sd_host \<Rightarrow> sdio_function \<Rightarrow> u32 \<Rightarrow> nat \<Rightarrow> 'w \<Rightarrow> (int \<times> u8 list \<times> 'w) option" where
  "sdio_io_read_multi_fifo_b H f addr len w = sdio_io_rw_extended_block H f False addr False [] len w"

definition sdio_io_write_multi_fifo_b :: "'w sd_host \<Rightarrow> sdio_function \<Rightarrow> u32 \<Rightarrow> u8 list \<Rightarrow> 'w \<Rightarrow> (int \<times> 'w) option" where
  "sdio_io_write_multi_fifo_b H f addr buf w =
   map_option (\<lambda>(ret, _, w). (ret, w)) (sdio_io_rw_extended_block H f True addr False buf (length buf) w)"

definition sdio_io_read_multi_incr_b :: "'w sd_host \<Rightarrow> sdio_function \<Rightarrow> u32 \<Rightarrow> nat \<Rightarrow> 'w \<Rightarrow> (int \<times> u8 list \<times> 'w) option" where
  "sdio_io_read_multi_incr_b H f addr len w = sdio_io_rw_extended_block H f False addr True [] len w"

definition sdio_io_write_multi_incr_b :: "'w sd_host \<Rightarrow> sdio_function \<Rightarrow> u32 \<Rightarrow> u8 list \<Rightarrow> 'w \<Rightarrow> (int \<times> 'w) option" where
  "sdio_io_write_multi_incr_b H f addr buf w =
   map_option (\<lambda>(ret, _, w). (ret, w)) (sdio_io_rw_extended_block H f True addr True buf (length buf) w)"

subsection \<open>Functions and interrupts\<close>

text \<open>The registers of the card belong to function 0. A result other than 0 ends each operation.\<close>

definition func0 :: "sdio_function \<Rightarrow> sdio_function" where
  "func0 f = f\<lparr> func_num := 0 \<rparr>"

text \<open>
  The polling loop of \<open>sdio_enable_func\<close>; each element of \<open>ticks\<close> is what \<open>rt_tick_get\<close> returns in a round, and the inner \<open>None\<close>
  says that the loop has not ended within them.
\<close>

fun ready_loop :: "'w sd_host \<Rightarrow> sdio_function \<Rightarrow> u32 \<Rightarrow> u32 list \<Rightarrow> 'w \<Rightarrow> (int \<times> 'w) option option" where
  "ready_loop H f timeout [] w = Some None"
| "ready_loop H f timeout (now # ticks) w = do {
     (ret, reg, w) \<leftarrow> sdio_io_readb H (func0 f) SDIO_REG_CCCR_IO_RDY w;
     if ret \<noteq> 0 then Some (Some (ret, w))
     else if reg AND push_bit (unat (func_num f)) 1 \<noteq> 0 then Some (Some (0, w))
     else if now > timeout then Some (Some (- RT_ETIMEOUT, w))
     else ready_loop H f timeout ticks w
   }"

definition sdio_enable_func :: "'w sd_host \<Rightarrow> sdio_function \<Rightarrow> u32 \<Rightarrow> u32 list \<Rightarrow> 'w \<Rightarrow> (int \<times> 'w) option option" where
  "sdio_enable_func H f start ticks w = do {
     (ret, reg, w) \<leftarrow> sdio_io_readb H (func0 f) SDIO_REG_CCCR_IO_EN w;
     if ret \<noteq> 0 then Some (Some (ret, w))
     else do {
       (ret, w) \<leftarrow> sdio_io_writeb H (func0 f) SDIO_REG_CCCR_IO_EN (reg OR push_bit (unat (func_num f)) 1) w;
       if ret \<noteq> 0 then Some (Some (ret, w))
       else ready_loop H f (start + enable_timeout_val f * 1000 div 1000) ticks w
     }
   }"

definition sdio_disable_func :: "'w sd_host \<Rightarrow> sdio_function \<Rightarrow> 'w \<Rightarrow> (int \<times> 'w) option" where
  "sdio_disable_func H f w = do {
     (ret, reg, w) \<leftarrow> sdio_io_readb H (func0 f) SDIO_REG_CCCR_IO_EN w;
     if ret \<noteq> 0 then Some (- RT_EIO, w)
     else do {
       (ret, w) \<leftarrow> sdio_io_writeb H (func0 f) SDIO_REG_CCCR_IO_EN (reg AND NOT (push_bit (unat (func_num f)) 1)) w;
       Some (if ret \<noteq> 0 then - RT_EIO else 0, w)
     }
   }"

definition sdio_set_block_size :: "'w sd_host \<Rightarrow> nat \<Rightarrow> sdio_function \<times> 'w \<Rightarrow> (int \<times> sdio_function \<times> 'w) option" where
  "sdio_set_block_size H blksize fw =
   (case fw of (f, w) \<Rightarrow>
      if blksize > max_blk_size H then Some (- RT_ERROR, f, w)
      else
        let blksize = (if blksize = 0 then min (min (func_max_blk f) (max_blk_size H)) 512 else blksize);
            reg = func_num f * 0x100 + SDIO_REG_FBR_BLKSIZE
        in do {
          (ret, w) \<leftarrow> sdio_io_writeb H (func0 f) reg (of_nat blksize) w;
          if ret \<noteq> 0 then Some (ret, f, w)
          else do {
            (ret, w) \<leftarrow> sdio_io_writeb H (func0 f) (reg + 1) (of_nat (blksize div 256)) w;
            if ret \<noteq> 0 then Some (ret, f, w) else Some (0, f\<lparr> cur_blk_size := blksize \<rparr>, w)
          }
        })"

text \<open>
  The interrupt thread of the host: the number of its users, and whether its semaphore exists, with its count; \<open>irq_enabled\<close> logs the calls of
  \<open>enable_sdio_irq\<close>, made if the controller supports it.
\<close>

record irq_host =
  sdio_irq_num :: nat
  sdio_irq_sem :: "nat option"
  sdio_irq_thread :: bool
  sup_irq :: bool
  irq_enabled :: "bool list"

definition enable_sdio_irq :: "bool \<Rightarrow> irq_host \<Rightarrow> irq_host" where
  "enable_sdio_irq on h = (if sup_irq h then h\<lparr> irq_enabled := irq_enabled h @ [on] \<rparr> else h)"

definition sdio_irq_thread_create :: "bool \<Rightarrow> bool \<Rightarrow> irq_host \<Rightarrow> (int \<times> irq_host) option" where
  "sdio_irq_thread_create sem_ok thread_ok h =
   (if sdio_irq_num h = 0
    then (if \<not> sem_ok then None else Some (0, h\<lparr> sdio_irq_num := 1, sdio_irq_sem := Some 0, sdio_irq_thread := thread_ok \<rparr>))
    else Some (0, h))"

definition sdio_irq_thread_delete :: "irq_host \<Rightarrow> (int \<times> irq_host) option" where
  "sdio_irq_thread_delete h =
   (if sdio_irq_num h = 0 then None
    else
      let h = h\<lparr> sdio_irq_num := sdio_irq_num h - 1 \<rparr>
      in Some (0, if sdio_irq_num h = 0 then (enable_sdio_irq False h)\<lparr> sdio_irq_sem := None, sdio_irq_thread := False \<rparr> else h))"

definition sdio_attach_irq ::
  "'w sd_host \<Rightarrow> bool \<Rightarrow> bool \<Rightarrow> nat \<Rightarrow> sdio_function \<times> irq_host \<times> 'w \<Rightarrow> (int \<times> sdio_function \<times> irq_host \<times> 'w) option" where
  "sdio_attach_irq H sem_ok thread_ok handler s =
   (case s of (f, h, w) \<Rightarrow>
      if irq_handler f \<noteq> None then Some (- RT_EBUSY, f, h, w)
      else do {
        (ret, reg, w) \<leftarrow> sdio_io_readb H (func0 f) SDIO_REG_CCCR_INT_EN w;
        if ret \<noteq> 0 then Some (ret, f, h, w)
        else do {
          (ret, w) \<leftarrow> sdio_io_writeb H (func0 f) SDIO_REG_CCCR_INT_EN (reg OR push_bit (unat (func_num f)) 1 OR 1) w;
          if ret \<noteq> 0 then Some (ret, f, h, w)
          else do {
            (ret, h) \<leftarrow> sdio_irq_thread_create sem_ok thread_ok h;
            Some (ret, f\<lparr> irq_handler := if ret \<noteq> 0 then None else Some handler \<rparr>, h, w)
          }
        }
      })"

definition sdio_detach_irq :: "'w sd_host \<Rightarrow> sdio_function \<times> irq_host \<times> 'w \<Rightarrow> (int \<times> sdio_function \<times> irq_host \<times> 'w) option" where
  "sdio_detach_irq H s =
   (case s of (f, h, w) \<Rightarrow> do {
      (f, h) \<leftarrow> (if irq_handler f \<noteq> None
                  then map_option (\<lambda>(_, h). (f\<lparr> irq_handler := None \<rparr>, h)) (sdio_irq_thread_delete h) else Some (f, h));
      (ret, reg, w) \<leftarrow> sdio_io_readb H (func0 f) SDIO_REG_CCCR_INT_EN w;
      if ret \<noteq> 0 then Some (ret, f, h, w)
      else
        let reg = reg AND NOT (push_bit (unat (func_num f)) 1);
            reg = (if reg AND 0xFE = 0 then 0 else reg)
        in do {
          (ret, w) \<leftarrow> sdio_io_writeb H (func0 f) SDIO_REG_CCCR_INT_EN reg w;
          Some (ret, f, h, w)
        }
    })"

definition sdio_irq_wakeup :: "irq_host \<Rightarrow> irq_host" where
  "sdio_irq_wakeup h = (let h = enable_sdio_irq False h in h\<lparr> sdio_irq_sem := map_option Suc (sdio_irq_sem h) \<rparr>)"

text \<open>
  The functions whose handlers the thread calls, in order, for the pending bits \<open>i\<close> to 7: the search ends at a
  pending bit of a function that does not exist or has no handler.
\<close>

fun irq_dispatch :: "(nat \<Rightarrow> sdio_function option) \<Rightarrow> u8 \<Rightarrow> nat list \<Rightarrow> nat list" where
  "irq_dispatch funcs pending [] = []"
| "irq_dispatch funcs pending (i # is) =
   (if pending AND push_bit i 1 \<noteq> 0
    then (case funcs i of
            None \<Rightarrow> []
          | Some f \<Rightarrow> (case irq_handler f of None \<Rightarrow> [] | Some handler \<Rightarrow> handler # irq_dispatch funcs pending is))
    else irq_dispatch funcs pending is)"

text \<open>A round of the interrupt thread: \<open>None\<close> inside says that it waits for its semaphore.\<close>

definition sdio_irq_round ::
  "'w sd_host \<Rightarrow> (nat \<Rightarrow> sdio_function option) \<Rightarrow> irq_host \<times> 'w \<Rightarrow> (nat list \<times> irq_host \<times> 'w) option option" where
  "sdio_irq_round H funcs s =
   (case s of (h, w) \<Rightarrow>
      case (sdio_irq_sem h, funcs 0) of
        (Some (Suc n), Some f0) \<Rightarrow> do {
          (ret, pending, w) \<leftarrow> sdio_io_readb H f0 SDIO_REG_CCCR_INT_PEND w;
          Some (Some (if ret \<noteq> 0 then [] else irq_dispatch funcs pending [1..<8], enable_sdio_irq True (h\<lparr> sdio_irq_sem := Some n \<rparr>), w))
        }
      | (Some 0, _) \<Rightarrow> Some None
      | _ \<Rightarrow> None)"

subsection \<open>Cards and drivers\<close>

record sdio_card =
  card_manufacturer :: u32
  card_products :: "u32 list"

record sdio_driver =
  drv_name :: string
  id_manufacturer :: u32
  id_product :: u32

definition sdio_match_card :: "sdio_card \<Rightarrow> sdio_driver \<Rightarrow> bool" where
  "sdio_match_card crd drv =
   (if id_manufacturer drv \<noteq> SDIO_ANY_MAN_ID \<and> id_manufacturer drv \<noteq> card_manufacturer crd then False
    else \<exists>p\<in>set (card_products crd). id_product drv \<noteq> SDIO_ANY_PROD_ID \<and> id_product drv = p)"

definition sdio_match_driver :: "sdio_card list \<Rightarrow> sdio_driver \<Rightarrow> sdio_card option" where
  "sdio_match_driver cards drv = find (\<lambda>crd. sdio_match_card crd drv) cards"

text \<open>The lists have the newest element first; a driver is told from another by its contents. The results are the code, the driver list, and the card whose probe or removal is called.\<close>

definition sdio_register_driver ::
  "bool \<Rightarrow> (sdio_card \<Rightarrow> int) \<Rightarrow> sdio_driver \<Rightarrow> sdio_card list \<Rightarrow> sdio_driver list \<Rightarrow> int \<times> sdio_driver list \<times> sdio_card option" where
  "sdio_register_driver alloc probe_result drv cards drivers =
   (if \<not> alloc then (- RT_ENOMEM, drivers, None)
    else case sdio_match_driver cards drv of
           Some crd \<Rightarrow> (probe_result crd, drv # drivers, Some crd)
         | None \<Rightarrow> (- RT_EEMPTY, drv # drivers, None))"

definition sdio_register_card :: "bool \<Rightarrow> sdio_card \<Rightarrow> sdio_card list \<Rightarrow> sdio_driver list \<Rightarrow> int \<times> sdio_card list \<times> sdio_driver list" where
  "sdio_register_card alloc crd cards drivers =
   (if \<not> alloc then (- RT_ENOMEM, cards, [])
    else (0, crd # cards, filter (sdio_match_card crd) drivers))"

text \<open>The loop over the drivers goes on after it has found one: \<open>sd\<close> is the last element or null.\<close>

fun unregister_scan :: "sdio_driver \<Rightarrow> sdio_driver list \<Rightarrow> nat \<Rightarrow> nat option \<Rightarrow> nat option" where
  "unregister_scan drv [] i sd = sd"
| "unregister_scan drv (d # ds) i sd = unregister_scan drv ds (Suc i) (if d \<noteq> drv then None else Some i)"

definition sdio_unregister_driver ::
  "sdio_driver \<Rightarrow> sdio_card list \<Rightarrow> sdio_driver list \<Rightarrow> int \<times> sdio_driver list \<times> sdio_card option" where
  "sdio_unregister_driver drv cards drivers =
   (case unregister_scan drv drivers 0 None of
      None \<Rightarrow> (- RT_ERROR, drivers, None)
    | Some i \<Rightarrow>
        (case sdio_match_driver cards drv of
           Some crd \<Rightarrow> (0, take i drivers @ drop (Suc i) drivers, Some crd)
         | None \<Rightarrow> (0, drivers, None)))"

subsection \<open>The argument of command 53\<close>

text \<open>The fields as the SDIO specification lays them out.\<close>

definition arg_write :: "u32 \<Rightarrow> bool" where "arg_write arg = bit arg 31"
definition arg_fn :: "u32 \<Rightarrow> u32" where "arg_fn arg = drop_bit 28 arg AND mask 3"
definition arg_block_mode :: "u32 \<Rightarrow> bool" where "arg_block_mode arg = bit arg 27"
definition arg_incr :: "u32 \<Rightarrow> bool" where "arg_incr arg = bit arg 26"
definition arg_addr :: "u32 \<Rightarrow> u32" where "arg_addr arg = drop_bit 9 arg AND mask 17"
definition arg_count :: "u32 \<Rightarrow> u32" where "arg_count arg = arg AND mask 9"

lemma bit_below:
  assumes "unat (x :: u32) < 2 ^ k" "bit x n"
  shows "n < k"
proof (rule ccontr)
  assume "\<not> n < k"
  then have "(2 :: nat) ^ k \<le> 2 ^ n" by (intro power_increasing) simp_all
  then have "unat x div 2 ^ n = 0" using assms(1) by (intro div_less) linarith
  then have "\<not> bit (unat x) n" by (simp add: bit_iff_odd)
  then show False using assms(2) by (simp add: bit_unsigned_iff)
qed

lemma bit_flag: "k < 32 \<Longrightarrow> bit (if b then push_bit k 1 else 0 :: u32) n \<longleftrightarrow> b \<and> n = k"
  by (auto simp: bit_simps)

lemma cmd53_fields:
  assumes "unat fn < 2 ^ 3" "unat addr < 2 ^ 17" "blocks < 2 ^ 9" "0 < blocks" "0 < blksize"
  shows "arg_write (cmd53_arg rw fn op_code addr blocks blksize) = rw"
    and "arg_incr (cmd53_arg rw fn op_code addr blocks blksize) = op_code"
    and "arg_block_mode (cmd53_arg rw fn op_code addr blocks blksize) \<longleftrightarrow> \<not> (blocks = 1 \<and> blksize \<le> 512)"
    and "arg_fn (cmd53_arg rw fn op_code addr blocks blksize) = fn"
    and "arg_addr (cmd53_arg rw fn op_code addr blocks blksize) = addr"
    and "arg_count (cmd53_arg rw fn op_code addr blocks blksize) =
      (if blocks = 1 \<and> blksize \<le> 512 then (if blksize = 512 then 0 else of_nat blksize) else of_nat blocks)"
proof -
  define c :: u32 where "c = (if blocks = 1 \<and> blksize \<le> 512 then (if blksize = 512 then 0 else of_nat blksize) else of_nat blocks)"
  define big where "big \<longleftrightarrow> \<not> (blocks = 1 \<and> blksize \<le> 512)"
  have "unat c < 2 ^ 9" using assms(3) by (auto simp: c_def unat_of_nat32)
  note b = bit_below [OF assms(1)] bit_below [OF assms(2)] bit_below [OF this]
  define rf bf incf :: u32 where "rf = (if rw then push_bit 31 1 else 0)" and "bf = (if big then push_bit 27 1 else 0)"
    and "incf = (if op_code then push_bit 26 1 else 0)"
  have fl: "bit rf n \<longleftrightarrow> rw \<and> n = 31" "bit bf n \<longleftrightarrow> big \<and> n = 27" "bit incf n \<longleftrightarrow> op_code \<and> n = 26" for n
    unfolding rf_def bf_def incf_def by (simp_all only: bit_flag)
  have arg: "cmd53_arg rw fn op_code addr blocks blksize = rf OR push_bit 28 fn OR bf OR incf OR push_bit 9 addr OR c"
    unfolding cmd53_arg_def rf_def [symmetric] incf_def [symmetric]
    by (auto simp: c_def bf_def big_def or.assoc or.left_commute or.commute)
  show "arg_write (cmd53_arg rw fn op_code addr blocks blksize) = rw"
    unfolding arg arg_write_def by (auto simp: bit_simps fl dest: b)
  show "arg_incr (cmd53_arg rw fn op_code addr blocks blksize) = op_code"
    unfolding arg arg_incr_def by (auto simp: bit_simps fl dest: b)
  show "arg_block_mode (cmd53_arg rw fn op_code addr blocks blksize) \<longleftrightarrow> \<not> (blocks = 1 \<and> blksize \<le> 512)"
    unfolding arg arg_block_mode_def big_def [symmetric] by (auto simp: bit_simps fl dest: b)
  show "arg_fn (cmd53_arg rw fn op_code addr blocks blksize) = fn"
    unfolding arg arg_fn_def by (intro bit_word_eqI) (auto simp: bit_simps fl dest: b)
  show "arg_addr (cmd53_arg rw fn op_code addr blocks blksize) = addr"
    unfolding arg arg_addr_def by (intro bit_word_eqI) (auto simp: bit_simps fl dest: b)
  show "arg_count (cmd53_arg rw fn op_code addr blocks blksize) =
      (if blocks = 1 \<and> blksize \<le> 512 then (if blksize = 512 then 0 else of_nat blksize) else of_nat blocks)"
    unfolding arg arg_count_def c_def [symmetric] by (intro bit_word_eqI) (auto simp: bit_simps fl dest: b)
qed

subsection \<open>A card with a memory\<close>

text \<open>
  The number of bytes a command moves, as the card reads the argument, and a controller whose card is a memory that
  executes command 53 with increasing addresses. It fails if the data phase does not fit the command.
\<close>

definition arg_length :: "u32 \<Rightarrow> nat \<Rightarrow> nat" where
  "arg_length arg blksize =
   (if arg_block_mode arg then unat (arg_count arg) * blksize else if arg_count arg = 0 then 512 else unat (arg_count arg))"

definition store :: "(nat \<Rightarrow> u8) \<Rightarrow> nat \<Rightarrow> u8 list \<Rightarrow> nat \<Rightarrow> u8" where
  "store m a bytes = (\<lambda>x. if a \<le> x \<and> x < a + length bytes then bytes ! (x - a) else m x)"

definition fetch :: "(nat \<Rightarrow> u8) \<Rightarrow> nat \<Rightarrow> nat \<Rightarrow> u8 list" where
  "fetch m a n = map m [a..<a + n]"

definition mem_request :: "sd_request \<Rightarrow> (nat \<Rightarrow> u8) \<Rightarrow> sd_response \<times> (nat \<Rightarrow> u8)" where
  "mem_request rq m =
   (let arg = sq_arg rq; n = arg_length arg (sq_blksize rq); a = unat (arg_addr arg) in
    if sq_code rq \<noteq> SD_IO_RW_EXTENDED \<or> \<not> arg_incr arg \<or> n \<noteq> sq_blks rq * sq_blksize rq \<or> arg_write arg \<noteq> sq_write rq
    then (\<lparr> sr_cmd_err = - RT_EIO, sr_data_err = 0, sr_resp0 = 0, sr_resp1 = 0, sr_in = [] \<rparr>, m)
    else if arg_write arg then (\<lparr> sr_cmd_err = 0, sr_data_err = 0, sr_resp0 = 0, sr_resp1 = 0, sr_in = [] \<rparr>, store m a (take n (sq_out rq)))
    else (\<lparr> sr_cmd_err = 0, sr_data_err = 0, sr_resp0 = 0, sr_resp1 = 0, sr_in = fetch m a n \<rparr>, m))"

lemma store_append: "store (store m a xs) (a + length xs) ys = store m a (xs @ ys)"
  by (auto simp: store_def fun_eq_iff nth_append)

lemma store_Nil [simp]: "store m a [] = m"
  by (auto simp: store_def fun_eq_iff)

lemma fetch_append: "fetch m a (n + k) = fetch m a n @ fetch m (a + n) k"
  unfolding fetch_def map_append [symmetric] add.assoc [symmetric] by (subst upt_add_eq_append) simp_all

lemma fetch_store: "fetch (store m a bytes) a (length bytes) = bytes"
  by (rule nth_equalityI) (auto simp: fetch_def store_def)

lemma in_register_space: "unat addr < 2 ^ 17 \<Longrightarrow> addr AND NOT SDIO_ARG_CMD53_REG_MASK = 0"
proof -
  assume "unat addr < 2 ^ 17"
  note b = bit_below [OF this]
  have "(SDIO_ARG_CMD53_REG_MASK :: u32) = mask 17" by (simp add: mask_eq_exp_minus_1)
  moreover have "addr AND NOT (mask 17) = 0" by (intro bit_word_eqI) (auto simp: bit_simps dest: b)
  ultimately show ?thesis by (simp only:)
qed

lemma cmd53_length:
  assumes "unat fn < 2 ^ 3" "unat addr < 2 ^ 17" "blocks < 2 ^ 9" "0 < blocks" "0 < blksize"
  shows "arg_length (cmd53_arg rw fn op_code addr blocks blksize) blksize = blocks * blksize"
proof (cases "blocks = 1 \<and> blksize \<le> 512")
  case True
  then have "unat (of_nat blksize :: u32) = blksize" by (simp add: unat_of_nat32)
  moreover from this assms(5) have "(of_nat blksize :: u32) \<noteq> 0" by (metis less_not_refl unat_0)
  ultimately show ?thesis using True cmd53_fields(3,6) [OF assms] by (simp add: arg_length_def)
next
  case False
  have "unat (of_nat blocks :: u32) = blocks" using assms(3) by (simp add: unat_of_nat32)
  then show ?thesis using False cmd53_fields(3,6) [OF assms] by (auto simp: arg_length_def)
qed

lemma extended_mem:
  assumes H: "sd_ops_request H = mem_request" and fn: "unat fn < 2 ^ 3" and rng: "unat addr + blocks * blksize \<le> 0x20000"
    and n: "0 < blocks" "blocks < 2 ^ 9" "0 < blksize" "blocks = 1 \<longrightarrow> blksize \<le> 512" and buf: "rw \<longrightarrow> blocks * blksize \<le> length buf"
  shows "sdio_io_rw_extended H rw fn addr True buf blocks blksize m =
    Some (0, if rw then [] else fetch m (unat addr) (blocks * blksize),
      if rw then store m (unat addr) (take (blocks * blksize) buf) else m)"
proof -
  have "0 < blocks * blksize" using n by simp
  then have "unat addr < 0x20000" using rng by linarith
  then have a: "unat addr < 2 ^ 17" by simp
  let ?arg = "cmd53_arg rw fn True addr blocks blksize"
  note F = cmd53_fields [OF fn a n(2,1,3), of rw True]
  note len = cmd53_length [OF fn a n(2,1,3), of rw True]
  have fn7: "\<not> fn > 7" using fn by (simp add: word_less_nat_alt)
  show ?thesis using fn7 n in_register_space [OF a] F(1,2,5) len buf
    by (subst sdio_io_rw_extended_def, subst mmcsd_send_request.simps)
      (auto simp: H mem_request_def Let_def r5_result_def min_absorb2)
qed

text \<open>The limits of controller and function under which the loops never stop at an assertion.\<close>

definition limits_ok :: "'w sd_host \<Rightarrow> sdio_function \<Rightarrow> bool" where
  "limits_ok H f \<longleftrightarrow> unat (func_num f) < 2 ^ 3 \<and> 0 < sdio_max_block_size H f \<and> 0 < cur_blk_size f \<and> cur_blk_size f \<le> 512 \<and>
     cur_blk_size f \<le> max_seg_size H \<and> 0 < max_blk_count H"

lemma unat_advance:
  assumes "unat (addr :: u32) + n \<le> 0x20000"
  shows "unat (addr + of_nat n) = unat addr + n"
  using unat_plus_no_wrap [of addr "of_nat n"] assms by (simp add: unat_of_nat32)

text \<open>What moving \<open>n\<close> bytes does: the bytes read, and the memory. Moving a first piece and then the rest moves everything.\<close>

definition moved :: "bool \<Rightarrow> (nat \<Rightarrow> u8) \<Rightarrow> nat \<Rightarrow> nat \<Rightarrow> u8 list \<Rightarrow> u8 list \<times> (nat \<Rightarrow> u8)" where
  "moved rw m a n buf = (if rw then ([], store m a (take n buf)) else (fetch m a n, m))"

lemma moved_split:
  assumes "l \<le> n" "rw \<longrightarrow> n \<le> length buf" "moved rw m a l buf = (b1, m1)" "moved rw m1 (a + l) (n - l) (drop l buf) = (b2, m2)"
  shows "moved rw m a n buf = (b1 @ b2, m2)"
proof (cases rw)
  case True
  have "take l buf @ take (n - l) (drop l buf) = take n buf" using assms(1) by (simp flip: take_add)
  moreover have "length (take l buf) = l" using assms(1,2) True by simp
  ultimately show ?thesis using assms(3,4) True store_append [of m a "take l buf" "take (n - l) (drop l buf)"]
    by (auto simp: moved_def)
next
  case False
  then show ?thesis using assms fetch_append [of m a l "n - l"] by (auto simp: moved_def)
qed

lemma extended_moved:
  assumes "sd_ops_request H = mem_request" "limits_ok H f" "unat addr + blocks * blksize \<le> 0x20000"
    and "0 < blocks" "blocks < 2 ^ 9" "0 < blksize" "blksize \<le> 512" "rw \<longrightarrow> blocks * blksize \<le> length buf"
    and "moved rw m (unat addr) (blocks * blksize) buf = (b, m')"
  shows "sdio_io_rw_extended H rw (func_num f) addr True buf blocks blksize m = Some (0, b, m')"
  using extended_mem [OF assms(1) _ assms(3-6) _ assms(8)] assms(2,7,9) by (auto simp: limits_ok_def moved_def)

lemma byte_loop_mem:
  assumes "sd_ops_request H = mem_request" "limits_ok H f" "unat addr + n \<le> 0x20000" "rw \<longrightarrow> n \<le> length buf"
    and "moved rw m (unat addr) n buf = (b, m')"
  shows "byte_loop H f rw addr True buf n m = Some (0, b, m')"
  using assms(3-5)
proof (induction n arbitrary: addr buf m b rule: less_induct)
  case (less n)
  show ?case
  proof (cases "n = 0")
    case True
    then show ?thesis using less.prems(3) by (subst byte_loop.simps) (auto simp: moved_def fetch_def split: if_splits)
  next
    case False
    define l where "l = min n (sdio_max_block_size H f)"
    have l: "0 < l" "l \<le> n" "l \<le> 512" using False assms(2) by (auto simp: l_def limits_ok_def sdio_max_block_size_def)
    obtain b1 m1 where p1: "moved rw m (unat addr) l buf = (b1, m1)" by fastforce
    obtain b2 m2 where p2: "moved rw m1 (unat addr + l) (n - l) (drop l buf) = (b2, m2)" by fastforce
    have r: "b = b1 @ b2" "m' = m2" using moved_split [OF l(2) less.prems(2) p1 p2] less.prems(3) by auto
    have x: "sdio_io_rw_extended H rw (func_num f) addr True buf 1 l m = Some (0, b1, m1)"
      using extended_moved [OF assms(1,2), of addr 1 l rw buf m b1 m1] less.prems l p1 by auto
    have u: "unat (addr + of_nat l) = unat addr + l" by (rule unat_advance) (use less.prems l in simp)
    have d: "rw \<longrightarrow> n - l \<le> length (drop l buf)" using less.prems(2) by (simp add: diff_le_mono)
    have "byte_loop H f rw (addr + of_nat l) True (drop l buf) (n - l) m1 = Some (0, b2, m2)"
      using less.IH [of "n - l" "addr + of_nat l" "drop l buf" m1 b2] less.prems(1) l p2 r(2) d unfolding u by simp
    then show ?thesis using False l(1) x r by (subst byte_loop.simps) (simp add: l_def [symmetric])
  qed
qed

lemma block_loop_mem:
  assumes "sd_ops_request H = mem_request" "limits_ok H f" "0 < mx" "mx < 2 ^ 9" "unat addr + n \<le> 0x20000" "rw \<longrightarrow> n \<le> length buf"
    and "moved rw m (unat addr) n buf = (b, m')"
  shows "block_loop H f mx rw addr True buf n m = Some (0, b, m')"
  using assms(5-7)
proof (induction n arbitrary: addr buf m b rule: less_induct)
  case (less n)
  show ?case
  proof (cases "cur_blk_size f < n")
    case False
    then show ?thesis using byte_loop_mem [OF assms(1,2) less.prems] by (subst block_loop.simps) simp
  next
    case True
    define k where "k = min (n div cur_blk_size f) mx"
    define l where "l = k * cur_blk_size f"
    have c: "0 < cur_blk_size f" "cur_blk_size f \<le> 512" using assms(2) by (simp_all add: limits_ok_def)
    have k: "0 < k" "k < 2 ^ 9" using True c assms(3,4) by (auto simp: k_def div_greater_zero_iff)
    have "l \<le> n div cur_blk_size f * cur_blk_size f" unfolding l_def k_def by (intro mult_le_mono1) simp
    then have l: "l \<le> n" "0 < l" using k(1) c(1) le_trans [OF _ div_times_less_eq_dividend [of n "cur_blk_size f"]] by (auto simp: l_def)
    obtain b1 m1 where p1: "moved rw m (unat addr) l buf = (b1, m1)" by fastforce
    obtain b2 m2 where p2: "moved rw m1 (unat addr + l) (n - l) (drop l buf) = (b2, m2)" by fastforce
    have r: "b = b1 @ b2" "m' = m2" using moved_split [OF l(1) less.prems(2) p1 p2] less.prems(3) by auto
    have x: "sdio_io_rw_extended H rw (func_num f) addr True buf k (cur_blk_size f) m = Some (0, b1, m1)"
      using extended_moved [OF assms(1,2), of addr k "cur_blk_size f" rw buf m b1 m1] less.prems l k c p1 by (auto simp: l_def)
    have u: "unat (addr + of_nat l) = unat addr + l" by (rule unat_advance) (use less.prems l in simp)
    have d: "rw \<longrightarrow> n - l \<le> length (drop l buf)" using less.prems(2) by (simp add: diff_le_mono)
    have "block_loop H f mx rw (addr + of_nat l) True (drop l buf) (n - l) m1 = Some (0, b2, m2)"
      using less.IH [of "n - l" "addr + of_nat l" "drop l buf" m1 b2] less.prems(1) l p2 r(2) d unfolding u by simp
    then show ?thesis using True l(2) k(1) c(1) x r
      by (subst block_loop.simps) (simp add: k_def [symmetric] l_def [symmetric] Let_def del: mult_eq_0_iff)
  qed
qed

lemma extended_block_mem:
  assumes "sd_ops_request H = mem_request" "limits_ok H f" "unat addr + n \<le> 0x20000" "rw \<longrightarrow> n \<le> length buf"
    and "moved rw m (unat addr) n buf = (b, m')"
  shows "sdio_io_rw_extended_block H f rw addr True buf n m = Some (0, b, m')"
proof -
  have "0 < min (min (max_blk_count H) (max_seg_size H div cur_blk_size f)) 511" "cur_blk_size f \<noteq> 0"
    using assms(2) by (auto simp: limits_ok_def div_greater_zero_iff)
  then show ?thesis using block_loop_mem [OF assms(1,2) _ _ assms(3-5)] byte_loop_mem [OF assms]
    by (simp add: sdio_io_rw_extended_block_def)
qed

text \<open>Whole blocks of the function's block size, at most 511 and as many as the controller takes, are one command.\<close>

lemma blocks_single_command:
  assumes "multi_block f" "cur_blk_size f = 512" "0 < k" "k \<le> 8" "8 \<le> max_blk_count H" "4096 \<le> max_seg_size H"
    "512 \<le> max_blk_size H" "512 \<le> func_max_blk f"
  shows "sdio_io_rw_extended_block H f rw addr op_code buf (k * 512) w = sdio_io_rw_extended H rw (func_num f) addr op_code buf k 512 w"
proof -
  have sz: "sdio_max_block_size H f = 512" using assms by (simp add: sdio_max_block_size_def)
  show ?thesis
  proof (cases "k = 1")
    case True
    have fin: "byte_loop H f rw a op_code b 0 w' = Some (0, [], w')" for a b w' by (subst byte_loop.simps) simp
    show ?thesis using True sz fin
      by (simp add: sdio_io_rw_extended_block_def, subst byte_loop.simps)
        (cases "sdio_io_rw_extended H rw (func_num f) addr op_code buf k 512 w"; auto simp: Let_def)
  next
    case False
    let ?mx = "min (min (max_blk_count H) (max_seg_size H div 512)) 511"
    have mx: "8 \<le> ?mx" using assms(5,6) div_le_mono [of 4096 "max_seg_size H" 512] by simp
    have fin: "block_loop H f ?mx rw a op_code b 0 w' = Some (0, [], w')" for a b w'
      using assms(2) by (subst block_loop.simps, subst byte_loop.simps) simp
    have "512 < k * 512" "min k ?mx = k" using False assms(3,4) mx by auto
    then show ?thesis using assms(1-4) sz fin
      by (simp add: sdio_io_rw_extended_block_def, subst block_loop.simps)
        (cases "sdio_io_rw_extended H rw (func_num f) addr op_code buf k 512 w"; auto simp: Let_def)
  qed
qed

lemma write_multi_mem:
  assumes "sd_ops_request H = mem_request" "limits_ok H f" "unat addr + length buf \<le> 0x20000"
  shows "sdio_io_write_multi_incr_b H f addr buf m = Some (0, store m (unat addr) buf)"
proof -
  have "moved True m (unat addr) (length buf) buf = ([], store m (unat addr) buf)" by (simp add: moved_def)
  from extended_block_mem [OF assms(1-3) _ this] show ?thesis by (simp add: sdio_io_write_multi_incr_b_def)
qed

subsection \<open>Drivers\<close>

text \<open>A driver that is not the oldest one is not found: a later element of the list resets the result of the search.\<close>

lemma unregister_scan_last:
  "ds \<noteq> [] \<Longrightarrow> unregister_scan drv ds i sd = (if last ds = drv then Some (i + length ds - 1) else None)"
  by (induction drv ds i sd rule: unregister_scan.induct) auto

lemma unregister_misses:
  assumes "last drivers \<noteq> drv"
  shows "sdio_unregister_driver drv cards drivers = (- RT_ERROR, drivers, None)"
proof (cases "drivers = []")
  case False
  then show ?thesis using assms by (simp add: sdio_unregister_driver_def unregister_scan_last)
qed (simp add: sdio_unregister_driver_def)

lemma unregister_oldest:
  assumes "drivers \<noteq> []" "last drivers = drv" "sdio_match_driver cards drv = Some c"
  shows "sdio_unregister_driver drv cards drivers = (0, butlast drivers, Some c)"
  using assms by (simp add: sdio_unregister_driver_def unregister_scan_last butlast_conv_take)

text \<open>The polling loop ends as soon as it reads a tick after the timeout, whatever the card answers.\<close>

lemma ready_loop_ends:
  assumes "\<exists>now\<in>set ticks. now > timeout"
  shows "ready_loop H f timeout ticks w \<noteq> Some None"
  using assms
proof (induction ticks arbitrary: w)
  case (Cons now ticks)
  then show ?case by (cases "sdio_io_readb H (func0 f) SDIO_REG_CCCR_IO_RDY w") (auto split: if_splits, metis)
qed simp

subsection \<open>Properties\<close>

text \<open>
  C15: Transfers are exact. On a card that executes command 53 as the SDIO specification lays out its argument, writing a buffer
  of any length that ends within the register space succeeds and stores exactly its bytes, each once and at its address, whatever mixture of block and byte
  commands the limits of controller and function lead to; reading the range gives the buffer back. No assertion of the layer fails.
\<close>

theorem sdio_transfer_exact:
  assumes "sd_ops_request H = mem_request" "limits_ok H f" "unat addr + length buf \<le> 0x20000"
  shows "\<exists>m'. sdio_io_write_multi_incr_b H f addr buf m = Some (0, m') \<and>
    (\<forall>x. m' x = (if unat addr \<le> x \<and> x < unat addr + length buf then buf ! (x - unat addr) else m x)) \<and>
    sdio_io_read_multi_incr_b H f addr (length buf) m' = Some (0, buf, m')"
proof -
  let ?m = "store m (unat addr) buf"
  have "moved False ?m (unat addr) (length buf) [] = (buf, ?m)" by (simp add: moved_def fetch_store)
  from extended_block_mem [OF assms(1-3) _ this] have "sdio_io_read_multi_incr_b H f addr (length buf) ?m = Some (0, buf, ?m)"
    by (simp add: sdio_io_read_multi_incr_b_def)
  then show ?thesis using write_multi_mem [OF assms, of m] by (auto simp: store_def)
qed

definition sample_sd :: "(nat \<Rightarrow> u8) sd_host" where
  "sample_sd = \<lparr> sd_ops_request = mem_request, is_spi = False, max_seg_size = 65536, max_blk_size = 512, max_blk_count = 64 \<rparr>"

definition sample_function :: sdio_function where
  "sample_function = \<lparr> func_num = 1, func_max_blk = 512, cur_blk_size = 512, enable_timeout_val = 100, irq_handler = None, multi_block = True \<rparr>"

lemma sample_limits: "sd_ops_request sample_sd = mem_request" "limits_ok sample_sd sample_function"
  by (simp_all add: sample_sd_def sample_function_def limits_ok_def sdio_max_block_size_def)

theorem sdio_transfer_exact_witness:
  "\<exists>m'. sdio_io_write_multi_incr_b sample_sd sample_function 0x1f000 (replicate 1300 7) (\<lambda>_. 0) = Some (0, m') \<and> m' 0x1f500 = 7 \<and>
     sdio_io_read_multi_incr_b sample_sd sample_function 0x1f000 1300 m' = Some (0, replicate 1300 7, m')"
  using sdio_transfer_exact [OF sample_limits, of "0x1f000" "replicate 1300 7" "\<lambda>_. 0"] by auto

text \<open>The frame as the transport hands it on: padded to whole blocks, in one call.\<close>

lemma frame_as_blocks:
  assumes t: "wait_for_token E t = (RT_EOK, t1)" "length (staging t) = 4096"
    and frame: "len \<noteq> 0" "len \<le> WLH_RTT_SDIO_MAX_FRAME" "length frame = unat len"
  shows "\<exists>k. 0 < k \<and> k \<le> 8 \<and> unat len \<le> k * 512 \<and> k * 512 < unat len + 512 \<and> unat (wlh_rtt_sdio_window_address len) + k * 512 \<le> 0x20000 \<and>
    (\<forall>rc w. bus_write_multi E (wlh_rtt_sdio_window_address len) (frame @ replicate (k * 512 - unat len) 0) (bus t1) = (rc, w) \<longrightarrow>
      (\<exists>t'. write_frame E frame len t = (rc, t') \<and> bus t' = w))"
proof -
  let ?p = "wlh_rtt_sdio_padded_size len"
  have p0: "?p \<noteq> 0" using frame(1,2) by (auto simp: padded_size_0)
  note W = window_args [OF p0] and B = padded_size_bounds [OF frame(1,2)]
  define k where "k = unat ?p div 512"
  have k: "unat ?p = k * 512" "k \<le> 8" using B(3) W(2) by (simp_all add: k_def)
  have "0 < unat len" using frame(1) by (simp add: unat_gt_0)
  then have k0: "0 < k" using B(1) k(1) by (cases k) auto
  have st: "staging t1 = staging t" using t(1) by (auto elim: wait_for_token_state)
  have sb: "take (unat ?p) (blit (blit (staging t1) 0 (replicate (unat ?p) 0)) 0 (take (unat len) frame)) = frame @ replicate (k * 512 - unat len) 0"
    using staged_bytes [of frame "unat len" "unat ?p" "staging t1"] W t(2) st frame(3) k(1) by simp
  have "\<exists>t'. write_frame E frame len t = (rc, t') \<and> bus t' = w"
    if "bus_write_multi E (wlh_rtt_sdio_window_address len) (frame @ replicate (k * 512 - unat len) 0) (bus t1) = (rc, w)" for rc w
    using p0 t(1) sb that by (simp add: write_frame_def Let_def)
  then show ?thesis using k k0 B W(4) by (intro exI [of _ k]) auto
qed

text \<open>A card that also records the requests it gets.\<close>

definition logged :: "sd_request \<Rightarrow> sd_request list \<times> (nat \<Rightarrow> u8) \<Rightarrow> sd_response \<times> sd_request list \<times> (nat \<Rightarrow> u8)" where
  "logged rq w = (fst (mem_request rq (snd w)), fst w @ [rq], snd (mem_request rq (snd w)))"

lemma extended_logged:
  assumes H: "sd_ops_request H = logged" and fn: "unat fn < 2 ^ 3" and rng: "unat addr + blocks * blksize \<le> 0x20000"
    and n: "0 < blocks" "blocks < 2 ^ 9" "0 < blksize" "blocks = 1 \<longrightarrow> blksize \<le> 512" and buf: "length buf = blocks * blksize"
  shows "sdio_io_rw_extended H True fn addr True buf blocks blksize w =
    Some (0, [], fst w @ [\<lparr> sq_code = 53, sq_arg = cmd53_arg True fn True addr blocks blksize, sq_write = True, sq_blks = blocks, sq_blksize = blksize,
      sq_out = buf \<rparr>], store (snd w) (unat addr) buf)"
proof -
  let ?rq = "\<lparr> sq_code = 53, sq_arg = cmd53_arg True fn True addr blocks blksize, sq_write = True, sq_blks = blocks, sq_blksize = blksize, sq_out = buf \<rparr>"
  let ?M = "\<lparr> sd_ops_request = mem_request, is_spi = is_spi H, max_seg_size = 0, max_blk_size = 0, max_blk_count = 0 \<rparr>"
  have m: "sdio_io_rw_extended ?M True fn addr True buf blocks blksize (snd w) = Some (0, [], store (snd w) (unat addr) buf)"
    using extended_mem [of ?M fn addr blocks blksize True buf "snd w"] fn rng n buf by simp
  have send: "mmcsd_send_request H rq 0 w = logged rq w" "mmcsd_send_request ?M rq 0 m = mem_request rq m" for rq m
    by (subst mmcsd_send_request.simps, simp add: H case_prod_beta)+
  have r5: "r5_result ?M v = r5_result H v" for v by (simp add: r5_result_def)
  have tk: "take (blocks * blksize) buf = buf" using buf by simp
  show ?thesis using m unfolding sdio_io_rw_extended_def send r5 if_True tk
    by (auto simp: logged_def case_prod_beta Let_def split: if_splits)
qed

text \<open>
  C7: A frame reaches the coprocessor. If the transport's bus is this layer, on a function with blocks of 512 bytes and a card that executes command 53 and records what it
  gets, then after the wait for a token a frame of 1 to 4092 bytes
  makes exactly one request: a command 53 that writes to the function, at an incrementing address and \<open>len\<close> bytes below 0x1f800, the frame padded with zeros to whole blocks, in
  block mode with as many blocks as the padded frame has, or in byte mode with 512 bytes for a single one. It succeeds, and the bytes that end at 0x1f800 are the frame.
\<close>

theorem frame_reaches_card:
  assumes H: "sd_ops_request H = logged" "unat (func_num f) < 8" "multi_block f" "cur_blk_size f = 512" "8 \<le> max_blk_count H"
      "4096 \<le> max_seg_size H" "512 \<le> max_blk_size H" "512 \<le> func_max_blk f"
    and E: "\<forall>a b w r. sdio_io_write_multi_incr_b H f a b w = Some r \<longrightarrow> bus_write_multi E a b w = r"
    and t: "wait_for_token E t = (RT_EOK, t1)" "length (staging t) = 4096"
    and frame: "len \<noteq> 0" "len \<le> WLH_RTT_SDIO_MAX_FRAME" "length frame = unat len"
  shows "\<exists>rq t'. write_frame E frame len t = (RT_EOK, t') \<and> fst (bus t') = fst (bus t1) @ [rq] \<and>
    sq_code rq = 53 \<and> sq_write rq \<and> arg_write (sq_arg rq) \<and> arg_incr (sq_arg rq) \<and> arg_fn (sq_arg rq) = func_num f \<and>
    unat (arg_addr (sq_arg rq)) = 0x1f800 - unat len \<and> (arg_block_mode (sq_arg rq) \<longleftrightarrow> sq_blks rq \<noteq> 1) \<and> arg_length (sq_arg rq) 512 = sq_blks rq * 512 \<and>
    sq_blksize rq = 512 \<and> unat len \<le> sq_blks rq * 512 \<and> sq_blks rq * 512 < unat len + 512 \<and>
    sq_out rq = frame @ replicate (sq_blks rq * 512 - unat len) 0 \<and> fetch (snd (bus t')) (0x1f800 - unat len) (unat len) = frame"
proof -
  let ?a = "wlh_rtt_sdio_window_address len"
  obtain k where k: "0 < k" "k \<le> 8" "unat len \<le> k * 512" "k * 512 < unat len + 512" "unat ?a + k * 512 \<le> 0x20000"
    and wf: "\<And>rc w. bus_write_multi E ?a (frame @ replicate (k * 512 - unat len) 0) (bus t1) = (rc, w) \<Longrightarrow>
      \<exists>t'. write_frame E frame len t = (rc, t') \<and> bus t' = w" using frame_as_blocks [OF t frame] by blast
  let ?bytes = "frame @ replicate (k * 512 - unat len) 0" and ?arg = "cmd53_arg True (func_num f) True ?a k 512"
  let ?rq = "\<lparr> sq_code = 53, sq_arg = ?arg, sq_write = True, sq_blks = k, sq_blksize = 512, sq_out = ?bytes \<rparr>"
  have lb: "length ?bytes = k * 512" using frame(3) k(3) by simp
  have a: "unat ?a = 0x1f800 - unat len" by (rule unat_window_address [OF frame(1,2)])
  let ?w = "(fst (bus t1) @ [?rq], store (snd (bus t1)) (unat ?a) ?bytes)"
  have "sdio_io_rw_extended H True (func_num f) ?a True ?bytes k 512 (bus t1) = Some (0, [], ?w)"
    using extended_logged [OF H(1) _ _ _ _ _ _ lb, of "func_num f" ?a "bus t1"] H(2) k by simp
  then have "sdio_io_write_multi_incr_b H f ?a ?bytes (bus t1) = Some (0, ?w)"
    unfolding sdio_io_write_multi_incr_b_def lb blocks_single_command [OF H(3,4) k(1,2) H(5-8)] by simp
  then obtain t' where t': "write_frame E frame len t = (RT_EOK, t')" "bus t' = ?w" using E wf by blast
  have c: "unat (func_num f) < 2 ^ 3" "unat ?a < 2 ^ 17" "k < 2 ^ 9" using k(1,2,5) H(2) by simp_all
  note F = cmd53_fields [OF c k(1), of 512 True True] cmd53_length [OF c k(1), of 512 True True]
  have "fetch (store (snd (bus t1)) (unat ?a) ?bytes) (unat ?a) (unat len) = frame"
  proof -
    have "fetch (store (snd (bus t1)) (unat ?a) ?bytes) (unat ?a) (k * 512) = ?bytes" using fetch_store [of "snd (bus t1)" "unat ?a" ?bytes] lb by simp
    moreover have "k * 512 = unat len + (k * 512 - unat len)" using k(3) by simp
    ultimately have "fetch (store (snd (bus t1)) (unat ?a) ?bytes) (unat ?a) (unat len) @
        fetch (store (snd (bus t1)) (unat ?a) ?bytes) (unat ?a + unat len) (k * 512 - unat len) = ?bytes"
      using fetch_append by metis
    then show ?thesis using frame(3) by (simp add: fetch_def append_eq_append_conv)
  qed
  then show ?thesis using k t' a F by (intro exI [of _ ?rq] exI [of _ t']) simp
qed

definition sample_logged_sd :: "(sd_request list \<times> (nat \<Rightarrow> u8)) sd_host" where
  "sample_logged_sd = \<lparr> sd_ops_request = logged, is_spi = False, max_seg_size = 65536, max_blk_size = 512, max_blk_count = 64 \<rparr>"

definition sample_card_env :: "(sd_request list \<times> (nat \<Rightarrow> u8), unit) sdio_env" where
  "sample_card_env = \<lparr> frame_header_size = 16, frame_ok = (\<lambda>_ _. True), host_ok = 0,
     host_input = (\<lambda>_ h. (0, h)), host_link_lost = (\<lambda>h. h),
     bus_readl = (\<lambda>a w. (0, 0x50000, w)), bus_writel = (\<lambda>_ _ w. (0, w)),
     bus_write_multi = (\<lambda>a b w. the (sdio_io_write_multi_incr_b sample_logged_sd sample_function a b w)),
     bus_read_multi = (\<lambda>_ n w. (0, replicate n 7, w)), bus_enable_func = (\<lambda>w. (0, w)),
     bus_set_block_size = (\<lambda>_ w. (0, w)), bus_attach_irq = (\<lambda>w. (0, w)) \<rparr>"

definition sample_card_transport :: "(sd_request list \<times> (nat \<Rightarrow> u8), unit) wlh_sdio_transport" where
  "sample_card_transport = (transport_zero () ([], \<lambda>_. 0) [])\<lparr> t_running := True, staging := replicate 4096 0 \<rparr>"

theorem frame_reaches_card_witness:
  "\<exists>rq t'. write_frame sample_card_env (replicate 600 9) 600 sample_card_transport = (RT_EOK, t') \<and> fst (bus t') = [rq] \<and> sq_blks rq = 2 \<and>
     fetch (snd (bus t')) (0x1f800 - 600) 600 = replicate 600 9"
proof -
  have n: "200 = Suc 199" by simp
  have tok: "\<exists>t1. wait_for_token sample_card_env sample_card_transport = (RT_EOK, t1) \<and> bus t1 = ([], \<lambda>_. 0)"
    unfolding wait_for_token_def n token_loop.simps
    by (simp add: read_register_def sample_card_env_def sample_card_transport_def transport_zero_def wlh_rtt_sdio_available_tokens_def Let_def)
  then obtain t1 where t1: "wait_for_token sample_card_env sample_card_transport = (RT_EOK, t1)" "bus t1 = ([], \<lambda>_. 0)" by blast
  have E: "\<forall>a b w r. sdio_io_write_multi_incr_b sample_logged_sd sample_function a b w = Some r \<longrightarrow> bus_write_multi sample_card_env a b w = r"
    by (simp add: sample_card_env_def)
  have l: "length (staging sample_card_transport) = 4096" by (simp add: sample_card_transport_def)
  have H: "sd_ops_request sample_logged_sd = logged" "unat (func_num sample_function) < 8" "multi_block sample_function" "cur_blk_size sample_function = 512"
    "8 \<le> max_blk_count sample_logged_sd" "4096 \<le> max_seg_size sample_logged_sd" "512 \<le> max_blk_size sample_logged_sd" "512 \<le> func_max_blk sample_function"
    by (simp_all add: sample_logged_sd_def sample_function_def)
  obtain rq t' where r: "write_frame sample_card_env (replicate 600 9) 600 sample_card_transport = (RT_EOK, t')" "fst (bus t') = [rq]"
    "600 \<le> sq_blks rq * 512" "sq_blks rq * 512 < 600 + 512" "fetch (snd (bus t')) (0x1f800 - 600) 600 = replicate 600 9"
    using frame_reaches_card [OF H E t1(1) l, of 600 "replicate 600 9"] t1(2) by auto
  have "sq_blks rq = 2" using r(3,4) by simp
  then show ?thesis using r by blast
qed

end
