(* ===== verification/Sdxc.thy ===== *)
theory Sdxc
  imports Sdio_Core
begin

text \<open>
  The part of the SDXC controller driver that the board's SDIO driver calls, packages/hpm_sdk-v1.10.0/drivers/src/hpm_sdxc_drv.c: the words
  written to the command registers, the DMA descriptors of a transfer, the reading of status and responses. The controller itself, with the card
  and the DMA behind it, is the parameter \<open>sdxc_hw\<close>: its operations act on the memory the DMA sees and on a state \<open>'w\<close>.
  Reading the status may find the transfer further on. With it come the services of the kernel that the driver waits with. Registers that nothing here
  depends on are left out.
\<close>

subsection \<open>Registers\<close>

abbreviation (input) SDXC_INT_STAT_CMD_COMPLETE_MASK :: u32 where "SDXC_INT_STAT_CMD_COMPLETE_MASK \<equiv> 0x1"
abbreviation (input) SDXC_INT_STAT_XFER_COMPLETE_MASK :: u32 where "SDXC_INT_STAT_XFER_COMPLETE_MASK \<equiv> 0x2"
abbreviation (input) SDXC_INT_STAT_CARD_REMOVAL_MASK :: u32 where "SDXC_INT_STAT_CARD_REMOVAL_MASK \<equiv> 0x80"
abbreviation (input) SDXC_INT_STAT_CARD_INTERRUPT_MASK :: u32 where "SDXC_INT_STAT_CARD_INTERRUPT_MASK \<equiv> 0x100"
abbreviation (input) SDXC_INT_STAT_ERR_INTERRUPT_MASK :: u32 where "SDXC_INT_STAT_ERR_INTERRUPT_MASK \<equiv> 0x8000"

text \<open>\<open>SDXC_STS_ERROR\<close>: the error summary, the errors of commands, of data, and the removal of the card.\<close>

abbreviation (input) SDXC_STS_ERROR :: u32 where
  "SDXC_STS_ERROR \<equiv> 0x8000 OR (0x10000 OR 0x20000 OR 0x40000 OR 0x80000 OR 0x1000000 OR 0x8000000)
     OR (0x100000 OR 0x200000 OR 0x400000 OR 0x2000000) OR 0x80"

abbreviation (input) CMD_TYPE_MASK :: u32 where "CMD_TYPE_MASK \<equiv> 0xC00000"
abbreviation (input) DATA_PRESENT_SEL_MASK :: u32 where "DATA_PRESENT_SEL_MASK \<equiv> 0x200000"
abbreviation (input) CMD_IDX_CHK_ENABLE_MASK :: u32 where "CMD_IDX_CHK_ENABLE_MASK \<equiv> 0x100000"
abbreviation (input) CMD_CRC_CHK_ENABLE_MASK :: u32 where "CMD_CRC_CHK_ENABLE_MASK \<equiv> 0x80000"
abbreviation (input) RESP_TYPE_SELECT_MASK :: u32 where "RESP_TYPE_SELECT_MASK \<equiv> 0x30000"
abbreviation (input) RESP_INT_DISABLE_MASK :: u32 where "RESP_INT_DISABLE_MASK \<equiv> 0x100"
abbreviation (input) RESP_ERR_CHK_ENABLE_MASK :: u32 where "RESP_ERR_CHK_ENABLE_MASK \<equiv> 0x80"
abbreviation (input) RESP_TYPE_MASK :: u32 where "RESP_TYPE_MASK \<equiv> 0x40"
abbreviation (input) MULTI_BLK_SEL_MASK :: u32 where "MULTI_BLK_SEL_MASK \<equiv> 0x20"
abbreviation (input) DATA_XFER_DIR_MASK :: u32 where "DATA_XFER_DIR_MASK \<equiv> 0x10"
abbreviation (input) AUTO_CMD_ENABLE_MASK :: u32 where "AUTO_CMD_ENABLE_MASK \<equiv> 0xC"
abbreviation (input) BLOCK_COUNT_ENABLE_MASK :: u32 where "BLOCK_COUNT_ENABLE_MASK \<equiv> 0x2"
abbreviation (input) DMA_ENABLE_MASK :: u32 where "DMA_ENABLE_MASK \<equiv> 0x1"

datatype hpm_stat =
  status_success | status_fail | status_invalid_argument | status_timeout
| status_sdxc_error | status_sdxc_send_cmd_failed | status_sdxc_cmd_timeout_error | status_sdxc_cmd_crc_error | status_sdxc_cmd_end_bit_error
| status_sdxc_cmd_index_error | status_sdxc_data_timeout_error | status_sdxc_data_crc_error | status_sdxc_data_end_bit_error
| status_sdxc_auto_cmd_error | status_sdxc_adma_error | status_sdxc_tuning_error | status_sdxc_response_error | status_sdxc_boot_ack_error
| status_sdxc_autocmd_cmd12_not_exec | status_sdxc_autocmd_cmd_timeout_error | status_sdxc_autocmd_cmd_crc_error
| status_sdxc_autocmd_end_bit_error | status_sdxc_autocmd_cmd_index_error | status_sdxc_autocmd_cmd_response_error
| status_sdxc_autocmd_cmd_not_issued_auto_cmd12 | status_sdxc_card_removed | status_sdxc_dma_addr_or_len_unaligned
| status_sdxc_adma_table_not_enough | status_sdxc_xfer_size_exceeds_max_limit

datatype sdxc_resp = resp_none | resp_r1 | resp_r1b | resp_r2 | resp_r3 | resp_r4 | resp_r5 | resp_r5b | resp_r6 | resp_r7

datatype sdxc_cmd_type = cmd_type_normal | cmd_type_suspend | cmd_type_resume | cmd_type_abort | cmd_type_empty

record sdxc_command =
  cmd_index :: u32
  cmd_argument :: u32
  cmd_type :: sdxc_cmd_type
  resp_type :: sdxc_resp
  cmd_flags :: u32
  resp_error_flags :: u32
  response :: "u32 list"

text \<open>A transfer without a data list.\<close>

record sdxc_data =
  block_size :: u32
  block_cnt :: u32
  tx_data :: "u32 option"
  rx_data :: "u32 option"
  enable_auto_cmd12 :: bool
  enable_auto_cmd23 :: bool

text \<open>The descriptor of a piece of memory, with its bit fields, and the descriptor of a command.\<close>

record adma2_desc =
  d_valid :: bool
  d_end :: bool
  d_act :: nat
  len_upper :: u32
  len_lower :: u32
  d_addr :: u32

record adma3_desc =
  desc_block_cnt :: u32
  desc_block_size :: u32
  desc_arg :: u32
  desc_cmd_xfer :: u32
  desc_data :: adma2_desc

type_synonym ram = "u32 \<Rightarrow> u8"

record 'w sdxc_hw =
  get_INT_STAT :: "ram \<times> 'w \<Rightarrow> u32 \<times> ram \<times> 'w"
  clear_INT_STAT :: "u32 \<Rightarrow> 'w \<Rightarrow> 'w"
  get_AC_HOST_CTRL :: "'w \<Rightarrow> u32"
  get_CMD_XFER :: "'w \<Rightarrow> u32"
  get_RESP :: "'w \<Rightarrow> nat \<Rightarrow> u32"
  get_PSTATE :: "'w \<Rightarrow> u32"
  put_command :: "u32 \<Rightarrow> u32 \<Rightarrow> ram \<times> 'w \<Rightarrow> ram \<times> 'w"
  put_adma3 :: "adma3_desc \<Rightarrow> ram \<times> 'w \<Rightarrow> ram \<times> 'w"
  reset_cmd_line :: "'w \<Rightarrow> 'w"
  reset_data_line :: "'w \<Rightarrow> 'w"
  rt_tick_get :: "'w \<Rightarrow> u32 \<times> 'w"
  rt_event_recv :: "u32 \<Rightarrow> ram \<times> 'w \<Rightarrow> int \<times> ram \<times> 'w"
  rt_thread_mdelay :: "nat \<Rightarrow> ram \<times> 'w \<Rightarrow> ram \<times> 'w"

subsection \<open>Status and responses\<close>

definition autocmd_status :: "u32 \<Rightarrow> hpm_stat" where
  "autocmd_status ac =
   (if ac AND 0x1 \<noteq> 0 then status_sdxc_autocmd_cmd12_not_exec
    else if ac AND 0x2 \<noteq> 0 then status_sdxc_autocmd_cmd_timeout_error
    else if ac AND 0x4 \<noteq> 0 then status_sdxc_autocmd_cmd_crc_error
    else if ac AND 0x10 \<noteq> 0 then status_sdxc_autocmd_cmd_index_error
    else if ac AND 0x8 \<noteq> 0 then status_sdxc_autocmd_end_bit_error
    else if ac AND 0x20 \<noteq> 0 then status_sdxc_autocmd_cmd_response_error
    else if ac AND 0x80 \<noteq> 0 then status_sdxc_autocmd_cmd_not_issued_auto_cmd12
    else status_sdxc_auto_cmd_error)"

definition parse_status :: "u32 \<Rightarrow> u32 \<Rightarrow> hpm_stat" where
  "parse_status interrupt_status ac_host_ctrl =
   (if interrupt_status AND SDXC_STS_ERROR \<noteq> 0
    then
      if interrupt_status AND 0x10000 \<noteq> 0 then status_sdxc_cmd_timeout_error
      else if interrupt_status AND 0x20000 \<noteq> 0 then status_sdxc_cmd_crc_error
      else if interrupt_status AND 0x40000 \<noteq> 0 then status_sdxc_cmd_end_bit_error
      else if interrupt_status AND 0x80000 \<noteq> 0 then status_sdxc_cmd_index_error
      else if interrupt_status AND 0x100000 \<noteq> 0 then status_sdxc_data_timeout_error
      else if interrupt_status AND 0x200000 \<noteq> 0 then status_sdxc_data_crc_error
      else if interrupt_status AND 0x400000 \<noteq> 0 then status_sdxc_data_end_bit_error
      else if interrupt_status AND 0x2000000 \<noteq> 0 then status_sdxc_adma_error
      else if interrupt_status AND 0x4000000 \<noteq> 0 then status_sdxc_tuning_error
      else if interrupt_status AND 0x8000000 \<noteq> 0 then status_sdxc_response_error
      else if interrupt_status AND 0x10000000 \<noteq> 0 then status_sdxc_boot_ack_error
      else if interrupt_status AND SDXC_INT_STAT_CARD_REMOVAL_MASK \<noteq> 0 then status_sdxc_card_removed
      else if interrupt_status AND 0x1000000 \<noteq> 0 then autocmd_status (ac_host_ctrl AND 0xFFFF)
      else status_sdxc_error
    else status_success)"

definition sdxc_parse_interrupt_status :: "'w sdxc_hw \<Rightarrow> ram \<times> 'w \<Rightarrow> hpm_stat \<times> ram \<times> 'w" where
  "sdxc_parse_interrupt_status D s =
   (let (interrupt_status, s) = get_INT_STAT D s in (parse_status interrupt_status (get_AC_HOST_CTRL D (snd s)), s))"

definition sdxc_receive_cmd_response :: "'w sdxc_hw \<Rightarrow> sdxc_command \<Rightarrow> 'w \<Rightarrow> hpm_stat \<times> sdxc_command" where
  "sdxc_receive_cmd_response D cmd w =
   (let r = get_RESP D w;
        cmd = (if resp_type cmd = resp_none then cmd
               else if resp_type cmd = resp_r2
               then cmd\<lparr> response := [push_bit 8 (r 0), push_bit 8 (r 1) OR drop_bit 24 (r 0), push_bit 8 (r 2) OR drop_bit 24 (r 1),
                                     push_bit 8 (r 3) OR drop_bit 24 (r 2)] \<rparr>
               else cmd\<lparr> response := (response cmd)[0 := r 0] \<rparr>)
    in (if resp_error_flags cmd \<noteq> 0 \<and> resp_type cmd \<in> {resp_r1, resp_r1b, resp_r6, resp_r5} \<and>
           resp_error_flags cmd AND response cmd ! 0 \<noteq> 0
        then status_sdxc_send_cmd_failed else status_success, cmd))"

subsection \<open>Commands and transfers\<close>

definition sdxc_prepare_cmd_xfer :: "sdxc_command \<Rightarrow> u32" where
  "sdxc_prepare_cmd_xfer cmd =
   (let check = CMD_CRC_CHK_ENABLE_MASK OR CMD_IDX_CHK_ENABLE_MASK;
        flags = (if cmd_type cmd \<noteq> cmd_type_empty
                 then let flags = cmd_flags cmd AND NOT RESP_TYPE_SELECT_MASK;
                          flags = flags OR (case resp_type cmd of
                              resp_r1 \<Rightarrow> push_bit 16 2 OR check | resp_r5 \<Rightarrow> push_bit 16 2 OR check
                            | resp_r6 \<Rightarrow> push_bit 16 2 OR check | resp_r7 \<Rightarrow> push_bit 16 2 OR check
                            | resp_r1b \<Rightarrow> push_bit 16 3 OR check | resp_r5b \<Rightarrow> push_bit 16 3 OR check
                            | resp_r2 \<Rightarrow> push_bit 16 1 OR CMD_CRC_CHK_ENABLE_MASK
                            | resp_r3 \<Rightarrow> push_bit 16 2 | resp_r4 \<Rightarrow> push_bit 16 2
                            | resp_none \<Rightarrow> 0)
                      in if flags AND RESP_ERR_CHK_ENABLE_MASK \<noteq> 0 then flags OR RESP_INT_DISABLE_MASK else flags
                 else cmd_flags cmd);
        flags = flags OR (case cmd_type cmd of
            cmd_type_abort \<Rightarrow> push_bit 22 3 | cmd_type_suspend \<Rightarrow> push_bit 22 1 | cmd_type_resume \<Rightarrow> push_bit 22 2
          | cmd_type_normal \<Rightarrow> 0 | cmd_type_empty \<Rightarrow> 0)
    in (push_bit 24 (cmd_index cmd) AND 0x3F000000) OR
       (flags AND (CMD_TYPE_MASK OR CMD_CRC_CHK_ENABLE_MASK OR CMD_IDX_CHK_ENABLE_MASK OR RESP_TYPE_SELECT_MASK OR DATA_PRESENT_SEL_MASK OR
          DMA_ENABLE_MASK OR DATA_XFER_DIR_MASK OR AUTO_CMD_ENABLE_MASK OR MULTI_BLK_SEL_MASK OR BLOCK_COUNT_ENABLE_MASK OR
          RESP_TYPE_MASK OR RESP_ERR_CHK_ENABLE_MASK)))"

definition sdxc_send_command :: "'w sdxc_hw \<Rightarrow> sdxc_command \<Rightarrow> ram \<times> 'w \<Rightarrow> ram \<times> 'w" where
  "sdxc_send_command D cmd s =
   put_command D (cmd_argument cmd) (sdxc_prepare_cmd_xfer cmd) (fst s, clear_INT_STAT D (NOT 0) (snd s))"

text \<open>The flags of the transfer; those of the last command that are not cleared here stay.\<close>

definition sdxc_set_transfer_config :: "u32 \<Rightarrow> sdxc_data \<Rightarrow> u32" where
  "sdxc_set_transfer_config last_xfer data =
   (let flags = last_xfer AND NOT (MULTI_BLK_SEL_MASK OR BLOCK_COUNT_ENABLE_MASK OR DATA_PRESENT_SEL_MASK OR DATA_XFER_DIR_MASK OR
          AUTO_CMD_ENABLE_MASK OR RESP_TYPE_SELECT_MASK OR DMA_ENABLE_MASK);
        flags = (if rx_data data \<noteq> None then flags OR DATA_XFER_DIR_MASK else flags);
        flags = (if block_cnt data > 1
                 then flags OR MULTI_BLK_SEL_MASK OR BLOCK_COUNT_ENABLE_MASK OR (if enable_auto_cmd12 data then push_bit 2 1 else 0)
                 else flags)
    in if enable_auto_cmd23 data then flags OR push_bit 2 2 else flags)"

definition sdxc_set_adma2_desc :: "u32 \<Rightarrow> sdxc_data \<Rightarrow> hpm_stat + adma2_desc" where
  "sdxc_set_adma2_desc table_words data =
   (let data_bytes = block_cnt data * block_size data;
        data_buf = (case tx_data data of Some a \<Rightarrow> a | None \<Rightarrow> (case rx_data data of Some a \<Rightarrow> a | None \<Rightarrow> 0))
    in if table_words < 2 then Inl status_sdxc_adma_table_not_enough
       else if data_bytes > 512 * 1024 then Inl status_sdxc_xfer_size_exceeds_max_limit
       else if data_buf mod 4 \<noteq> 0 \<or> data_bytes mod 4 \<noteq> 0 then Inl status_sdxc_dma_addr_or_len_unaligned
       else Inr \<lparr> d_valid = True, d_end = True, d_act = 4, len_upper = drop_bit 16 data_bytes AND 0x3FF,
                  len_lower = data_bytes AND 0xFFFF, d_addr = data_buf \<rparr>)"

text \<open>The list of transfers has one element.\<close>

definition sdxc_set_adma3_desc :: "u32 \<Rightarrow> sdxc_command \<Rightarrow> sdxc_data \<Rightarrow> hpm_stat + adma3_desc" where
  "sdxc_set_adma3_desc table_words cmd data =
   (if table_words < 12 then Inl status_sdxc_adma_table_not_enough
    else case sdxc_set_adma2_desc (table_words - 2) data of
      Inl st \<Rightarrow> Inl st
    | Inr d2 \<Rightarrow>
        let cmd_xfer = sdxc_prepare_cmd_xfer cmd OR RESP_ERR_CHK_ENABLE_MASK OR RESP_INT_DISABLE_MASK;
            cmd_xfer = (if resp_type cmd = resp_r5 then cmd_xfer OR RESP_TYPE_MASK else cmd_xfer);
            cmd_xfer = (if enable_auto_cmd12 data \<or> enable_auto_cmd23 data then cmd_xfer OR push_bit 2 3 else cmd_xfer)
        in Inr \<lparr> desc_block_cnt = block_cnt data, desc_block_size = block_size data, desc_arg = cmd_argument cmd,
                 desc_cmd_xfer = cmd_xfer, desc_data = d2 \<rparr>)"

text \<open>\<open>sdxc_transfer_nonblocking\<close> with data, by ADMA3: the address of the descriptor starts the transfer.\<close>

definition sdxc_transfer_nonblocking ::
  "'w sdxc_hw \<Rightarrow> u32 \<Rightarrow> sdxc_command \<Rightarrow> sdxc_data \<Rightarrow> ram \<times> 'w \<Rightarrow> hpm_stat \<times> sdxc_command \<times> ram \<times> 'w" where
  "sdxc_transfer_nonblocking D table_words cmd data s =
   (let flags = (cmd_flags cmd AND NOT (DMA_ENABLE_MASK OR DATA_PRESENT_SEL_MASK OR DMA_ENABLE_MASK)) OR DATA_PRESENT_SEL_MASK OR DMA_ENABLE_MASK;
        cmd = cmd\<lparr> cmd_flags := flags OR sdxc_set_transfer_config (get_CMD_XFER D (snd s)) data \<rparr>
    in case sdxc_set_adma3_desc table_words cmd data of
         Inl st \<Rightarrow> (st, cmd, s)
       | Inr desc \<Rightarrow> (status_success, cmd, put_adma3 D desc s))"

end
