(* ===== verification/Dcache.thy ===== *)
theory Dcache
  imports Sdxc
begin

text \<open>
  The memory as the processor and the DMA see it, with the data cache between them, and the cache commands of
  packages/hpm_sdk-v1.10.0/arch/riscv/l1c/hpm_l1c_drv.c. A flush changes nothing the processor sees and brings a range to memory; invalidating
  a range of whole lines changes what the processor sees in that range only.
\<close>

abbreviation (input) CACHELINE_SIZE :: u32 where "CACHELINE_SIZE \<equiv> 64"

subsection \<open>Loads, stores and cache commands\<close>

text \<open>
  A cached byte is dirty or clean. Which addresses bypass the cache, and which stores allocate a line, are properties of the memory map.
  \<open>req_done\<close> counts the calls of \<open>mmcsd_req_complete\<close>.
\<close>

record mem_map =
  uncached :: "u32 \<Rightarrow> bool"
  allocates :: "u32 \<Rightarrow> bool"

record 'w machine =
  main_ram :: ram
  dcache :: "u32 \<rightharpoonup> bool \<times> u8"
  dev :: 'w
  req_done :: nat

definition cpu_view :: "'w machine \<Rightarrow> u32 \<Rightarrow> u8" where
  "cpu_view m a = (case dcache m a of Some (_, v) \<Rightarrow> v | None \<Rightarrow> main_ram m a)"

definition cpu_load :: "u32 \<Rightarrow> nat \<Rightarrow> 'w machine \<Rightarrow> u8 list" where
  "cpu_load a n m = map (\<lambda>i. cpu_view m (a + of_nat i)) [0..<n]"

definition cpu_put :: "mem_map \<Rightarrow> u32 \<Rightarrow> u8 \<Rightarrow> 'w machine \<Rightarrow> 'w machine" where
  "cpu_put A a v m =
   (if \<not> uncached A a \<and> (dcache m a \<noteq> None \<or> allocates A a)
    then m\<lparr> dcache := (dcache m)(a \<mapsto> (True, v)) \<rparr> else m\<lparr> main_ram := (main_ram m)(a := v) \<rparr>)"

fun cpu_store :: "mem_map \<Rightarrow> u32 \<Rightarrow> u8 list \<Rightarrow> 'w machine \<Rightarrow> 'w machine" where
  "cpu_store A a [] m = m"
| "cpu_store A a (v # vs) m = cpu_store A (a + 1) vs (cpu_put A a v m)"

definition line_of :: "u32 \<Rightarrow> u32" where
  "line_of a = a AND NOT 63"

text \<open>The cache commands on the line of an address: write back and invalidate, or invalidate.\<close>

definition wbinval_line :: "u32 \<Rightarrow> 'w machine \<Rightarrow> 'w machine" where
  "wbinval_line a m = m\<lparr>
     main_ram := (\<lambda>x. if line_of x = line_of a then (case dcache m x of Some (True, v) \<Rightarrow> v | _ \<Rightarrow> main_ram m x) else main_ram m x),
     dcache := (\<lambda>x. if line_of x = line_of a then None else dcache m x) \<rparr>"

definition inval_line :: "u32 \<Rightarrow> 'w machine \<Rightarrow> 'w machine" where
  "inval_line a m = m\<lparr> dcache := (\<lambda>x. if line_of x = line_of a then None else dcache m x) \<rparr>"

text \<open>\<open>l1c_op\<close> after the assertions of its callers.\<close>

definition l1c_op :: "(u32 \<Rightarrow> 'w machine \<Rightarrow> 'w machine) \<Rightarrow> u32 \<Rightarrow> u32 \<Rightarrow> 'w machine \<Rightarrow> 'w machine option" where
  "l1c_op f address sz m =
   (if address mod CACHELINE_SIZE \<noteq> 0 \<or> sz mod CACHELINE_SIZE \<noteq> 0 then None
    else Some (fold (\<lambda>i. f (address + of_nat i * CACHELINE_SIZE)) [0..<unat sz div 64] m))"

definition l1c_dc_flush :: "u32 \<Rightarrow> u32 \<Rightarrow> 'w machine \<Rightarrow> 'w machine option" where
  "l1c_dc_flush = l1c_op wbinval_line"

definition l1c_dc_invalidate :: "u32 \<Rightarrow> u32 \<Rightarrow> 'w machine \<Rightarrow> 'w machine option" where
  "l1c_dc_invalidate = l1c_op inval_line"

text \<open>
  What the cache guarantees: a clean byte equals the one in memory, and uncached addresses are never in it.
\<close>

definition mem_ok :: "mem_map \<Rightarrow> 'w machine \<Rightarrow> bool" where
  "mem_ok A m \<longleftrightarrow> (\<forall>x v. dcache m x = Some (False, v) \<longrightarrow> main_ram m x = v) \<and> (\<forall>x. uncached A x \<longrightarrow> dcache m x = None)"

text \<open>The \<open>n\<close> addresses from \<open>a\<close> on, across the end of the address space.\<close>

definition within :: "u32 \<Rightarrow> nat \<Rightarrow> u32 \<Rightarrow> bool" where
  "within a n x \<longleftrightarrow> unat (x - a) < n"

subsection \<open>Loads and stores\<close>

lemma cpu_view_frame [simp]: "cpu_view (m\<lparr> req_done := k \<rparr>) = cpu_view m" "cpu_view (m\<lparr> dev := w \<rparr>) = cpu_view m"
    "cpu_load a n (m\<lparr> req_done := k \<rparr>) = cpu_load a n m" "mem_ok A (m\<lparr> req_done := k \<rparr>) = mem_ok A m" "mem_ok A (m\<lparr> dev := w \<rparr>) = mem_ok A m"
  by (simp_all add: cpu_view_def cpu_load_def mem_ok_def fun_eq_iff cong: option.case_cong_weak split: option.split)

lemma cpu_put_view [simp]: "mem_ok A m \<Longrightarrow> cpu_view (cpu_put A a v m) x = (if x = a then v else cpu_view m x)"
  by (auto simp: mem_ok_def cpu_put_def cpu_view_def split: option.splits)

lemma cpu_put_ok [simp]: "mem_ok A m \<Longrightarrow> mem_ok A (cpu_put A a v m)"
  by (auto simp: mem_ok_def cpu_put_def)

lemma cpu_put_dev [simp]: "dev (cpu_put A a v m) = dev m" "req_done (cpu_put A a v m) = req_done m"
  by (simp_all add: cpu_put_def)

lemma cpu_store_ok [simp]: "mem_ok A m \<Longrightarrow> mem_ok A (cpu_store A a vs m)"
  by (induction A a vs m rule: cpu_store.induct) simp_all

lemma cpu_store_dev [simp]: "dev (cpu_store A a vs m) = dev m" "req_done (cpu_store A a vs m) = req_done m"
  by (induction A a vs m rule: cpu_store.induct) simp_all

lemma unat_minus_Suc:
  fixes x a :: u32
  assumes "x \<noteq> a"
  shows "unat (x - a) = Suc (unat (x - (a + 1)))"
proof -
  have "x - a \<noteq> 0" using assms by simp
  then have "unat (x - a) = Suc (unat (x - a - 1))" by (metis Suc_pred' unat_gt_0 unat_minus_one)
  then show ?thesis by (simp add: diff_diff_eq)
qed

lemma within_Suc: "within a (Suc n) x \<longleftrightarrow> x = a \<or> within (a + 1) n x \<and> x \<noteq> a"
  using unat_minus_Suc [of x a] by (auto simp: within_def)

lemma cpu_store_view:
  assumes "mem_ok A m" "length vs \<le> 2 ^ 32"
  shows "cpu_view (cpu_store A a vs m) x = (if within a (length vs) x then vs ! unat (x - a) else cpu_view m x)"
  using assms
proof (induction vs arbitrary: a m)
  case Nil
  then show ?case by (simp add: within_def)
next
  case (Cons v vs)
  have IH: "cpu_view (cpu_store A (a + 1) vs (cpu_put A a v m)) x =
      (if within (a + 1) (length vs) x then vs ! unat (x - (a + 1)) else cpu_view (cpu_put A a v m) x)"
    using Cons by simp
  show ?case
  proof (cases "x = a")
    case True
    have "unat (-1 :: u32) = 2 ^ 32 - 1" by (simp add: unsigned_minus_1_eq_mask mask_eq_exp_minus_1)
    then have "\<not> within (a + 1) (length vs) x" using Cons.prems(2) True by (simp add: within_def)
    then show ?thesis using IH True Cons.prems by (simp add: within_def)
  next
    case False
    then show ?thesis using IH Cons.prems unat_minus_Suc [OF False] by (simp add: within_def)
  qed
qed

lemma cpu_load_nth [simp]: "i < n \<Longrightarrow> cpu_load a n m ! i = cpu_view m (a + of_nat i)"
  by (simp add: cpu_load_def)

lemma cpu_load_length [simp]: "length (cpu_load a n m) = n"
  by (simp add: cpu_load_def)

lemma within_offset: "i < n \<Longrightarrow> n \<le> 2 ^ 32 \<Longrightarrow> within a n (a + of_nat i)"
  by (simp add: within_def unat_of_nat32)

lemma cpu_load_cong: "(\<And>x. within a n x \<Longrightarrow> cpu_view m x = cpu_view m' x) \<Longrightarrow> n \<le> 2 ^ 32 \<Longrightarrow> cpu_load a n m = cpu_load a n m'"
  by (auto simp: cpu_load_def within_offset)

lemma cpu_load_store [simp]:
  "mem_ok A m \<Longrightarrow> length vs \<le> 2 ^ 32 \<Longrightarrow> n = length vs \<Longrightarrow> cpu_load a n (cpu_store A a vs m) = vs"
  by (intro nth_equalityI) (auto simp: cpu_store_view within_offset unat_of_nat32)

subsection \<open>Lines\<close>

lemma line_of_eq: "line_of x = line_of y \<longleftrightarrow> unat x div 64 = unat y div 64"
  using unat_and_not_mask [of x 6] unat_and_not_mask [of y 6] unfolding line_of_def word_unat_eq_iff by (simp add: mask_eq_exp_minus_1)

lemma line_index: "n mod 2 ^ 32 div 64 = n div 64 mod (67108864 :: nat)"
  using mod_mult2_eq [of n 64 67108864] by simp

lemma unat_add32: "unat ((a::u32) + b) = (unat a + unat b) mod 2 ^ 32"
  by (simp add: unat_word_ariths)

lemma aligned_unat: "(x::u32) mod 64 = 0 \<longleftrightarrow> unat x mod 64 = 0"
  unfolding word_unat_eq_iff unat_mod_distrib by simp

lemma mod_cancel:
  fixes q u i M :: nat
  assumes "u < M" "i < M"
  shows "(q + u) mod M = (q + i) mod M \<longleftrightarrow> u = i"
proof
  assume "(q + u) mod M = (q + i) mod M"
  then have "int M dvd int u - int i" by (metis add_diff_cancel_left mod_eq_dvd_iff of_nat_add of_nat_mod)
  then have "int M dvd int u - int i" "int M dvd int i - int u" by (simp_all add: dvd_diff_commute)
  then show "u = i" using assms zdvd_not_zless [of "int u - int i" "int M"] zdvd_not_zless [of "int i - int u" "int M"]
    by (cases "u < i"; cases "i < u") auto
qed simp

lemma line_in_range:
  fixes a x :: u32
  assumes a: "a mod 64 = 0" and i: "i < 67108864"
  shows "line_of x = line_of (a + of_nat i * 64) \<longleftrightarrow> unat (x - a) div 64 = i"
proof -
  define q where "q = unat a div 64"
  have "unat a mod 64 = 0" using a aligned_unat by simp
  then have q: "unat a = 64 * q" by (auto simp: q_def)
  have "unat x = (unat a + unat (x - a)) mod 2 ^ 32" using unat_add32 [of a "x - a"] by simp
  then have "unat x div 64 = (q + unat (x - a) div 64) mod 67108864" by (simp only: line_index q) simp
  moreover have "unat (of_nat i * 64 :: u32) = i * 64" using i by (simp add: unat_word_ariths unat_of_nat32)
  then have "unat (a + of_nat i * 64) div 64 = (q + i) mod 67108864" by (simp only: unat_add32 line_index q) simp
  moreover have "unat (x - a) div 64 < 67108864" using unat_u32_bound [of "x - a"] by simp
  ultimately show ?thesis unfolding line_of_eq using mod_cancel [OF _ i] by simp
qed

lemma l1c_range:
  assumes a: "a mod 64 = 0" and n: "n \<le> 67108864" and f: "\<And>b m. dcache (f b m) = (\<lambda>x. if line_of x = line_of b then None else dcache m x)"
  shows "dcache (fold (\<lambda>i. f (a + of_nat i * 64)) [0..<n] m) x = (if within a (64 * n) x then None else dcache m x)"
  using n
proof (induction n)
  case 0
  then show ?case by (simp add: within_def)
next
  case (Suc n)
  have "within a (64 * Suc n) x \<longleftrightarrow> within a (64 * n) x \<or> unat (x - a) div 64 = n" by (auto simp: within_def)
  then show ?case using Suc line_in_range [OF a, of n x] by (simp add: f)
qed

lemma wbinval_line_ok: "mem_ok A m \<Longrightarrow> mem_ok A (wbinval_line b m) \<and> cpu_view (wbinval_line b m) = cpu_view m"
  by (auto simp: mem_ok_def wbinval_line_def cpu_view_def fun_eq_iff split: option.splits bool.splits)

lemma flush_fold_ok:
  "mem_ok A m \<Longrightarrow> mem_ok A (fold (\<lambda>i. wbinval_line (g i)) is m) \<and> cpu_view (fold (\<lambda>i. wbinval_line (g i)) is m) = cpu_view m"
  by (induction "is" arbitrary: m) (simp_all add: wbinval_line_ok)

lemma line_dev [simp]: "dev (wbinval_line b m) = dev m" "req_done (wbinval_line b m) = req_done m" "dev (inval_line b m) = dev m"
    "req_done (inval_line b m) = req_done m" "main_ram (inval_line b m) = main_ram m"
  by (simp_all add: wbinval_line_def inval_line_def)

lemma fold_keeps: "(\<And>i m. P (f i m) = P m) \<Longrightarrow> P (fold f is m) = P m"
  by (induction "is" arbitrary: m) simp_all

lemma l1c_count: "unat sz div 64 \<le> 67108864" "sz mod 64 = 0 \<Longrightarrow> 64 * (unat sz div 64) = unat (sz :: u32)"
proof -
  show "unat sz div 64 \<le> 67108864" using unat_u32_bound [of sz] by simp
  assume "sz mod 64 = 0"
  then have "unat sz mod 64 = 0" by (simp only: aligned_unat)
  then show "64 * (unat sz div 64) = unat sz" by auto
qed

text \<open>A flush changes nothing for the processor and leaves the range in memory; invalidating leaves what the processor sees outside the range.\<close>

lemma flush_works:
  assumes "mem_ok A m" "a mod 64 = 0" "sz mod 64 = 0"
  shows "\<exists>m'. l1c_dc_flush a sz m = Some m' \<and> mem_ok A m' \<and> cpu_view m' = cpu_view m \<and> dev m' = dev m \<and> req_done m' = req_done m \<and>
    (\<forall>x. within a (unat sz) x \<longrightarrow> dcache m' x = None)"
proof -
  let ?f = "fold (\<lambda>i. wbinval_line (a + of_nat i * 64)) [0..<unat sz div 64]"
  have "dcache (wbinval_line b m) = (\<lambda>x. if line_of x = line_of b then None else dcache m x)" for b and m :: "'a machine"
    by (simp add: wbinval_line_def)
  note R = l1c_range [OF assms(2) l1c_count(1), of wbinval_line sz m, OF this, unfolded l1c_count(2) [OF assms(3)]]
  have "dev (?f m) = dev m" "req_done (?f m) = req_done m" by (rule fold_keeps, simp)+
  then show ?thesis using R flush_fold_ok [OF assms(1)] assms(2,3) by (simp add: l1c_dc_flush_def l1c_op_def)
qed

lemma invalidate_works:
  assumes "mem_ok A m" "a mod 64 = 0" "sz mod 64 = 0"
  shows "\<exists>m'. l1c_dc_invalidate a sz m = Some m' \<and> mem_ok A m' \<and> main_ram m' = main_ram m \<and> dev m' = dev m \<and> req_done m' = req_done m \<and>
    (\<forall>x. dcache m' x = (if within a (unat sz) x then None else dcache m x))"
proof -
  let ?f = "fold (\<lambda>i. inval_line (a + of_nat i * 64)) [0..<unat sz div 64]"
  have "dcache (inval_line b m) = (\<lambda>x. if line_of x = line_of b then None else dcache m x)" for b and m :: "'a machine"
    by (simp add: inval_line_def)
  note R = l1c_range [OF assms(2) l1c_count(1), of inval_line sz m, OF this, unfolded l1c_count(2) [OF assms(3)]]
  have k: "dev (?f m) = dev m" "req_done (?f m) = req_done m" "main_ram (?f m) = main_ram m" by (rule fold_keeps, simp)+
  have "mem_ok A (?f m)" using assms(1) by (auto simp: mem_ok_def R k split: if_splits)
  then show ?thesis using R k assms(2,3) by (simp add: l1c_dc_invalidate_def l1c_op_def)
qed

end
