(* ===== verification/Drv_Sdio.thy ===== *)
theory Drv_Sdio
  imports Dcache
begin

text \<open>
  The board's SDIO host driver, libraries/drivers/drv_sdio.c: a request of RT-Thread's SDIO layer becomes a DMA transfer of the SDXC controller, from
  or to the caller's buffer where the data cache allows it and through a buffer of the driver otherwise. \<open>None\<close> is a failed assertion or a wait that does
  not end.
\<close>

abbreviation (input) SDXC_ADMA_TABLE_WORDS :: u32 where "SDXC_ADMA_TABLE_WORDS \<equiv> 12"
abbreviation (input) RT_TICK_PER_SECOND :: u32 where "RT_TICK_PER_SECOND \<equiv> 1000"
abbreviation (input) RESP_MASK :: u32 where "RESP_MASK \<equiv> 0xF"
abbreviation (input) DATA_DIR_WRITE :: u32 where "DATA_DIR_WRITE \<equiv> 1"
abbreviation (input) STOP_TRANSMISSION :: u32 where "STOP_TRANSMISSION \<equiv> 12"
abbreviation (input) READ_MULTIPLE_BLOCK :: u32 where "READ_MULTIPLE_BLOCK \<equiv> 18"
abbreviation (input) WRITE_MULTIPLE_BLOCK :: u32 where "WRITE_MULTIPLE_BLOCK \<equiv> 25"

subsection \<open>Transfers\<close>

text \<open>The polling loops; \<open>v\<close> is the status read last.\<close>

partial_function (option) poll ::
  "'w sdxc_hw \<Rightarrow> u32 \<Rightarrow> u32 \<Rightarrow> u32 \<Rightarrow> hpm_stat \<Rightarrow> ram \<times> 'w \<Rightarrow> (hpm_stat \<times> ram \<times> 'w) option" where
  "poll D msk start_tick v status s =
   (if v AND msk \<noteq> 0 then Some (status, s)
    else
      let (v, s) = get_INT_STAT D s;
          (status, s) = sdxc_parse_interrupt_status D s
      in if status \<noteq> status_success then Some (status, s)
         else
           let (current_tick, w) = rt_tick_get D (snd s) in
           if current_tick - start_tick > RT_TICK_PER_SECOND then Some (status_timeout, fst s, w)
           else poll D msk start_tick v status (fst s, w))"

text \<open>The driver always transfers data by ADMA3, for which the wait for the end of the command is left out.\<close>

definition finish_transfer ::
  "'w sdxc_hw \<Rightarrow> sdxc_command \<Rightarrow> hpm_stat \<Rightarrow> ram \<times> 'w \<Rightarrow> hpm_stat \<times> sdxc_command \<times> ram \<times> 'w" where
  "finish_transfer D cmd status s =
   (if status = status_success then let (status, cmd) = sdxc_receive_cmd_response D cmd (snd s) in (status, cmd, s) else (status, cmd, s))"

definition poll_complete ::
  "'w sdxc_hw \<Rightarrow> sdxc_command \<Rightarrow> hpm_stat \<Rightarrow> ram \<times> 'w \<Rightarrow> (hpm_stat \<times> sdxc_command \<times> ram \<times> 'w) option" where
  "poll_complete D cmd status s =
   (let (v, s) = get_INT_STAT D s;
        (start_tick, w) = rt_tick_get D (snd s)
    in map_option (\<lambda>(status, s). finish_transfer D cmd status s)
         (poll D (SDXC_INT_STAT_XFER_COMPLETE_MASK OR SDXC_STS_ERROR) start_tick v status (fst s, w)))"

definition hpm_sdmmc_transfer_polling ::
  "'w sdxc_hw \<Rightarrow> sdxc_command \<Rightarrow> sdxc_data option \<Rightarrow> ram \<times> 'w \<Rightarrow> (hpm_stat \<times> sdxc_command \<times> ram \<times> 'w) option" where
  "hpm_sdmmc_transfer_polling D cmd data s =
   (let s = (fst s, clear_INT_STAT D (NOT 0) (snd s)) in
    case data of
      None \<Rightarrow>
        let s = sdxc_send_command D cmd s;
            (start_tick, w) = rt_tick_get D (snd s)
        in (case poll D SDXC_INT_STAT_CMD_COMPLETE_MASK start_tick 0 status_success (fst s, w) of
              None \<Rightarrow> None
            | Some (status, s) \<Rightarrow>
                if status = status_success \<and> resp_type cmd = resp_r1b then poll_complete D cmd status s
                else Some (finish_transfer D cmd status s))
    | Some data \<Rightarrow>
        let (status, cmd, s) = sdxc_transfer_nonblocking D SDXC_ADMA_TABLE_WORDS cmd data s in
        if status \<noteq> status_success then Some (status, cmd, s) else poll_complete D cmd status s)"

text \<open>Waiting for events, and the status after them.\<close>

definition event_status :: "'w sdxc_hw \<Rightarrow> u32 \<Rightarrow> ram \<times> 'w \<Rightarrow> hpm_stat \<times> ram \<times> 'w" where
  "event_status D flags s =
   (let (err, s) = rt_event_recv D flags s in if err = RT_EOK then sdxc_parse_interrupt_status D s else (status_timeout, s))"

definition hpm_sdmmc_transfer_interrupt_driven ::
  "'w sdxc_hw \<Rightarrow> sdxc_command \<Rightarrow> sdxc_data option \<Rightarrow> ram \<times> 'w \<Rightarrow> hpm_stat \<times> sdxc_command \<times> ram \<times> 'w" where
  "hpm_sdmmc_transfer_interrupt_driven D cmd data s =
   (let s = (fst s, clear_INT_STAT D (NOT 0) (snd s)) in
    case data of
      None \<Rightarrow>
        let s = sdxc_send_command D cmd s;
            (status, s) = event_status D (SDXC_INT_STAT_CMD_COMPLETE_MASK OR SDXC_INT_STAT_ERR_INTERRUPT_MASK) s;
            (status, s) = (if status = status_success \<and> resp_type cmd = resp_r1b
                           then event_status D (SDXC_INT_STAT_XFER_COMPLETE_MASK OR SDXC_INT_STAT_ERR_INTERRUPT_MASK) s else (status, s))
        in finish_transfer D cmd status s
    | Some data \<Rightarrow>
        let (status, cmd, s) = sdxc_transfer_nonblocking D SDXC_ADMA_TABLE_WORDS cmd data s in
        if status \<noteq> status_success then (status, cmd, s)
        else
          let (status, s) = event_status D (SDXC_INT_STAT_XFER_COMPLETE_MASK OR SDXC_INT_STAT_ERR_INTERRUPT_MASK) s
          in finish_transfer D cmd status s)"

definition hpm_sdmmc_transfer ::
  "'w sdxc_hw \<Rightarrow> bool \<Rightarrow> sdxc_command \<Rightarrow> sdxc_data option \<Rightarrow> ram \<times> 'w \<Rightarrow> (hpm_stat \<times> sdxc_command \<times> ram \<times> 'w) option" where
  "hpm_sdmmc_transfer D enable_interrupt_driven cmd data s =
   (if enable_interrupt_driven then Some (hpm_sdmmc_transfer_interrupt_driven D cmd data s) else hpm_sdmmc_transfer_polling D cmd data s)"

definition hpm_sdmmc_host_recovery :: "'w sdxc_hw \<Rightarrow> ram \<times> 'w \<Rightarrow> ram \<times> 'w" where
  "hpm_sdmmc_host_recovery D s =
   (let pstate = get_PSTATE D (snd s);
        (int_stat, s) = get_INT_STAT D s;
        cmd_line = (pstate AND 1 \<noteq> 0 \<or> int_stat AND 0xF0000 \<noteq> 0);
        data_line = (pstate AND 2 \<noteq> 0 \<or> int_stat AND 0x700000 \<noteq> 0);
        w = snd s;
        w = (if cmd_line then reset_cmd_line D w else w);
        w = (if data_line then reset_data_line D w else w);
        w = (if cmd_line \<or> data_line then clear_INT_STAT D (NOT 0) w else w)
    in rt_thread_mdelay D 10 (fst s, w))"

subsection \<open>Requests\<close>

record rt_mmcsd_data =
  blksize :: u32
  blks :: u32
  buf :: u32
  data_flags :: u32

record rt_mmcsd_cmd =
  cmd_code :: u32
  arg :: u32
  flags :: u32
  err :: int
  resp :: "u32 list"
  data :: "rt_mmcsd_data option"

record hpm_mmcsd =
  enable_interrupt_driven :: bool
  use_noncacheable_buf :: bool
  data_buf :: u32
  data_buf_size :: u32

definition resp_of_flags :: "u32 \<Rightarrow> sdxc_resp option" where
  "resp_of_flags r =
   (if r = 0 then Some resp_none else if r = 1 then Some resp_r1 else if r = 2 then Some resp_r1b else if r = 3 then Some resp_r2
    else if r = 4 then Some resp_r3 else if r = 5 then Some resp_r4 else if r = 6 then Some resp_r6 else if r = 7 then Some resp_r7
    else if r = 8 then Some resp_r5 else None)"

definition align_up :: "u32 \<Rightarrow> u32" where
  "align_up n = (n + CACHELINE_SIZE - 1) AND NOT 63"

text \<open>Whether the data go through the driver's buffer.\<close>

definition bounced :: "rt_mmcsd_data \<Rightarrow> bool" where
  "bounced d \<longleftrightarrow> buf d mod CACHELINE_SIZE \<noteq> 0 \<or> (blks d * blksize d) mod CACHELINE_SIZE \<noteq> 0"

definition prepare_write :: "mem_map \<Rightarrow> hpm_mmcsd \<Rightarrow> rt_mmcsd_data \<Rightarrow> 'w machine \<Rightarrow> (u32 \<times> 'w machine) option" where
  "prepare_write A mmcsd d m =
   (let xfer_len = blks d * blksize d;
        aligned_size = (if bounced d then align_up xfer_len else xfer_len);
        m = (if bounced d
             then cpu_store A (data_buf mmcsd + xfer_len) (replicate (unat (aligned_size - xfer_len)) 0)
                    (cpu_store A (data_buf mmcsd) (cpu_load (buf d) (unat xfer_len) m) m)
             else m);
        cache_start = (if bounced d then data_buf mmcsd else buf d);
        need_cache_maintenance = (\<not> (bounced d \<and> use_noncacheable_buf mmcsd))
    in map_option (Pair cache_start) (if need_cache_maintenance then l1c_dc_flush cache_start aligned_size m else Some m))"

definition prepare_read :: "hpm_mmcsd \<Rightarrow> rt_mmcsd_data \<Rightarrow> 'w machine \<Rightarrow> (u32 \<times> 'w machine) option" where
  "prepare_read mmcsd d m =
   (let xfer_len = blks d * blksize d;
        aligned_read_size = (if bounced d then align_up xfer_len else xfer_len);
        cache_start = (if bounced d then data_buf mmcsd else buf d);
        need_cache_maintenance = (\<not> (bounced d \<and> use_noncacheable_buf mmcsd))
    in map_option (Pair cache_start) (if need_cache_maintenance then l1c_dc_invalidate cache_start aligned_read_size m else Some m))"

definition transfer_error :: "hpm_stat \<Rightarrow> int" where
  "transfer_error e =
   (if e = status_timeout \<or> e = status_sdxc_cmd_timeout_error \<or> e = status_sdxc_data_timeout_error then - RT_ETIMEOUT else - RT_EIO)"

text \<open>The request from \<open>hpm_sdmmc_transfer\<close> on.\<close>

definition run_transfer ::
  "'w sdxc_hw \<Rightarrow> mem_map \<Rightarrow> hpm_mmcsd \<Rightarrow> rt_mmcsd_cmd \<Rightarrow> sdxc_command \<Rightarrow> sdxc_data option \<Rightarrow> 'w machine \<Rightarrow> (rt_mmcsd_cmd \<times> 'w machine) option" where
  "run_transfer D A mmcsd cmd sdxc_cmd xfer m =
   (case hpm_sdmmc_transfer D (enable_interrupt_driven mmcsd) sdxc_cmd xfer (main_ram m, dev m) of
      None \<Rightarrow> None
    | Some (e, sdxc_cmd, s) \<Rightarrow>
        let s = (if e \<noteq> status_success then hpm_sdmmc_host_recovery D s else s);
            m = m\<lparr> main_ram := fst s, dev := snd s \<rparr>;
            cmd = (if e \<noteq> status_success then cmd\<lparr> err := transfer_error e \<rparr> else cmd);
            m = (case (xfer, data cmd) of
                   (Some x, Some d) \<Rightarrow>
                     if rx_data x \<noteq> None \<and> err cmd = RT_EOK \<and> bounced d
                     then cpu_store A (buf d) (cpu_load (data_buf mmcsd) (unat (blks d * blksize d)) m) m else m
                 | _ \<Rightarrow> m);
            cmd = (if flags cmd AND RESP_MASK = 3
                   then cmd\<lparr> resp := [response sdxc_cmd ! 3, response sdxc_cmd ! 2, response sdxc_cmd ! 1, response sdxc_cmd ! 0] \<rparr>
                   else cmd\<lparr> resp := (resp cmd)[0 := response sdxc_cmd ! 0] \<rparr>)
        in Some (cmd, m\<lparr> req_done := req_done m + 1 \<rparr>))"

text \<open>The command and the data as the controller driver takes them; \<open>addr\<close> is where the DMA reads or writes.\<close>

definition sdxc_cmd_of :: "rt_mmcsd_cmd \<Rightarrow> sdxc_resp \<Rightarrow> sdxc_command" where
  "sdxc_cmd_of cmd rt = \<lparr> cmd_index = cmd_code cmd, cmd_argument = arg cmd,
     cmd_type = (if cmd_code cmd = STOP_TRANSMISSION then cmd_type_abort else cmd_type_normal),
     resp_type = rt, cmd_flags = 0, resp_error_flags = 0, response = [0, 0, 0, 0] \<rparr>"

definition is_write :: "rt_mmcsd_data \<Rightarrow> bool" where
  "is_write d \<longleftrightarrow> data_flags d AND DATA_DIR_WRITE \<noteq> 0"

definition sdxc_data_of :: "rt_mmcsd_cmd \<Rightarrow> rt_mmcsd_data \<Rightarrow> u32 \<Rightarrow> sdxc_data" where
  "sdxc_data_of cmd d addr = \<lparr> block_size = blksize d, block_cnt = blks d,
     tx_data = (if is_write d then Some addr else None), rx_data = (if is_write d then None else Some addr),
     enable_auto_cmd12 = blks d > 1 \<and> (cmd_code cmd = READ_MULTIPLE_BLOCK \<or> cmd_code cmd = WRITE_MULTIPLE_BLOCK),
     enable_auto_cmd23 = False \<rparr>"

definition hpm_sdmmc_request ::
  "'w sdxc_hw \<Rightarrow> mem_map \<Rightarrow> hpm_mmcsd \<Rightarrow> rt_mmcsd_cmd \<Rightarrow> 'w machine \<Rightarrow> (rt_mmcsd_cmd \<times> 'w machine) option" where
  "hpm_sdmmc_request D A mmcsd cmd m =
   (case resp_of_flags (flags cmd AND RESP_MASK) of
      None \<Rightarrow> None
    | Some rt \<Rightarrow>
        let invalid = Some (cmd\<lparr> err := - RT_EINVAL \<rparr>, m\<lparr> req_done := req_done m + 1 \<rparr>)
        in case data cmd of
             None \<Rightarrow> run_transfer D A mmcsd cmd (sdxc_cmd_of cmd rt) None m
           | Some d \<Rightarrow>
               let xfer_len = blks d * blksize d in
               if xfer_len = 0 then invalid
               else if bounced d \<and> align_up xfer_len > data_buf_size mmcsd then invalid
               else case (if is_write d then prepare_write A mmcsd d m else prepare_read mmcsd d m) of
                      None \<Rightarrow> None
                    | Some (addr, m) \<Rightarrow> run_transfer D A mmcsd cmd (sdxc_cmd_of cmd rt) (Some (sdxc_data_of cmd d addr)) m)"

subsection \<open>Waiting ends\<close>

text \<open>
  The clock: \<open>us\<close> is the time, of which \<open>k\<close> units make a tick. It passes with every reading of the clock, by less than the range of the counter.
\<close>

definition clock_runs :: "'w sdxc_hw \<Rightarrow> ('w \<Rightarrow> nat) \<Rightarrow> nat \<Rightarrow> bool" where
  "clock_runs D us k \<longleftrightarrow> 0 < k \<and>
     (\<forall>w. us w < us (snd (rt_tick_get D w)) \<and> us (snd (rt_tick_get D w)) \<le> us w + k * 2 ^ 29 \<and>
          fst (rt_tick_get D w) = of_nat (us (snd (rt_tick_get D w)) div k)) \<and>
     (\<forall>s. us (snd s) \<le> us (snd (snd (get_INT_STAT D s))) \<and> us (snd (snd (get_INT_STAT D s))) \<le> us (snd s) + k * 2 ^ 29)"

lemma elapsed_ticks:
  assumes "t0 \<le> t" "t < t0 + 2 ^ 32"
  shows "unat (of_nat t - of_nat t0 :: u32) = t - t0"
proof -
  have "of_nat t - of_nat t0 = (of_nat (t - t0) :: u32)" using assms(1) by (simp add: of_nat_diff)
  moreover have "unat (of_nat (t - t0) :: u32) = t - t0" using assms by (intro unat_of_nat32) simp
  ultimately show ?thesis by metis
qed

lemma poll_returns:
  assumes "clock_runs D us k" "t0 \<le> us (snd s) div k" "us (snd s) div k \<le> t0 + 1000"
  shows "\<exists>r. poll D msk (of_nat t0) v status s = Some r"
  using assms(2,3)
proof (induction "(t0 + 1001) * k - us (snd s)" arbitrary: s v status rule: less_induct)
  case less
  note C = assms(1) [unfolded clock_runs_def]
  obtain v1 s1 where s1: "get_INT_STAT D s = (v1, s1)" by (metis surj_pair)
  obtain st s2 where s2: "sdxc_parse_interrupt_status D s1 = (st, s2)" by (metis surj_pair)
  obtain t w where w: "rt_tick_get D (snd s2) = (t, w)" by (metis surj_pair)
  have s2': "snd (get_INT_STAT D s1) = s2" using s2 by (auto simp: sdxc_parse_interrupt_status_def split: prod.splits)
  have u: "us (snd s) \<le> us (snd s1)" "us (snd s1) \<le> us (snd s) + k * 2 ^ 29" "us (snd s1) \<le> us (snd s2)"
      "us (snd s2) \<le> us (snd s1) + k * 2 ^ 29" "us (snd s2) < us w" "us w \<le> us (snd s2) + k * 2 ^ 29" "t = of_nat (us w div k)"
    using C s1 s2' w by (metis fst_conv snd_conv)+
  have k: "0 < k" using C by simp
  have le: "t0 \<le> us w div k" using less.prems(1) u by (meson div_le_mono le_trans less_imp_le)
  have "us w \<le> us (snd s) + k * (3 * 2 ^ 29)" using u by simp
  then have "us w div k \<le> us (snd s) div k + 3 * 2 ^ 29" using k by (metis div_le_mono div_mult_self2 add.commute less_not_refl)
  then have e: "unat (t - of_nat t0) = us w div k - t0" using elapsed_ticks [OF le] less.prems(2) u(7) by simp
  have "\<exists>r. poll D msk (of_nat t0) v1 st (fst s2, w) = Some r" if "\<not> t - of_nat t0 > 1000" for v1 st
  proof (rule less.hyps)
    have d: "us w div k \<le> t0 + 1000" using that e le by (simp add: word_le_nat_alt not_less)
    then have "us w < (t0 + 1001) * k" using k div_less_iff_less_mult [OF k, of "us w" "t0 + 1001"] by simp
    then show "(t0 + 1001) * k - us (snd (fst s2, w)) < (t0 + 1001) * k - us (snd s)" using u by simp
    show "t0 \<le> us (snd (fst s2, w)) div k" "us (snd (fst s2, w)) div k \<le> t0 + 1000" using le d by simp_all
  qed
  then show ?case by (subst poll.simps) (auto simp: s1 s2 w Let_def)
qed

lemma poll_from_now:
  assumes "clock_runs D us k" "rt_tick_get D w0 = (t, w)"
  shows "poll D msk t v status (r0, w) \<noteq> None"
proof -
  have "t = of_nat (us w div k)" using assms unfolding clock_runs_def by (metis fst_conv snd_conv)
  then show ?thesis using poll_returns [OF assms(1), of "us w div k" "(r0, w)"] by auto
qed

lemma poll_complete_returns: "clock_runs D us k \<Longrightarrow> poll_complete D cmd status s \<noteq> None"
  by (simp add: poll_complete_def Let_def poll_from_now del: not_None_eq split: prod.split)

lemma transfer_returns:
  assumes "clock_runs D us k"
  shows "hpm_sdmmc_transfer D b cmd xfer s \<noteq> None"
  by (simp add: hpm_sdmmc_transfer_def hpm_sdmmc_transfer_polling_def Let_def poll_complete_returns [OF assms]
      del: not_None_eq split: prod.split option.split) (use poll_from_now [OF assms] in blast)

lemma run_transfer_returns:
  assumes "clock_runs D us k"
  shows "\<exists>cmd' m'. run_transfer D A mmcsd cmd sc xfer m = Some (cmd', m') \<and> req_done m' = req_done m + 1"
proof -
  obtain e sc' s where "hpm_sdmmc_transfer D (enable_interrupt_driven mmcsd) sc xfer (main_ram m, dev m) = Some (e, sc', s)"
    using transfer_returns [OF assms] by (metis not_None_eq prod_cases3)
  then show ?thesis by (auto simp: run_transfer_def Let_def split: option.splits)
qed

lemma align_up_unat: "unat n + 63 < 2 ^ 32 \<Longrightarrow> unat (align_up n) = (unat n + 63) div 64 * 64"
proof -
  assume "unat n + 63 < 2 ^ 32"
  then have "unat (n + 63) = unat n + 63" by (simp add: unat_word_ariths)
  moreover have "align_up n = (n + 63) AND NOT (mask 6)" by (simp add: align_up_def mask_eq_exp_minus_1 add.commute)
  ultimately show ?thesis using unat_and_not_mask [of "n + 63" 6] by simp
qed

lemma align_up_aligned [simp]: "align_up n mod 64 = 0"
proof -
  have "align_up n = (n + 63) AND NOT (mask 6)" by (simp add: align_up_def mask_eq_exp_minus_1 add.commute)
  then show ?thesis using unat_and_not_mask [of "n + 63" 6] by (simp add: aligned_unat)
qed

lemma l1c_op_returns:
  assumes "a mod 64 = 0" "sz mod 64 = 0" "\<And>b m. req_done (f b m) = req_done m"
  shows "\<exists>m'. l1c_op f a sz m = Some m' \<and> req_done m' = req_done m"
  using assms fold_keeps [of req_done "\<lambda>i. f (a + of_nat i * 64)"] by (simp add: l1c_op_def)

lemma prepare_returns:
  assumes "use_noncacheable_buf mmcsd \<or> data_buf mmcsd mod 64 = 0"
  shows "\<exists>a m'. (if write then prepare_write A mmcsd d m else prepare_read mmcsd d m) = Some (a, m') \<and> req_done m' = req_done m"
proof -
  have o: "\<exists>m'. l1c_op f (if bounced d then data_buf mmcsd else buf d) (if bounced d then align_up (blks d * blksize d) else blks d * blksize d) m =
      Some m' \<and> req_done m' = req_done m" if "\<not> (bounced d \<and> use_noncacheable_buf mmcsd)" "\<And>b m. req_done (f b m) = req_done m"
    for f and m :: "'a machine"
    using that assms by (intro l1c_op_returns) (auto simp: bounced_def)
  have w: "\<exists>a m'. prepare_write A mmcsd d m = Some (a, m') \<and> req_done m' = req_done m"
    using o [of wbinval_line "if bounced d then cpu_store A (data_buf mmcsd + blks d * blksize d)
        (replicate (unat (align_up (blks d * blksize d) - blks d * blksize d)) 0)
          (cpu_store A (data_buf mmcsd) (cpu_load (buf d) (unat (blks d * blksize d)) m) m) else m"]
    by (auto simp: prepare_write_def Let_def l1c_dc_flush_def)
  have "\<exists>a m'. prepare_read mmcsd d m = Some (a, m') \<and> req_done m' = req_done m"
    using o [of inval_line m] by (auto simp: prepare_read_def Let_def l1c_dc_invalidate_def)
  then show ?thesis using w by simp
qed

subsection \<open>Commands\<close>

lemma parse_success: "parse_status v ac = status_success \<longleftrightarrow> v AND SDXC_STS_ERROR = 0"
  by (simp add: parse_status_def autocmd_status_def)

lemma dir_bit: "(x::u32) AND DATA_XFER_DIR_MASK \<noteq> 0 \<longleftrightarrow> bit x 4"
  using bit_iff_and_push_bit_not_eq_0 [of x 4] by simp

lemma prepare_dir: "bit (sdxc_prepare_cmd_xfer cmd) 4 \<longleftrightarrow> bit (cmd_flags cmd) 4"
  by (simp add: sdxc_prepare_cmd_xfer_def Let_def bit_simps split: sdxc_resp.split sdxc_cmd_type.split)

lemma transfer_config_dir: "bit (sdxc_set_transfer_config l d) 4 \<longleftrightarrow> rx_data d \<noteq> None"
  by (simp add: sdxc_set_transfer_config_def Let_def bit_simps)

lemma index_bits:
  assumes "i < 6"
  shows "bit ((push_bit 24 x AND 0x3F000000) OR (y AND 16449791) :: u32) (24 + i) \<longleftrightarrow> bit x i"
proof -
  have "i = 0 \<or> i = 1 \<or> i = 2 \<or> i = 3 \<or> i = 4 \<or> i = 5" using assms by auto
  then show ?thesis by (auto simp: bit_simps)
qed

lemma prepare_index: "i < 6 \<Longrightarrow> bit (sdxc_prepare_cmd_xfer cmd) (24 + i) \<longleftrightarrow> bit (cmd_index cmd) i"
  by (simp add: sdxc_prepare_cmd_xfer_def Let_def index_bits)

end
