(* ===== verification/Sdio_Dma.thy ===== *)
theory Sdio_Dma
  imports Drv_Sdio
begin

text \<open>
  What the SDIO host driver achieves on a controller that does what it reports: the bytes of a request go over the bus exactly, whatever the
  state of the cache and the place of the buffer, and the processor sees no other change. An error that is there before the driver first looks is missed, and a length that is
  not a multiple of 4 is refused.
\<close>

subsection \<open>What a controller does\<close>

text \<open>
  A transfer is under way, done or has failed. \<open>job\<close> is its descriptor, \<open>base_ram\<close> the memory when it was started, \<open>on_bus\<close> the bytes that
  went over the bus.
\<close>

datatype dma_phase = Busy | Done | Failed

record 'w dma_ghost =
  phase :: "'w \<Rightarrow> dma_phase"
  job :: "'w \<Rightarrow> adma3_desc"
  base_ram :: "'w \<Rightarrow> ram"
  on_bus :: "'w \<Rightarrow> u8 list"

definition desc_reads :: "adma3_desc \<Rightarrow> bool" where
  "desc_reads desc \<longleftrightarrow> desc_cmd_xfer desc AND DATA_XFER_DIR_MASK \<noteq> 0"

definition desc_addr :: "adma3_desc \<Rightarrow> u32" where
  "desc_addr desc = d_addr (desc_data desc)"

definition desc_len :: "adma3_desc \<Rightarrow> nat" where
  "desc_len desc = unat (len_upper (desc_data desc)) * 65536 + unat (len_lower (desc_data desc))"

definition ram_seg :: "ram \<Rightarrow> u32 \<Rightarrow> nat \<Rightarrow> u8 list" where
  "ram_seg r a n = map (\<lambda>i. r (a + of_nat i)) [0..<n]"

definition dma_frame :: "'w dma_ghost \<Rightarrow> ram \<times> 'w \<Rightarrow> bool" where
  "dma_frame G s \<longleftrightarrow> (\<forall>x. \<not> (desc_reads (job G (snd s)) \<and> within (desc_addr (job G (snd s))) (desc_len (job G (snd s))) x) \<longrightarrow>
     fst s x = base_ram G (snd s) x)"

definition dma_state :: "'w dma_ghost \<Rightarrow> ram \<times> 'w \<Rightarrow> bool" where
  "dma_state G s \<longleftrightarrow> dma_frame G s \<and>
     (phase G (snd s) = Done \<longrightarrow> on_bus G (snd s) = ram_seg (fst s) (desc_addr (job G (snd s))) (desc_len (job G (snd s))))"

definition shows_phase :: "u32 \<Rightarrow> dma_phase \<Rightarrow> bool" where
  "shows_phase v p \<longleftrightarrow> (case p of
       Busy \<Rightarrow> v AND (SDXC_INT_STAT_XFER_COMPLETE_MASK OR SDXC_STS_ERROR) = 0
     | Done \<Rightarrow> v AND SDXC_INT_STAT_XFER_COMPLETE_MASK \<noteq> 0 \<and> v AND SDXC_STS_ERROR = 0
     | Failed \<Rightarrow> v AND SDXC_STS_ERROR \<noteq> 0)"

definition same_job :: "'w dma_ghost \<Rightarrow> 'w \<Rightarrow> 'w \<Rightarrow> bool" where
  "same_job G w w' \<longleftrightarrow> job G w' = job G w \<and> base_ram G w' = base_ram G w"

text \<open>
  A controller writes to memory only for a transfer that reads from the card, and only where the descriptor says; when it reports the end of
  a transfer without an error, the bytes at that place are those of the bus; an error stays visible.
\<close>

definition controller_ok :: "'w sdxc_hw \<Rightarrow> 'w dma_ghost \<Rightarrow> bool" where
  "controller_ok D G \<longleftrightarrow>
   (\<forall>desc s. job G (snd (put_adma3 D desc s)) = desc \<and> base_ram G (snd (put_adma3 D desc s)) = fst s \<and> dma_state G (put_adma3 D desc s)) \<and>
   (\<forall>s v s'. dma_state G s \<and> get_INT_STAT D s = (v, s') \<longrightarrow> dma_state G s' \<and> same_job G (snd s) (snd s') \<and> shows_phase v (phase G (snd s')) \<and>
      (phase G (snd s) \<noteq> Busy \<longrightarrow> phase G (snd s') = phase G (snd s))) \<and>
   (\<forall>w. same_job G w (snd (rt_tick_get D w)) \<and> phase G (snd (rt_tick_get D w)) = phase G w \<and> on_bus G (snd (rt_tick_get D w)) = on_bus G w) \<and>
   (\<forall>v w. same_job G w (clear_INT_STAT D v w) \<and> same_job G w (reset_cmd_line D w) \<and> same_job G w (reset_data_line D w)) \<and>
   (\<forall>n s. dma_frame G s \<longrightarrow> dma_frame G (rt_thread_mdelay D n s) \<and> same_job G (snd s) (snd (rt_thread_mdelay D n s)))"

text \<open>
  No error is visible at the first reading of the status after a transfer is started. Nothing guarantees this: it excludes the case in which the
  driver's polling takes an error for success, as proved below, and is a hypothesis of every statement that a request without an error moved its bytes.
\<close>

definition no_early_error :: "'w sdxc_hw \<Rightarrow> 'w dma_ghost \<Rightarrow> bool" where
  "no_early_error D G \<longleftrightarrow> (\<forall>desc s. phase G (snd (snd (get_INT_STAT D (put_adma3 D desc s)))) \<noteq> Failed)"

lemma controller_get:
  assumes "controller_ok D G" "dma_state G s" "get_INT_STAT D s = (v, s')"
  shows "dma_state G s'" "same_job G (snd s) (snd s')" "shows_phase v (phase G (snd s'))"
    "phase G (snd s) \<noteq> Busy \<Longrightarrow> phase G (snd s') = phase G (snd s)"
  using assms unfolding controller_ok_def by blast+

lemma controller_tick:
  assumes "controller_ok D G" "rt_tick_get D w = (t, w')"
  shows "same_job G w w'" "phase G w' = phase G w" "on_bus G w' = on_bus G w"
  using assms unfolding controller_ok_def by (metis snd_conv)+

lemma tick_state: "controller_ok D G \<Longrightarrow> rt_tick_get D w = (t, w') \<Longrightarrow> dma_state G (r, w) \<Longrightarrow> dma_state G (r, w')"
  using controller_tick [of D G w t w'] by (simp add: dma_state_def dma_frame_def same_job_def)

lemma same_job_trans: "same_job G a b \<Longrightarrow> same_job G b c \<Longrightarrow> same_job G a c"
  by (simp add: same_job_def)

lemma poll_result:
  assumes "poll D msk t v st s = Some r" "controller_ok D G" "msk = SDXC_INT_STAT_XFER_COMPLETE_MASK OR SDXC_STS_ERROR"
    "dma_state G s" "phase G (snd s) \<noteq> Failed" "v AND msk \<noteq> 0 \<Longrightarrow> phase G (snd s) = Done"
  shows "dma_state G (snd r) \<and> same_job G (snd s) (snd (snd r)) \<and> (fst r = status_success \<longrightarrow> phase G (snd (snd r)) = Done)"
  using assms
proof (induction D msk t v st s r rule: poll.raw_induct [rotated, consumes 1, case_names round])
  case (round poll' D msk t v st s r)
  note C = round(3)
  obtain v1 s1 where s1: "get_INT_STAT D s = (v1, s1)" by (metis surj_pair)
  obtain v2 s2 where s2: "get_INT_STAT D s1 = (v2, s2)" by (metis surj_pair)
  obtain t1 w where w: "rt_tick_get D (snd s2) = (t1, w)" by (metis surj_pair)
  note g1 = controller_get [OF C round(5) s1]
  note g2 = controller_get [OF C g1(1) s2]
  note k = controller_tick [OF C w] and st = tick_state [OF C w, of "fst s2"]
  have j: "same_job G (snd s) (snd s2)" "same_job G (snd s) w" using g1(2) g2(2) k(1) by (simp_all add: same_job_def)
  have p: "sdxc_parse_interrupt_status D s1 = (parse_status v2 (get_AC_HOST_CTRL D (snd s2)), s2)"
    by (simp add: sdxc_parse_interrupt_status_def s2)
  show ?case
  proof (cases "v AND msk = 0 \<and> parse_status v2 (get_AC_HOST_CTRL D (snd s2)) = status_success \<and> \<not> t1 - t > 1000")
    case True
    then have "v2 AND SDXC_STS_ERROR = 0" by (simp only: parse_success)
    then have nf: "phase G (snd s2) \<noteq> Failed" using g2(3) by (auto simp: shows_phase_def)
    then have d: "v1 AND msk \<noteq> 0 \<Longrightarrow> phase G w = Done"
      using g1(3) g2(4) k(2) round(4) by (cases "phase G (snd s1)") (auto simp: shows_phase_def)
    have "poll' D msk t v1 status_success (fst s2, w) = Some r" using round(2) True by (simp add: s1 p w Let_def)
    then have "dma_state G (snd r) \<and> same_job G (snd (fst s2, w)) (snd (snd r)) \<and> (fst r = status_success \<longrightarrow> phase G (snd (snd r)) = Done)"
      using st g2(1) nf k(2) d by (intro round(1) [OF _ C round(4)]) (simp_all add: prod.expand)
    then show ?thesis using j(2) same_job_trans by auto
  next
    case False
    then show ?thesis using round j st g2(1) by (auto simp: s1 p w Let_def same_job_def split: if_splits)
  qed
qed


text \<open>The descriptor for a command and its data.\<close>

definition describes :: "adma3_desc \<Rightarrow> sdxc_command \<Rightarrow> sdxc_data \<Rightarrow> u32 \<Rightarrow> bool" where
  "describes desc cmd x a \<longleftrightarrow> desc_addr desc = a \<and> desc_len desc = unat (block_cnt x) * unat (block_size x) \<and>
     (desc_reads desc \<longleftrightarrow> rx_data x \<noteq> None) \<and> desc_arg desc = cmd_argument cmd \<and> desc_block_cnt desc = block_cnt x \<and>
     desc_block_size desc = block_size x \<and> (\<forall>i<6. bit (desc_cmd_xfer desc) (24 + i) = bit (cmd_index cmd) i)"

lemma desc_len_split:
  assumes "unat n \<le> 524288"
  shows "unat (drop_bit 16 n AND 0x3FF) * 65536 + unat (n AND 0xFFFF) = unat (n :: u32)"
proof -
  have "unat (drop_bit 16 n) = unat n div 65536" by (simp add: drop_bit_eq_div unat_div)
  then have "unat (drop_bit 16 n AND mask 10) = unat n div 65536" using assms unat_and_mask [of "drop_bit 16 n" 10] by simp
  moreover have "unat (n AND mask 16) = unat n mod 65536" using unat_and_mask [of n 16] by simp
  ultimately show ?thesis by (simp add: mask_eq_exp_minus_1)
qed

lemma index_or:
  assumes "i < 6"
  shows "bit (x OR 0x180 :: u32) (24 + i) \<longleftrightarrow> bit x (24 + i)"
    "bit (x OR 0x40 :: u32) (24 + i) \<longleftrightarrow> bit x (24 + i)" "bit (x OR 12 :: u32) (24 + i) \<longleftrightarrow> bit x (24 + i)"
proof -
  have "i = 0 \<or> i = 1 \<or> i = 2 \<or> i = 3 \<or> i = 4 \<or> i = 5" using assms by auto
  then show "bit (x OR 0x180 :: u32) (24 + i) \<longleftrightarrow> bit x (24 + i)"
    "bit (x OR 0x40 :: u32) (24 + i) \<longleftrightarrow> bit x (24 + i)" "bit (x OR 12 :: u32) (24 + i) \<longleftrightarrow> bit x (24 + i)"
    by (auto simp: bit_or_iff)
qed

text \<open>The bits that matter of the word for the command register.\<close>

lemma adma3_desc_bits:
  assumes "sdxc_set_adma3_desc words cmd x = Inr desc"
  shows "bit (desc_cmd_xfer desc) 4 \<longleftrightarrow> bit (cmd_flags cmd) 4" "i < 6 \<Longrightarrow> bit (desc_cmd_xfer desc) (24 + i) \<longleftrightarrow> bit (cmd_index cmd) i"
  using assms by (auto simp: sdxc_set_adma3_desc_def Let_def bit_or_iff [where n = 4] prepare_dir index_or prepare_index split: if_splits sum.splits)

lemma nonblocking_describes:
  assumes n: "unat (block_cnt x) * unat (block_size x) \<le> 524288" "4 dvd unat (block_cnt x) * unat (block_size x)" and a: "a mod 4 = 0"
    and f: "cmd_flags cmd = 0"
    and dir: "tx_data x = Some a \<and> rx_data x = None \<or> tx_data x = None \<and> rx_data x = Some a"
  shows "\<exists>desc cmd'. sdxc_transfer_nonblocking D 12 cmd x s = (status_success, cmd', put_adma3 D desc s) \<and> describes desc cmd x a \<and>
    resp_error_flags cmd' = resp_error_flags cmd \<and> response cmd' = response cmd"
proof -
  let ?n = "block_cnt x * block_size x"
  have u: "unat ?n = unat (block_cnt x) * unat (block_size x)" using n(1) by (simp add: unat_word_ariths)
  have "unat (?n mod 4) = 0" using n(2) u by (simp add: unat_mod_distrib)
  then have m: "?n mod 4 = 0" by (simp only: unat_eq_0)
  have le: "\<not> ?n > 512 * 1024" using n(1) u by (simp add: word_less_nat_alt)
  let ?f = "cmd_flags cmd AND NOT (DMA_ENABLE_MASK OR DATA_PRESENT_SEL_MASK OR DMA_ENABLE_MASK) OR DATA_PRESENT_SEL_MASK OR DMA_ENABLE_MASK"
  let ?cmd = "cmd\<lparr> cmd_flags := ?f OR sdxc_set_transfer_config (get_CMD_XFER D (snd s)) x \<rparr>"
  let ?d2 = "\<lparr> d_valid = True, d_end = True, d_act = 4, len_upper = drop_bit 16 ?n AND 0x3FF, len_lower = ?n AND 0xFFFF, d_addr = a \<rparr>"
  have l: "unat (drop_bit 16 ?n AND 0x3FF) * 65536 + unat (?n AND 0xFFFF) = unat ?n" using desc_len_split [of ?n] n(1) u by simp
  have "(case tx_data x of Some a \<Rightarrow> a | None \<Rightarrow> (case rx_data x of Some a \<Rightarrow> a | None \<Rightarrow> 0)) = a" using dir by auto
  then have a2: "sdxc_set_adma2_desc 10 x = Inr ?d2" unfolding sdxc_set_adma2_desc_def Let_def by (simp only: a m le) simp
  let ?cx = "sdxc_prepare_cmd_xfer ?cmd OR RESP_ERR_CHK_ENABLE_MASK OR RESP_INT_DISABLE_MASK"
  let ?cx = "if resp_type ?cmd = resp_r5 then ?cx OR RESP_TYPE_MASK else ?cx"
  let ?cx = "if enable_auto_cmd12 x \<or> enable_auto_cmd23 x then ?cx OR push_bit 2 3 else ?cx"
  have a3: "sdxc_set_adma3_desc 12 ?cmd x = Inr \<lparr> desc_block_cnt = block_cnt x, desc_block_size = block_size x, desc_arg = cmd_argument ?cmd,
      desc_cmd_xfer = ?cx, desc_data = ?d2 \<rparr>" unfolding sdxc_set_adma3_desc_def Let_def using a2 by simp
  obtain desc where desc: "sdxc_set_adma3_desc 12 ?cmd x = Inr desc" "desc_addr desc = a" "desc_len desc = unat ?n" "desc_arg desc = cmd_argument cmd"
      "desc_block_cnt desc = block_cnt x" "desc_block_size desc = block_size x"
    by (rule that [OF a3]) (simp_all add: desc_addr_def desc_len_def l)
  have "bit (cmd_flags ?cmd) 4 \<longleftrightarrow> bit (cmd_flags cmd) 4 \<or> rx_data x \<noteq> None" by (simp add: bit_simps transfer_config_dir)
  then have "describes desc cmd x a" using desc u f adma3_desc_bits [OF desc(1)] by (simp add: describes_def desc_reads_def dir_bit)
  moreover have "sdxc_transfer_nonblocking D 12 cmd x s = (status_success, ?cmd, put_adma3 D desc s)"
    using desc(1) by (simp add: sdxc_transfer_nonblocking_def Let_def)
  ultimately show ?thesis by (intro exI [of _ desc] exI [of _ ?cmd] conjI) simp_all
qed


lemma transfer_data:
  assumes C: "controller_ok D G" "no_early_error D G" "clock_runs D us k"
    and n: "unat (block_cnt x) * unat (block_size x) \<le> 524288" "4 dvd unat (block_cnt x) * unat (block_size x)" and a: "a mod 4 = 0"
    and cmd: "cmd_flags cmd = 0" "resp_error_flags cmd = 0"
    and dir: "tx_data x = Some a \<and> rx_data x = None \<or> tx_data x = None \<and> rx_data x = Some a"
  shows "\<exists>st cmd' s'. hpm_sdmmc_transfer_polling D cmd (Some x) s = Some (st, cmd', s') \<and> dma_state G s' \<and>
     describes (job G (snd s')) cmd x a \<and> base_ram G (snd s') = fst s \<and> (st = status_success \<longrightarrow> phase G (snd s') = Done)"
proof -
  let ?s = "(fst s, clear_INT_STAT D (NOT 0) (snd s))"
  obtain desc cmd' where d: "sdxc_transfer_nonblocking D 12 cmd x ?s = (status_success, cmd', put_adma3 D desc ?s)" "describes desc cmd x a"
    "resp_error_flags cmd' = 0" using nonblocking_describes [OF n a cmd(1) dir] cmd(2) by metis
  have p: "job G (snd (put_adma3 D desc ?s)) = desc" "base_ram G (snd (put_adma3 D desc ?s)) = fst s" "dma_state G (put_adma3 D desc ?s)"
    using C(1) unfolding controller_ok_def by (metis fst_conv)+
  obtain v s1 where s1: "get_INT_STAT D (put_adma3 D desc ?s) = (v, s1)" by (metis surj_pair)
  note g = controller_get [OF C(1) p(3) s1]
  have nf: "phase G (snd s1) \<noteq> Failed" using C(2) s1 unfolding no_early_error_def by (metis snd_conv)
  obtain t w where w: "rt_tick_get D (snd s1) = (t, w)" by (metis surj_pair)
  note k = controller_tick [OF C(1) w] and st = tick_state [OF C(1) w, of "fst s1"]
  obtain r where r: "poll D (SDXC_INT_STAT_XFER_COMPLETE_MASK OR SDXC_STS_ERROR) t v status_success (fst s1, w) = Some r"
    using poll_from_now [OF C(3) w] by blast
  have "dma_state G (snd r) \<and> same_job G (snd (fst s1, w)) (snd (snd r)) \<and> (fst r = status_success \<longrightarrow> phase G (snd (snd r)) = Done)"
    using g nf k(2) st by (intro poll_result [OF r C(1) refl]) (auto simp: shows_phase_def split: dma_phase.splits)
  moreover have "snd (snd (finish_transfer D cmd' (fst r) (snd r))) = snd r" "fst (finish_transfer D cmd' (fst r) (snd r)) = fst r"
    using d(3) by (auto simp: finish_transfer_def sdxc_receive_cmd_response_def Let_def)
  moreover have "hpm_sdmmc_transfer_polling D cmd (Some x) s = Some (finish_transfer D cmd' (fst r) (snd r))"
    using d(1) s1 w r by (simp add: hpm_sdmmc_transfer_polling_def poll_complete_def Let_def case_prod_beta)
  ultimately show ?thesis using p d(2) g(2) k(1)
    by (cases "finish_transfer D cmd' (fst r) (snd r)") (auto simp: same_job_def)
qed

lemma recovery_frame:
  assumes "controller_ok D G" "dma_state G s"
  shows "dma_frame G (hpm_sdmmc_host_recovery D s)" "same_job G (snd s) (snd (hpm_sdmmc_host_recovery D s))"
proof -
  obtain v s1 where s1: "get_INT_STAT D s = (v, s1)" by (metis surj_pair)
  note g = controller_get [OF assms s1]
  have w: "same_job G w (clear_INT_STAT D n w)" "same_job G w (reset_cmd_line D w)" "same_job G w (reset_data_line D w)" for n w
    using assms(1) unfolding controller_ok_def by blast+
  have m: "dma_frame G s \<Longrightarrow> dma_frame G (rt_thread_mdelay D n s) \<and> same_job G (snd s) (snd (rt_thread_mdelay D n s))" for n s
    using assms(1) unfolding controller_ok_def by blast
  obtain w1 where w1: "hpm_sdmmc_host_recovery D s = rt_thread_mdelay D 10 (fst s1, w1)" "same_job G (snd s1) w1"
    using w by (simp add: hpm_sdmmc_host_recovery_def s1 Let_def same_job_def split: if_splits)
  have "dma_frame G (fst s1, w1)" using g(1) w1(2) by (simp add: dma_state_def dma_frame_def same_job_def)
  from m [OF this, of 10] show "dma_frame G (hpm_sdmmc_host_recovery D s)" "same_job G (snd s) (snd (hpm_sdmmc_host_recovery D s))"
    using w1 g(2) by (simp_all add: same_job_def)
qed

subsection \<open>Preparing the memory\<close>

text \<open>
  The driver's buffer: aligned as the DMA needs it, outside the cache or made of whole lines, and apart from the caller's.
\<close>

definition buffer_ok :: "mem_map \<Rightarrow> hpm_mmcsd \<Rightarrow> rt_mmcsd_data \<Rightarrow> bool" where
  "buffer_ok A mmcsd d \<longleftrightarrow> data_buf mmcsd mod 4 = 0 \<and>
     (if use_noncacheable_buf mmcsd then \<forall>x. within (data_buf mmcsd) (unat (data_buf_size mmcsd)) x \<longrightarrow> uncached A x
      else data_buf mmcsd mod CACHELINE_SIZE = 0) \<and>
     (\<forall>x. within (data_buf mmcsd) (unat (data_buf_size mmcsd)) x \<longrightarrow> \<not> within (buf d) (unat (blks d * blksize d)) x)"

lemma length_ram_seg [simp]: "length (ram_seg r a n) = n"
  by (simp add: ram_seg_def)

lemma ram_seg_load:
  "(\<And>x. within a n x \<Longrightarrow> dcache m x = None) \<Longrightarrow> n \<le> 2 ^ 32 \<Longrightarrow> ram_seg (main_ram m) a n = cpu_load a n m"
  by (auto simp: ram_seg_def cpu_load_def cpu_view_def within_offset)

lemma within_mono: "within a n x \<Longrightarrow> n \<le> k \<Longrightarrow> within a k x"
  by (simp add: within_def)

lemma align_up_ge:
  assumes "unat n \<le> 524288"
  shows "unat n \<le> unat (align_up n)" "unat (align_up n) < unat n + 64" "unat (align_up n - n) = unat (align_up n) - unat n"
proof -
  have "unat (align_up n) = (unat n + 63) div 64 * 64" using align_up_unat [of n] assms by simp
  then show le: "unat n \<le> unat (align_up n)" and "unat (align_up n) < unat n + 64" by linarith+
  show "unat (align_up n - n) = unat (align_up n) - unat n" using unat_minus_le [of n "align_up n"] le by (simp add: word_le_nat_alt)
qed

lemma within_tail:
  assumes "within (a + n) k x" "unat n + k < 2 ^ 32"
  shows "within a (unat n + k) x"
proof -
  have "unat (x - a) = unat (n + (x - (a + n)))" by (simp add: algebra_simps)
  also have "\<dots> = unat n + unat (x - (a + n))" using assms by (intro unat_plus_no_wrap) (simp add: within_def)
  finally show ?thesis using assms(1) by (simp add: within_def)
qed

lemma mod64_mod4:
  assumes "(x::u32) mod 64 = 0"
  shows "x mod 4 = 0"
proof -
  have "unat x mod 64 = 0" using assms by (simp only: aligned_unat)
  then have "unat x mod 4 = 0" by presburger
  then show ?thesis unfolding word_unat_eq_iff unat_mod_distrib by simp
qed

lemma fill_buffer:
  fixes b :: u32
  assumes m: "mem_ok A m" and n: "unat n \<le> 524288" "unat (align_up n) \<le> k" and vs: "length vs = unat n"
  defines "m' \<equiv> cpu_store A (b + n) (replicate (unat (align_up n - n)) 0) (cpu_store A b vs m)"
  shows "mem_ok A m'" "dev m' = dev m" "req_done m' = req_done m" "cpu_load b (unat n) m' = vs" "\<not> within b k x \<Longrightarrow> cpu_view m' x = cpu_view m x"
proof -
  show "mem_ok A m'" "dev m' = dev m" "req_done m' = req_done m" using m by (simp_all add: m'_def)
  note al = align_up_ge [OF n(1)]
  have t: "within b (unat (align_up n)) x \<and> \<not> within b (unat n) x" if w: "within (b + n) (unat (align_up n - n)) x" for x
  proof -
    have "unat n + unat (align_up n - n) = unat (align_up n)" using al by simp
    then have "within b (unat (align_up n)) x" using within_tail [OF w] unat_u32_bound [of "align_up n"] by simp
    moreover have "unat (x - b) = unat n + unat (x - (b + n))"
      using w al n(1) unat_plus_no_wrap [of n "x - (b + n)"] by (simp add: within_def algebra_simps)
    ultimately show ?thesis by (simp add: within_def)
  qed
  have v: "cpu_view m' x = (if within (b + n) (unat (align_up n - n)) x then 0 else if within b (unat n) x then vs ! unat (x - b) else cpu_view m x)" for x
    using m n vs al by (simp add: m'_def cpu_store_view within_def)
  show "cpu_load b (unat n) m' = vs"
  proof (intro nth_equalityI)
    fix i assume "i < length (cpu_load b (unat n) m')"
    then have i: "i < unat n" by simp
    then have "within b (unat n) (b + of_nat i)" using n(1) by (intro within_offset) simp_all
    then show "cpu_load b (unat n) m' ! i = vs ! i" using i n(1) t by (auto simp: v unat_of_nat32)
  qed (simp add: vs)
  show "cpu_view m' x = cpu_view m x" if "\<not> within b k x"
    using that t [of x] n(2) al(1) within_mono [of b "unat (align_up n)" x k] within_mono [of b "unat n" x k] by (auto simp: v)
qed

lemma prepare_write_ok:
  assumes m: "mem_ok A m" and b: "buffer_ok A mmcsd d" and n: "unat (blks d * blksize d) \<le> 524288"
    and fits: "bounced d \<longrightarrow> align_up (blks d * blksize d) \<le> data_buf_size mmcsd"
  shows "\<exists>a m1. prepare_write A mmcsd d m = Some (a, m1) \<and> mem_ok A m1 \<and> a mod 4 = 0 \<and> dev m1 = dev m \<and> req_done m1 = req_done m \<and>
    ram_seg (main_ram m1) a (unat (blks d * blksize d)) = cpu_load (buf d) (unat (blks d * blksize d)) m \<and>
    (\<forall>x. \<not> within (data_buf mmcsd) (unat (data_buf_size mmcsd)) x \<longrightarrow> cpu_view m1 x = cpu_view m x)"
proof (cases "bounced d")
  case False
  then have al: "buf d mod 64 = 0" "(blks d * blksize d) mod 64 = 0" by (simp_all add: bounced_def)
  obtain m1 where m1: "l1c_dc_flush (buf d) (blks d * blksize d) m = Some m1" "mem_ok A m1" "cpu_view m1 = cpu_view m" "dev m1 = dev m"
    "req_done m1 = req_done m" "\<And>x. within (buf d) (unat (blks d * blksize d)) x \<Longrightarrow> dcache m1 x = None" using flush_works [OF m al] by blast
  have "ram_seg (main_ram m1) (buf d) (unat (blks d * blksize d)) = cpu_load (buf d) (unat (blks d * blksize d)) m1"
    using ram_seg_load [OF m1(6)] n by simp
  also have "\<dots> = cpu_load (buf d) (unat (blks d * blksize d)) m" by (simp add: cpu_load_def m1(3))
  finally show ?thesis using m1 False mod64_mod4 [OF al(1)] by (simp add: prepare_write_def Let_def)
next
  case True
  let ?n = "blks d * blksize d" and ?b = "data_buf mmcsd"
  let ?m = "cpu_store A (?b + ?n) (replicate (unat (align_up ?n - ?n)) 0) (cpu_store A ?b (cpu_load (buf d) (unat ?n) m) m)"
  have k: "unat (align_up ?n) \<le> unat (data_buf_size mmcsd)" using fits True by (simp add: word_le_nat_alt)
  note f = fill_buffer [OF m n k, of "cpu_load (buf d) (unat ?n) m" ?b, simplified cpu_load_length, OF refl]
  note le = align_up_ge(1) [OF n]
  show ?thesis
  proof (cases "use_noncacheable_buf mmcsd")
    case nc: True
    have "dcache ?m x = None" if "within ?b (unat ?n) x" for x
      using b nc f(1) within_mono [OF that order_trans [OF le k]] by (auto simp: buffer_ok_def mem_ok_def)
    then have "ram_seg (main_ram ?m) ?b (unat ?n) = cpu_load (buf d) (unat ?n) m" using ram_seg_load [of ?b "unat ?n" ?m] n f(4) by simp
    then show ?thesis using nc True f b by (simp add: prepare_write_def Let_def buffer_ok_def)
  next
    case nc: False
    then have al: "?b mod 64 = 0" using b by (simp add: buffer_ok_def)
    obtain m1 where m1: "l1c_dc_flush ?b (align_up ?n) ?m = Some m1" "mem_ok A m1" "cpu_view m1 = cpu_view ?m" "dev m1 = dev ?m"
      "req_done m1 = req_done ?m" "\<And>x. within ?b (unat (align_up ?n)) x \<Longrightarrow> dcache m1 x = None" using flush_works [OF f(1) al align_up_aligned] by blast
    have "ram_seg (main_ram m1) ?b (unat ?n) = cpu_load ?b (unat ?n) m1"
      using m1(6) within_mono [OF _ le] n by (intro ram_seg_load) auto
    also have "\<dots> = cpu_load ?b (unat ?n) ?m" by (simp add: cpu_load_def m1(3))
    finally have "ram_seg (main_ram m1) ?b (unat ?n) = cpu_load (buf d) (unat ?n) m" using f(4) by simp
    then show ?thesis using nc True f m1 mod64_mod4 [OF al] by (simp add: prepare_write_def Let_def)
  qed
qed

lemma prepare_read_ok:
  assumes m: "mem_ok A m" and b: "buffer_ok A mmcsd d" and n: "unat (blks d * blksize d) \<le> 524288"
    and fits: "bounced d \<longrightarrow> align_up (blks d * blksize d) \<le> data_buf_size mmcsd"
  shows "\<exists>a m1. prepare_read mmcsd d m = Some (a, m1) \<and> mem_ok A m1 \<and> a mod 4 = 0 \<and> dev m1 = dev m \<and> req_done m1 = req_done m \<and>
    a = (if bounced d then data_buf mmcsd else buf d) \<and> (\<forall>x. within a (unat (blks d * blksize d)) x \<longrightarrow> dcache m1 x = None) \<and>
    (\<forall>x. \<not> within (data_buf mmcsd) (unat (data_buf_size mmcsd)) x \<and> (bounced d \<or> \<not> within (buf d) (unat (blks d * blksize d)) x) \<longrightarrow>
      cpu_view m1 x = cpu_view m x)"
proof (cases "bounced d \<and> use_noncacheable_buf mmcsd")
  case True
  let ?n = "blks d * blksize d" and ?b = "data_buf mmcsd"
  have k: "unat ?n \<le> unat (data_buf_size mmcsd)" using fits True align_up_ge(1) [OF n] by (simp add: word_le_nat_alt)
  have "dcache m x = None" if "within ?b (unat ?n) x" for x
    using b m True within_mono [OF that k] by (auto simp: buffer_ok_def mem_ok_def)
  then show ?thesis using True m b by (simp add: prepare_read_def Let_def buffer_ok_def)
next
  case False
  let ?n = "blks d * blksize d"
  let ?a = "if bounced d then data_buf mmcsd else buf d" and ?s = "if bounced d then align_up ?n else ?n"
  have al: "?a mod 64 = 0" "?s mod 64 = 0" using False b by (auto simp: buffer_ok_def bounced_def)
  obtain m1 where m1: "l1c_dc_invalidate ?a ?s m = Some m1" "mem_ok A m1" "main_ram m1 = main_ram m" "dev m1 = dev m" "req_done m1 = req_done m"
    "\<And>x. dcache m1 x = (if within ?a (unat ?s) x then None else dcache m x)" using invalidate_works [OF m al] by blast
  have le: "unat ?n \<le> unat ?s" using align_up_ge(1) [OF n] by simp
  have "dcache m1 x = None" if "within ?a (unat ?n) x" for x using within_mono [OF that le] m1(6) by simp
  moreover have "cpu_view m1 x = cpu_view m x" if x: "\<not> within (data_buf mmcsd) (unat (data_buf_size mmcsd)) x" "bounced d \<or> \<not> within (buf d) (unat ?n) x" for x
  proof -
    have "\<not> within ?a (unat ?s) x" using x fits within_mono [of "data_buf mmcsd" "unat (align_up ?n)" x "unat (data_buf_size mmcsd)"]
      by (auto simp: word_le_nat_alt)
    then have "dcache m1 x = dcache m x" using m1(6) [of x] by simp
    then show ?thesis unfolding cpu_view_def m1(3) by simp
  qed
  moreover have "prepare_read mmcsd d m = Some (?a, m1)" using False m1(1) by (simp add: prepare_read_def Let_def)
  ultimately show ?thesis using m1 mod64_mod4 [OF al(1)] by (intro exI [of _ ?a] exI [of _ m1]) simp
qed

subsection \<open>Requests\<close>

text \<open>The memory after a transfer that writes only where the cache holds nothing.\<close>

lemma dma_into_uncached:
  assumes m: "mem_ok A m" and u: "\<forall>x. within a n x \<longrightarrow> dcache m x = None" and r: "\<forall>x. \<not> within a n x \<longrightarrow> r x = main_ram m x"
  shows "mem_ok A (m\<lparr> main_ram := r, dev := w \<rparr>)" "\<not> within a n x \<Longrightarrow> cpu_view (m\<lparr> main_ram := r, dev := w \<rparr>) x = cpu_view m x"
    "n \<le> 2 ^ 32 \<Longrightarrow> cpu_load a n (m\<lparr> main_ram := r, dev := w \<rparr>) = ram_seg r a n"
proof -
  have "r x = v" if "dcache m x = Some (False, v)" for x v using that u r m by (cases "within a n x") (auto simp: mem_ok_def)
  then show "mem_ok A (m\<lparr> main_ram := r, dev := w \<rparr>)" using m by (simp add: mem_ok_def)
  show "\<not> within a n x \<Longrightarrow> cpu_view (m\<lparr> main_ram := r, dev := w \<rparr>) x = cpu_view m x" using r by (simp add: cpu_view_def split: option.split)
  show "n \<le> 2 ^ 32 \<Longrightarrow> cpu_load a n (m\<lparr> main_ram := r, dev := w \<rparr>) = ram_seg r a n"
    using ram_seg_load [of a n "m\<lparr> main_ram := r, dev := w \<rparr>"] u by simp
qed


lemma run_data:
  assumes C: "controller_ok D G" "no_early_error D G" "clock_runs D us k"
    and n: "unat (block_cnt x) * unat (block_size x) \<le> 524288" "4 dvd unat (block_cnt x) * unat (block_size x)" and a: "a mod 4 = 0"
    and sc: "cmd_flags sc = 0" "resp_error_flags sc = 0"
    and dir: "tx_data x = Some a \<and> rx_data x = None \<or> tx_data x = None \<and> rx_data x = Some a"
    and cmd: "\<not> enable_interrupt_driven mmcsd" "data cmd = Some d" "err cmd = 0"
  shows "\<exists>cmd' r w. dma_frame G (r, w) \<and> describes (job G w) sc x a \<and> base_ram G w = main_ram m \<and>
    (err cmd' = 0 \<longrightarrow> on_bus G w = ram_seg r a (unat (block_cnt x) * unat (block_size x))) \<and>
    run_transfer D A mmcsd cmd sc (Some x) m = Some (cmd', (let m2 = m\<lparr> main_ram := r, dev := w \<rparr> in
      if rx_data x \<noteq> None \<and> err cmd' = 0 \<and> bounced d then cpu_store A (buf d) (cpu_load (data_buf mmcsd) (unat (blks d * blksize d)) m2) m2
      else m2)\<lparr> req_done := req_done m + 1 \<rparr>)"
proof -
  obtain st sc' s where t: "hpm_sdmmc_transfer_polling D sc (Some x) (main_ram m, dev m) = Some (st, sc', s)" "dma_state G s"
    "describes (job G (snd s)) sc x a" "base_ram G (snd s) = main_ram m" "st = status_success \<longrightarrow> phase G (snd s) = Done"
    using transfer_data [OF C n a sc dir, of "(main_ram m, dev m)"] by auto
  define s2 where "s2 = (if st \<noteq> status_success then hpm_sdmmc_host_recovery D s else s)"
  have s2: "dma_frame G s2" "same_job G (snd s) (snd s2)"
    using recovery_frame [OF C(1) t(2)] t(2) by (simp_all add: s2_def dma_state_def same_job_def)
  define cmd1 where "cmd1 = (if st \<noteq> status_success then cmd\<lparr> err := transfer_error st \<rparr> else cmd)"
  define cmd' where "cmd' = (if flags cmd1 AND RESP_MASK = 3
      then cmd1\<lparr> resp := [response sc' ! 3, response sc' ! 2, response sc' ! 1, response sc' ! 0] \<rparr>
      else cmd1\<lparr> resp := (resp cmd1)[0 := response sc' ! 0] \<rparr>)"
  have e: "err cmd' = 0 \<longleftrightarrow> st = status_success" "err cmd' = err cmd1" "data cmd1 = Some d"
    using cmd by (simp_all add: cmd'_def cmd1_def transfer_error_def)
  have "err cmd' = 0 \<longrightarrow> on_bus G (snd s2) = ram_seg (fst s2) a (unat (block_cnt x) * unat (block_size x))"
    using e(1) t(2,3,5) by (simp add: s2_def dma_state_def describes_def)
  moreover have "run_transfer D A mmcsd cmd sc (Some x) m = Some (cmd', (let m2 = m\<lparr> main_ram := fst s2, dev := snd s2 \<rparr> in
      if rx_data x \<noteq> None \<and> err cmd' = 0 \<and> bounced d then cpu_store A (buf d) (cpu_load (data_buf mmcsd) (unat (blks d * blksize d)) m2) m2
      else m2)\<lparr> req_done := req_done m + 1 \<rparr>)"
    unfolding run_transfer_def hpm_sdmmc_transfer_def using t(1) cmd(1) e(2,3)
    by (simp add: Let_def flip: s2_def cmd1_def) (auto simp: cmd'_def)
  ultimately show ?thesis using s2 t(3,4) by (intro exI [of _ cmd'] exI [of _ "fst s2"] exI [of _ "snd s2"]) (simp add: same_job_def)
qed


text \<open>The words written to the controller for a request.\<close>

definition issued :: "adma3_desc \<Rightarrow> rt_mmcsd_cmd \<Rightarrow> rt_mmcsd_data \<Rightarrow> bool" where
  "issued desc cmd d \<longleftrightarrow> desc_arg desc = arg cmd \<and> desc_block_cnt desc = blks d \<and> desc_block_size desc = blksize d \<and>
     (desc_reads desc \<longleftrightarrow> \<not> is_write d) \<and> (\<forall>i<6. bit (desc_cmd_xfer desc) (24 + i) = bit (cmd_code cmd) i)"

text \<open>The state after the transfer, before the copy back.\<close>

lemma run_request:
  assumes C: "controller_ok D G" "no_early_error D G" "clock_runs D us k"
    and a: "a mod 4 = 0" and mode: "\<not> enable_interrupt_driven mmcsd" and cmd: "data cmd = Some d" "err cmd = 0"
    and n: "n = unat (blks d) * unat (blksize d)" "n \<le> 524288" "4 dvd n"
  shows "\<exists>cmd' r w. (\<forall>x. \<not> (\<not> is_write d \<and> within a n x) \<longrightarrow> r x = main_ram m x) \<and> issued (job G w) cmd d \<and> (err cmd' = 0 \<longrightarrow> on_bus G w = ram_seg r a n) \<and>
    run_transfer D A mmcsd cmd (sdxc_cmd_of cmd rt) (Some (sdxc_data_of cmd d a)) m = Some (cmd', (let m2 = m\<lparr> main_ram := r, dev := w \<rparr> in
      if \<not> is_write d \<and> err cmd' = 0 \<and> bounced d then cpu_store A (buf d) (cpu_load (data_buf mmcsd) n m2) m2 else m2)\<lparr> req_done := req_done m + 1 \<rparr>)"
proof -
  let ?x = "sdxc_data_of cmd d a" and ?sc = "sdxc_cmd_of cmd rt"
  have x: "unat (block_cnt ?x) * unat (block_size ?x) = n" "tx_data ?x = Some a \<and> rx_data ?x = None \<or> tx_data ?x = None \<and> rx_data ?x = Some a"
    "rx_data ?x \<noteq> None \<longleftrightarrow> \<not> is_write d" using n(1) by (simp_all add: sdxc_data_of_def)
  have sc: "cmd_flags ?sc = 0" "resp_error_flags ?sc = 0" by (simp_all add: sdxc_cmd_of_def)
  have u: "unat (blks d * blksize d) = n" using n by (simp add: unat_word_ariths)
  obtain cmd' r w where r: "dma_frame G (r, w)" "describes (job G w) ?sc ?x a" "base_ram G w = main_ram m" "err cmd' = 0 \<longrightarrow> on_bus G w = ram_seg r a n"
    "run_transfer D A mmcsd cmd ?sc (Some ?x) m = Some (cmd', (let m2 = m\<lparr> main_ram := r, dev := w \<rparr> in
      if \<not> is_write d \<and> err cmd' = 0 \<and> bounced d then cpu_store A (buf d) (cpu_load (data_buf mmcsd) n m2) m2 else m2)\<lparr> req_done := req_done m + 1 \<rparr>)"
    using run_data [OF C _ _ a sc x(2) mode cmd, where A = A and m = m] n(2,3) unfolding x(1,3) u by blast
  have "issued (job G w) cmd d" using r(2) x(3) by (simp add: describes_def issued_def sdxc_cmd_of_def sdxc_data_of_def)
  moreover have "\<forall>x. \<not> (\<not> is_write d \<and> within a n x) \<longrightarrow> r x = main_ram m x" using r(1-3) x(1,3) by (simp add: dma_frame_def describes_def)
  ultimately show ?thesis using r(4,5) by blast
qed

definition exact_outcome ::
  "'w dma_ghost \<Rightarrow> mem_map \<Rightarrow> hpm_mmcsd \<Rightarrow> rt_mmcsd_cmd \<Rightarrow> rt_mmcsd_data \<Rightarrow> nat \<Rightarrow> 'w machine \<Rightarrow> rt_mmcsd_cmd \<Rightarrow> 'w machine \<Rightarrow> bool" where
  "exact_outcome G A mmcsd cmd d n m cmd' m' \<longleftrightarrow> mem_ok A m' \<and> req_done m' = req_done m + 1 \<and>
    (\<forall>x. \<not> within (data_buf mmcsd) (unat (data_buf_size mmcsd)) x \<and> \<not> (\<not> is_write d \<and> within (buf d) n x) \<longrightarrow> cpu_view m' x = cpu_view m x) \<and>
    (err cmd' = 0 \<longrightarrow> issued (job G (dev m')) cmd d \<and> on_bus G (dev m') = cpu_load (buf d) n (if is_write d then m else m'))"

lemma write_exact:
  assumes C: "controller_ok D G" "no_early_error D G" "clock_runs D us k"
    and mem: "mem_ok A m" "buffer_ok A mmcsd d" "\<not> enable_interrupt_driven mmcsd" and cmd: "data cmd = Some d" "err cmd = 0"
    and n: "n = unat (blks d) * unat (blksize d)" "n \<le> 524288" "4 dvd n"
    and fits: "bounced d \<longrightarrow> align_up (blks d * blksize d) \<le> data_buf_size mmcsd" and w: "is_write d"
  shows "\<exists>a m1 cmd' m'. prepare_write A mmcsd d m = Some (a, m1) \<and>
    run_transfer D A mmcsd cmd (sdxc_cmd_of cmd rt) (Some (sdxc_data_of cmd d a)) m1 = Some (cmd', m') \<and> exact_outcome G A mmcsd cmd d n m cmd' m'"
proof -
  have u: "unat (blks d * blksize d) = n" using n by (simp add: unat_word_ariths)
  obtain a m1 where p: "prepare_write A mmcsd d m = Some (a, m1)" "mem_ok A m1" "a mod 4 = 0" "dev m1 = dev m" "req_done m1 = req_done m"
    "ram_seg (main_ram m1) a n = cpu_load (buf d) n m"
    "\<And>x. \<not> within (data_buf mmcsd) (unat (data_buf_size mmcsd)) x \<Longrightarrow> cpu_view m1 x = cpu_view m x"
    using prepare_write_ok [OF mem(1,2) n(2) [folded u] fits, unfolded u] by (elim exE conjE) (erule that; blast)
  obtain cmd' r v where r: "\<forall>x. r x = main_ram m1 x" "issued (job G v) cmd d" "err cmd' = 0 \<longrightarrow> on_bus G v = ram_seg r a n"
    "run_transfer D A mmcsd cmd (sdxc_cmd_of cmd rt) (Some (sdxc_data_of cmd d a)) m1 = Some (cmd', m1\<lparr> main_ram := r, dev := v, req_done := req_done m1 + 1 \<rparr>)"
    using run_request [OF C p(3) mem(3) cmd n, where m = m1 and A = A and rt = rt] w by auto
  have "r = main_ram m1" using r(1) by auto
  then have "exact_outcome G A mmcsd cmd d n m cmd' (m1\<lparr> main_ram := r, dev := v, req_done := req_done m1 + 1 \<rparr>)"
    using p r(2,3) w by (simp add: exact_outcome_def)
  then show ?thesis using p(1) r(4) by blast
qed

lemma read_exact:
  assumes C: "controller_ok D G" "no_early_error D G" "clock_runs D us k"
    and mem: "mem_ok A m" "buffer_ok A mmcsd d" "\<not> enable_interrupt_driven mmcsd" and cmd: "data cmd = Some d" "err cmd = 0"
    and n: "n = unat (blks d) * unat (blksize d)" "n \<le> 524288" "4 dvd n"
    and fits: "bounced d \<longrightarrow> align_up (blks d * blksize d) \<le> data_buf_size mmcsd" and w: "\<not> is_write d"
  shows "\<exists>a m1 cmd' m'. prepare_read mmcsd d m = Some (a, m1) \<and>
    run_transfer D A mmcsd cmd (sdxc_cmd_of cmd rt) (Some (sdxc_data_of cmd d a)) m1 = Some (cmd', m') \<and> exact_outcome G A mmcsd cmd d n m cmd' m'"
proof -
  let ?b = "data_buf mmcsd"
  have u: "unat (blks d * blksize d) = n" using n by (simp add: unat_word_ariths)
  obtain a m1 where p: "prepare_read mmcsd d m = Some (a, m1)" "mem_ok A m1" "a mod 4 = 0" "dev m1 = dev m" "req_done m1 = req_done m"
    "a = (if bounced d then ?b else buf d)" "\<forall>x. within a n x \<longrightarrow> dcache m1 x = None"
    "\<And>x. \<not> within ?b (unat (data_buf_size mmcsd)) x \<Longrightarrow> bounced d \<or> \<not> within (buf d) n x \<Longrightarrow> cpu_view m1 x = cpu_view m x"
    using prepare_read_ok [OF mem(1,2) n(2) [folded u] fits, unfolded u] by (elim exE conjE) (erule that; blast)
  obtain cmd' r v where r: "\<forall>x. \<not> within a n x \<longrightarrow> r x = main_ram m1 x" "issued (job G v) cmd d" "err cmd' = 0 \<longrightarrow> on_bus G v = ram_seg r a n"
    "run_transfer D A mmcsd cmd (sdxc_cmd_of cmd rt) (Some (sdxc_data_of cmd d a)) m1 = Some (cmd', (let m2 = m1\<lparr> main_ram := r, dev := v \<rparr> in
      if err cmd' = 0 \<and> bounced d then cpu_store A (buf d) (cpu_load ?b n m2) m2 else m2)\<lparr> req_done := req_done m1 + 1 \<rparr>)"
    using run_request [OF C p(3) mem(3) cmd n, where m = m1 and A = A and rt = rt] w by auto
  note d = dma_into_uncached [OF p(2,7) r(1), where w = v]
  let ?m2 = "m1\<lparr> main_ram := r, dev := v \<rparr>"
  have lb: "within ?b (unat (data_buf_size mmcsd)) x" if "bounced d" "within ?b n x" for x
    using that fits align_up_ge(1) [of "blks d * blksize d"] u n(2) within_mono [of ?b n x "unat (data_buf_size mmcsd)"] by (simp add: word_le_nat_alt)
  have v2: "cpu_view ?m2 x = cpu_view m x" if "\<not> within ?b (unat (data_buf_size mmcsd)) x" "bounced d \<or> \<not> within (buf d) n x" for x
  proof -
    have "\<not> within a n x" using that p(6) lb [of x] by auto
    then show ?thesis using d(2) [of x] p(8) [OF that] by simp
  qed
  have "exact_outcome G A mmcsd cmd d n m cmd' ((if err cmd' = 0 \<and> bounced d then cpu_store A (buf d) (cpu_load ?b n ?m2) ?m2 else ?m2)\<lparr> req_done := req_done m1 + 1 \<rparr>)"
    using d(1,3) p(5,6) r(2,3) v2 w n(2) by (cases "bounced d") (simp_all add: exact_outcome_def cpu_store_view)
  then show ?thesis using p(1) r(4) by (auto simp: Let_def)
qed

lemma request_outcome:
  assumes C: "controller_ok D G" "no_early_error D G" "clock_runs D us k"
    and mem: "mem_ok A m" "buffer_ok A mmcsd d" "\<not> enable_interrupt_driven mmcsd"
    and cmd: "data cmd = Some d" "err cmd = 0" "resp_of_flags (flags cmd AND RESP_MASK) \<noteq> None"
    and n: "n = unat (blks d) * unat (blksize d)" "n \<le> 524288" "4 dvd n"
  shows "\<exists>cmd' m'. hpm_sdmmc_request D A mmcsd cmd m = Some (cmd', m') \<and> exact_outcome G A mmcsd cmd d n m cmd' m'"
proof -
  obtain rt where rt: "resp_of_flags (flags cmd AND RESP_MASK) = Some rt" using cmd(3) by auto
  let ?n = "blks d * blksize d"
  show ?thesis
  proof (cases "?n = 0 \<or> bounced d \<and> align_up ?n > data_buf_size mmcsd")
    case True
    then have "hpm_sdmmc_request D A mmcsd cmd m = Some (cmd\<lparr> err := - RT_EINVAL \<rparr>, m\<lparr> req_done := req_done m + 1 \<rparr>)"
      using rt cmd(1) by (auto simp: hpm_sdmmc_request_def Let_def)
    then show ?thesis using mem(1) by (simp add: exact_outcome_def)
  next
    case False
    then have fits: "bounced d \<longrightarrow> align_up ?n \<le> data_buf_size mmcsd" by auto
    have "\<exists>a m1 cmd' m'. (if is_write d then prepare_write A mmcsd d m else prepare_read mmcsd d m) = Some (a, m1) \<and>
        run_transfer D A mmcsd cmd (sdxc_cmd_of cmd rt) (Some (sdxc_data_of cmd d a)) m1 = Some (cmd', m') \<and> exact_outcome G A mmcsd cmd d n m cmd' m'"
      using write_exact [OF C mem cmd(1,2) n fits] read_exact [OF C mem cmd(1,2) n fits] by (cases "is_write d") simp_all
    then show ?thesis using rt cmd(1) False by (fastforce simp: hpm_sdmmc_request_def Let_def)
  qed
qed

text \<open>
  C6: A polled request moves exactly its bytes, if no error shows too early. With the driver in polling mode, on a controller that does what it reports and that shows
  no error at the first reading of its status (such an error is taken for success, which is proved below), a data request of
  up to 512 KiB and a multiple of 4 bytes returns, whatever the cache holds and wherever the caller's buffer lies. If it reports no error, the controller was given the
  command, argument and block layout of the request, and the bytes on the bus are those of the caller's buffer as the processor sees it: before
  the request for a write, after it for a read. Error or not, the processor sees no change outside the driver's buffer and, for a read, the caller's, and the
  cache is consistent again.
\<close>

theorem request_data_exact:
  assumes C: "controller_ok D G" "no_early_error D G" "clock_runs D us k"
    and mem: "mem_ok A m" "buffer_ok A mmcsd d" "\<not> enable_interrupt_driven mmcsd"
    and cmd: "data cmd = Some d" "err cmd = 0" "resp_of_flags (flags cmd AND RESP_MASK) \<noteq> None"
    and n: "n = unat (blks d) * unat (blksize d)" "n \<le> 524288" "4 dvd n"
  shows "\<exists>cmd' m'. hpm_sdmmc_request D A mmcsd cmd m = Some (cmd', m') \<and> mem_ok A m' \<and> req_done m' = req_done m + 1 \<and>
    (\<forall>x. \<not> within (data_buf mmcsd) (unat (data_buf_size mmcsd)) x \<and> \<not> (\<not> is_write d \<and> within (buf d) n x) \<longrightarrow> cpu_view m' x = cpu_view m x) \<and>
    (err cmd' = 0 \<longrightarrow> issued (job G (dev m')) cmd d \<and> on_bus G (dev m') = cpu_load (buf d) n (if is_write d then m else m'))"
  using request_outcome [OF assms] unfolding exact_outcome_def .

subsection \<open>Errors the driver misses or makes\<close>

lemma and_or_nonzero: "(v::u32) AND e \<noteq> 0 \<Longrightarrow> v AND (x OR e) \<noteq> 0"
  by (auto simp: bit.conj_disj_distrib or_eq_0_iff)

text \<open>If the first status read shows an error, the loop ends at once with the status of the start of the transfer.\<close>

lemma first_poll_error:
  assumes e: "fst (get_INT_STAT D s) AND SDXC_STS_ERROR \<noteq> 0" and r: "resp_error_flags cmd = 0"
  shows "\<exists>cmd' s'. poll_complete D cmd status_success s = Some (status_success, cmd', s')"
proof -
  obtain v s1 where s1: "get_INT_STAT D s = (v, s1)" by (metis surj_pair)
  then have "v AND SDXC_STS_ERROR \<noteq> 0" using e by (metis fst_conv)
  then have "poll D (SDXC_INT_STAT_XFER_COMPLETE_MASK OR SDXC_STS_ERROR) t v status_success s = Some (status_success, s)" for t s
    by (subst poll.simps) (simp only: and_or_nonzero not_False_eq_True if_True)
  then have "poll_complete D cmd status_success s = Some (finish_transfer D cmd status_success (fst s1, snd (rt_tick_get D (snd s1))))"
    unfolding poll_complete_def Let_def s1 by (simp only: prod.case case_prod_beta option.map fst_conv snd_conv)
  moreover have "fst (finish_transfer D cmd status_success s) = status_success" for s
    using r by (simp add: finish_transfer_def sdxc_receive_cmd_response_def Let_def)
  ultimately show ?thesis by (metis prod.collapse)
qed

text \<open>
  A data request is successful if the wait for its end is, whatever the controller holds when the transfer starts. The first word of the response
  is what the wait leaves in the command.
\<close>

lemma request_success_if:
  assumes wait: "\<forall>desc s c. resp_error_flags c = 0 \<and> response c = [0, 0, 0, 0] \<longrightarrow>
      (\<exists>c' s'. poll_complete D c status_success (put_adma3 D desc s) = Some (status_success, c', s') \<and> P (response c' ! 0))"
    and mmcsd: "\<not> enable_interrupt_driven mmcsd" "use_noncacheable_buf mmcsd \<or> data_buf mmcsd mod 64 = 0" "data_buf mmcsd mod 4 = 0"
    and cmd: "data cmd = Some d" "err cmd = 0" "resp_of_flags (flags cmd AND RESP_MASK) \<noteq> None"
    and n: "n = unat (blks d) * unat (blksize d)" "0 < n" "n \<le> 524288" "4 dvd n" "unat (data_buf_size mmcsd) \<ge> n + 64"
  shows "\<exists>cmd' m'. hpm_sdmmc_request D A mmcsd cmd m = Some (cmd', m') \<and> err cmd' = 0 \<and>
    (flags cmd AND RESP_MASK \<noteq> 3 \<and> resp cmd \<noteq> [] \<longrightarrow> P (resp cmd' ! 0))"
proof -
  let ?n = "blks d * blksize d"
  have u: "unat ?n = n" using n by (simp add: unat_word_ariths)
  obtain rt where rt: "resp_of_flags (flags cmd AND RESP_MASK) = Some rt" using cmd(3) by auto
  have fits: "\<not> align_up ?n > data_buf_size mmcsd" using align_up_ge(2) [of ?n] u n by (simp add: word_less_nat_alt)
  obtain a m1 where p: "(if is_write d then prepare_write A mmcsd d m else prepare_read mmcsd d m) = Some (a, m1)"
    using prepare_returns [OF mmcsd(2)] by blast
  have "a = (if bounced d then data_buf mmcsd else buf d)" using p by (auto simp: prepare_write_def prepare_read_def Let_def split: if_splits)
  then have a: "a mod 4 = 0" using mmcsd(3) mod64_mod4 [of "buf d"] by (auto simp: bounced_def)
  let ?x = "sdxc_data_of cmd d a" and ?sc = "sdxc_cmd_of cmd rt"
  have x: "unat (block_cnt ?x) * unat (block_size ?x) = n" "tx_data ?x = Some a \<and> rx_data ?x = None \<or> tx_data ?x = None \<and> rx_data ?x = Some a"
    using n(1) by (simp_all add: sdxc_data_of_def)
  have sc: "cmd_flags ?sc = 0" "resp_error_flags ?sc = 0" "response ?sc = [0, 0, 0, 0]" by (simp_all add: sdxc_cmd_of_def)
  let ?s = "(main_ram m1, clear_INT_STAT D (NOT 0) (dev m1))"
  obtain desc cmd1 where d: "sdxc_transfer_nonblocking D 12 ?sc ?x ?s = (status_success, cmd1, put_adma3 D desc ?s)"
      "resp_error_flags cmd1 = 0 \<and> response cmd1 = [0, 0, 0, 0]"
    using nonblocking_describes [OF _ _ a sc(1) x(2), of D ?s] n x(1) sc(2,3) by auto
  obtain cmd2 s2 where w: "poll_complete D cmd1 status_success (put_adma3 D desc ?s) = Some (status_success, cmd2, s2)" "P (response cmd2 ! 0)"
    using wait d(2) by blast
  then have t: "hpm_sdmmc_transfer_polling D ?sc (Some ?x) (main_ram m1, dev m1) = Some (status_success, cmd2, s2)"
    using d(1) by (simp add: hpm_sdmmc_transfer_polling_def Let_def)
  have "\<exists>cmd' m'. run_transfer D A mmcsd cmd ?sc (Some ?x) m1 = Some (cmd', m') \<and> err cmd' = 0 \<and>
      (flags cmd AND RESP_MASK \<noteq> 3 \<and> resp cmd \<noteq> [] \<longrightarrow> P (resp cmd' ! 0))"
    using t w(2) mmcsd(1) cmd(2) by (simp add: run_transfer_def hpm_sdmmc_transfer_def Let_def)
  then show ?thesis using rt cmd(1) p fits u n(2) by (auto simp: hpm_sdmmc_request_def Let_def)
qed

text \<open>
  C37: An error that is there at the first poll is lost. On a controller that shows an error for every transfer before the driver first
  reads the status, every data request is reported as successful: the waiting loop is not entered, and the status it would have set
  keeps the value of the successful start.
\<close>

theorem early_error_lost:
  assumes broken: "\<forall>desc s. fst (get_INT_STAT D (put_adma3 D desc s)) AND SDXC_STS_ERROR \<noteq> 0"
    and mmcsd: "\<not> enable_interrupt_driven mmcsd" "use_noncacheable_buf mmcsd \<or> data_buf mmcsd mod 64 = 0" "data_buf mmcsd mod 4 = 0"
    and cmd: "data cmd = Some d" "err cmd = 0" "resp_of_flags (flags cmd AND RESP_MASK) \<noteq> None"
    and n: "n = unat (blks d) * unat (blksize d)" "0 < n" "n \<le> 524288" "4 dvd n" "unat (data_buf_size mmcsd) \<ge> n + 64"
  shows "\<exists>cmd' m'. hpm_sdmmc_request D A mmcsd cmd m = Some (cmd', m') \<and> err cmd' = 0"
proof -
  have "\<forall>desc s c. resp_error_flags c = 0 \<and> response c = [0, 0, 0, 0] \<longrightarrow>
      (\<exists>c' s'. poll_complete D c status_success (put_adma3 D desc s) = Some (status_success, c', s') \<and> True)"
    using first_poll_error broken by blast
  from request_success_if [OF this mmcsd cmd n] show ?thesis by blast
qed


text \<open>
  A length that is not a multiple of 4 is refused by the descriptor, so the request fails although its buffer was padded. RT-Thread's layer passes
  such lengths on: the rest of a byte transfer is as long as the caller asked for.
\<close>

lemma odd_length_refused:
  assumes n: "n = unat (blks d) * unat (blksize d)" "n \<le> 524288" "\<not> 4 dvd n" "unat (data_buf_size mmcsd) \<ge> n + 64"
    and mmcsd: "\<not> enable_interrupt_driven mmcsd" "use_noncacheable_buf mmcsd \<or> data_buf mmcsd mod 64 = 0"
    and cmd: "data cmd = Some d" "resp_of_flags (flags cmd AND RESP_MASK) \<noteq> None"
  shows "\<exists>cmd' m'. hpm_sdmmc_request D A mmcsd cmd m = Some (cmd', m') \<and> err cmd' = - RT_EIO"
proof -
  let ?n = "blks d * blksize d"
  have u: "unat ?n = n" using n by (simp add: unat_word_ariths)
  have n0: "n \<noteq> 0" using n(3) by (metis dvd_0_right)
  obtain rt where rt: "resp_of_flags (flags cmd AND RESP_MASK) = Some rt" using cmd(2) by auto
  have fits: "\<not> align_up ?n > data_buf_size mmcsd" using align_up_ge(2) [of ?n] u n by (simp add: word_less_nat_alt)
  obtain a m1 where p: "(if is_write d then prepare_write A mmcsd d m else prepare_read mmcsd d m) = Some (a, m1)"
    using prepare_returns [OF mmcsd(2)] by blast
  let ?x = "sdxc_data_of cmd d a" and ?sc = "sdxc_cmd_of cmd rt"
  have "unat (?n mod 4) \<noteq> 0" using n(3) u by (simp add: unat_mod_distrib dvd_eq_mod_eq_0)
  then have m4: "?n mod 4 \<noteq> 0" by (metis unat_0)
  have le: "\<not> ?n > 512 * 1024" using n(2) u by (simp add: word_less_nat_alt)
  have "sdxc_set_adma2_desc 10 ?x = Inl status_sdxc_dma_addr_or_len_unaligned"
    unfolding sdxc_set_adma2_desc_def sdxc_data_of_def Let_def sdxc_data.simps using m4 le by (simp only:) simp
  then obtain c s where "sdxc_transfer_nonblocking D 12 ?sc ?x (main_ram m1, clear_INT_STAT D (NOT 0) (dev m1)) = (status_sdxc_dma_addr_or_len_unaligned, c, s)"
    by (simp add: sdxc_transfer_nonblocking_def sdxc_set_adma3_desc_def Let_def)
  then have "hpm_sdmmc_transfer_polling D ?sc (Some ?x) (main_ram m1, dev m1) = Some (status_sdxc_dma_addr_or_len_unaligned, c, s)"
    by (simp add: hpm_sdmmc_transfer_polling_def Let_def)
  then have "\<exists>cmd' m'. run_transfer D A mmcsd cmd ?sc (Some ?x) m1 = Some (cmd', m') \<and> err cmd' = - RT_EIO"
    using mmcsd(1) by (simp add: run_transfer_def hpm_sdmmc_transfer_def Let_def transfer_error_def)
  then show ?thesis using rt cmd(1) p fits u n0 by (auto simp: hpm_sdmmc_request_def Let_def)
qed

subsection \<open>A simulated controller\<close>

text \<open>
  It needs two polls for a transfer. A card that is read delivers the low bytes of the addresses.
\<close>

record sim_state =
  sim_time :: nat
  sim_left :: nat
  sim_job :: adma3_desc
  sim_base :: ram
  sim_bus :: "u8 list"

definition sim_finish :: "ram \<times> sim_state \<Rightarrow> ram \<times> sim_state" where
  "sim_finish s =
   (let j = sim_job (snd s);
        r = (if desc_reads j then (\<lambda>x. if within (desc_addr j) (desc_len j) x then ucast (x - desc_addr j) else fst s x) else fst s)
    in (r, (snd s)\<lparr> sim_left := 0, sim_bus := ram_seg r (desc_addr j) (desc_len j) \<rparr>))"

definition sim_sdxc :: "sim_state sdxc_hw" where
  "sim_sdxc = \<lparr>
     get_INT_STAT = (\<lambda>s. if sim_left (snd s) = 0 then (2, s) else if sim_left (snd s) = 1 then (2, sim_finish s)
                          else (0, fst s, (snd s)\<lparr> sim_left := sim_left (snd s) - 1 \<rparr>)),
     clear_INT_STAT = (\<lambda>_ w. w), get_AC_HOST_CTRL = (\<lambda>_. 0), get_CMD_XFER = (\<lambda>_. 0), get_RESP = (\<lambda>_ _. 0), get_PSTATE = (\<lambda>_. 0),
     put_command = (\<lambda>_ _ s. s), put_adma3 = (\<lambda>desc s. (fst s, (snd s)\<lparr> sim_left := 2, sim_job := desc, sim_base := fst s \<rparr>)),
     reset_cmd_line = (\<lambda>w. w), reset_data_line = (\<lambda>w. w),
     rt_tick_get = (\<lambda>w. (of_nat (sim_time w + 1), w\<lparr> sim_time := sim_time w + 1 \<rparr>)),
     rt_event_recv = (\<lambda>_ s. (0, s)), rt_thread_mdelay = (\<lambda>_ s. s) \<rparr>"

definition sim_ghost :: "sim_state dma_ghost" where
  "sim_ghost = \<lparr> phase = (\<lambda>w. if sim_left w = 0 then Done else Busy), job = sim_job, base_ram = sim_base, on_bus = sim_bus \<rparr>"

lemma sim_clock: "clock_runs sim_sdxc sim_time 1"
  by (auto simp: clock_runs_def sim_sdxc_def sim_finish_def Let_def)

lemma sim_finish_state:
  assumes "dma_frame sim_ghost s"
  shows "dma_state sim_ghost (sim_finish s)" "same_job sim_ghost (snd s) (snd (sim_finish s))" "phase sim_ghost (snd (sim_finish s)) = Done"
  using assms by (simp_all add: sim_ghost_def sim_finish_def dma_state_def dma_frame_def same_job_def Let_def)

lemma sim_get:
  assumes "dma_state sim_ghost s" "get_INT_STAT sim_sdxc s = (v, s')"
  shows "dma_state sim_ghost s' \<and> same_job sim_ghost (snd s) (snd s') \<and> shows_phase v (phase sim_ghost (snd s')) \<and>
      (phase sim_ghost (snd s) \<noteq> Busy \<longrightarrow> phase sim_ghost (snd s') = phase sim_ghost (snd s))"
proof -
  have f: "dma_frame sim_ghost s" using assms(1) by (simp add: dma_state_def)
  consider "sim_left (snd s) = 0" | "sim_left (snd s) = 1" | "sim_left (snd s) > 1" by linarith
  then show ?thesis
  proof cases
    case 1
    then show ?thesis using assms by (simp add: sim_sdxc_def sim_ghost_def same_job_def shows_phase_def)
  next
    case 2
    then have "v = 2" "s' = sim_finish s" using assms(2) by (simp_all add: sim_sdxc_def)
    then show ?thesis using sim_finish_state [OF f] 2 by (simp add: shows_phase_def sim_ghost_def)
  next
    case 3
    then have "v = 0" "s' = (fst s, (snd s)\<lparr> sim_left := sim_left (snd s) - 1 \<rparr>)" using assms(2) by (simp_all add: sim_sdxc_def)
    then show ?thesis using f 3 by (simp add: shows_phase_def sim_ghost_def dma_state_def dma_frame_def same_job_def)
  qed
qed

lemma sim_controller: "controller_ok sim_sdxc sim_ghost" "no_early_error sim_sdxc sim_ghost"
proof -
  have p: "job sim_ghost (snd (put_adma3 sim_sdxc desc s)) = desc \<and> base_ram sim_ghost (snd (put_adma3 sim_sdxc desc s)) = fst s \<and>
      dma_state sim_ghost (put_adma3 sim_sdxc desc s)" for desc s
    by (simp add: sim_sdxc_def sim_ghost_def dma_state_def dma_frame_def)
  show "controller_ok sim_sdxc sim_ghost"
    unfolding controller_ok_def using p sim_get by (intro conjI) (blast, blast, simp_all add: sim_sdxc_def sim_ghost_def same_job_def)
  show "no_early_error sim_sdxc sim_ghost" by (simp add: no_early_error_def sim_sdxc_def sim_ghost_def)
qed

text \<open>It succeeds.\<close>

lemma sim_wait:
  "\<forall>desc s c. resp_error_flags c = 0 \<and> response c = [0, 0, 0, 0] \<longrightarrow>
     (\<exists>c' s'. poll_complete sim_sdxc c status_success (put_adma3 sim_sdxc desc s) = Some (status_success, c', s') \<and> response c' ! 0 = 0)"
  by (simp add: poll_complete_def sim_sdxc_def sim_finish_def Let_def poll.simps [of _ _ _ 0] poll.simps [of _ _ _ 2] sdxc_parse_interrupt_status_def
      parse_status_def finish_transfer_def sdxc_receive_cmd_response_def)

definition sample_mmcsd :: hpm_mmcsd where
  "sample_mmcsd = \<lparr> enable_interrupt_driven = False, use_noncacheable_buf = False, data_buf = 0x10000, data_buf_size = 16384 \<rparr>"

definition sample_map :: mem_map where
  "sample_map = \<lparr> uncached = (\<lambda>_. False), allocates = (\<lambda>_. True) \<rparr>"

definition sample_desc :: adma3_desc where
  "sample_desc = \<lparr> desc_block_cnt = 0, desc_block_size = 0, desc_arg = 0, desc_cmd_xfer = 0,
     desc_data = \<lparr> d_valid = False, d_end = False, d_act = 0, len_upper = 0, len_lower = 0, d_addr = 0 \<rparr> \<rparr>"

text \<open>One byte of the caller's buffer is in the cache only.\<close>

definition sample_machine :: "sim_state machine" where
  "sample_machine = \<lparr> main_ram = (\<lambda>_. 3), dcache = [0x80010 \<mapsto> (True, 7)],
     dev = \<lparr> sim_time = 0, sim_left = 0, sim_job = sample_desc, sim_base = (\<lambda>_. 0), sim_bus = [] \<rparr>, req_done = 0 \<rparr>"

definition sample_data :: rt_mmcsd_data where
  "sample_data = \<lparr> blksize = 8, blks = 1, buf = 0x80010, data_flags = 1 \<rparr>"

definition sample_cmd :: rt_mmcsd_cmd where
  "sample_cmd = \<lparr> cmd_code = 53, arg = 0x90000008, flags = 8, err = 0, resp = [0, 0, 0, 0], data = Some sample_data \<rparr>"

lemma sample_request:
  "data sample_cmd = Some sample_data" "err sample_cmd = 0" "resp_of_flags (flags sample_cmd AND RESP_MASK) \<noteq> None"
  "8 = unat (blks sample_data) * unat (blksize sample_data)" "\<not> enable_interrupt_driven sample_mmcsd" "is_write sample_data" "buf sample_data = 0x80010"
  by (simp_all add: sample_cmd_def sample_data_def resp_of_flags_def sample_mmcsd_def is_write_def)

lemma sample_mem: "mem_ok sample_map sample_machine"
  by (simp add: mem_ok_def sample_map_def sample_machine_def)

lemma sample_apart:
  assumes "within 0x10000 16384 x"
  shows "\<not> within 0x80000 4096 x" "\<not> within 0x80010 8 x"
proof -
  have "\<not> within c k x" if "c = 0x10000 + d" "16384 \<le> unat d" "unat d + k < 2 ^ 32" for c d :: u32 and k
  proof
    assume w: "within c k x"
    have e: "x - 0x10000 = d + (x - c)" using that(1) by simp
    have "unat (d + (x - c)) = unat d + unat (x - c)" using w that(3) by (intro unat_plus_no_wrap) (simp add: within_def)
    then show False using assms that(2) unfolding within_def e by simp
  qed
  from this [of "0x80000" "0x70000" 4096] this [of "0x80010" "0x70010" 8]
  show "\<not> within 0x80000 4096 x" "\<not> within 0x80010 8 x" by simp_all
qed

lemma sample_buffer: "buffer_ok sample_map sample_mmcsd sample_data"
  using sample_apart(2) by (simp add: buffer_ok_def sample_map_def sample_mmcsd_def sample_data_def)

text \<open>
  C10: A request is always answered. Whatever the controller and the card do, and in either mode, a request with a known response type returns
  and \<open>mmcsd_req_complete\<close> has been called exactly once, so that the thread waiting for it goes on; it is enough that the clock runs.
\<close>

theorem request_answered_once:
  assumes "clock_runs D us k" "resp_of_flags (flags cmd AND RESP_MASK) \<noteq> None" "use_noncacheable_buf mmcsd \<or> data_buf mmcsd mod 64 = 0"
  shows "\<exists>cmd' m'. hpm_sdmmc_request D A mmcsd cmd m = Some (cmd', m') \<and> req_done m' = req_done m + 1"
proof (cases "data cmd")
  case None
  then show ?thesis using assms(2) run_transfer_returns [OF assms(1)] by (auto simp: hpm_sdmmc_request_def Let_def)
next
  case (Some d)
  obtain a m1 where "(if is_write d then prepare_write A mmcsd d m else prepare_read mmcsd d m) = Some (a, m1)"
    "req_done m1 = req_done m" using prepare_returns [OF assms(3)] by blast
  then show ?thesis using assms(2) Some run_transfer_returns [OF assms(1), where m = m1] by (auto simp: hpm_sdmmc_request_def Let_def)
qed

theorem request_answered_once_witness:
  "\<exists>cmd' m'. hpm_sdmmc_request sim_sdxc sample_map sample_mmcsd sample_cmd sample_machine = Some (cmd', m') \<and> req_done m' = 1"
  using request_answered_once [OF sim_clock, of sample_cmd sample_mmcsd sample_map sample_machine]
  by (simp add: sample_cmd_def resp_of_flags_def sample_mmcsd_def sample_machine_def)

lemma sample_mmcsd_ok:
  "use_noncacheable_buf sample_mmcsd \<or> data_buf sample_mmcsd mod 64 = 0" "data_buf sample_mmcsd mod 4 = 0"
  by (simp_all add: sample_mmcsd_def)

theorem request_data_exact_witness:
  "\<exists>cmd' m'. hpm_sdmmc_request sim_sdxc sample_map sample_mmcsd sample_cmd sample_machine = Some (cmd', m') \<and>
     err cmd' = 0 \<and> issued (sim_job (dev m')) sample_cmd sample_data \<and> sim_bus (dev m') = [7, 3, 3, 3, 3, 3, 3, 3]"
proof -
  have l: "cpu_load 0x80010 8 sample_machine = [7, 3, 3, 3, 3, 3, 3, 3]" by (simp add: cpu_load_def cpu_view_def sample_machine_def upt_rec)
  obtain cmd' m' where r: "hpm_sdmmc_request sim_sdxc sample_map sample_mmcsd sample_cmd sample_machine = Some (cmd', m')"
    "err cmd' = 0 \<longrightarrow> issued (job sim_ghost (dev m')) sample_cmd sample_data \<and> on_bus sim_ghost (dev m') = cpu_load 0x80010 8 sample_machine"
    using request_data_exact [OF sim_controller sim_clock sample_mem sample_buffer sample_request(5,1-4)] sample_request(6,7) by auto
  have "8 + 64 \<le> unat (data_buf_size sample_mmcsd)" by (simp add: sample_mmcsd_def)
  from request_success_if [OF sim_wait sample_request(5) sample_mmcsd_ok sample_request(1-4) _ _ _ this, of sample_map sample_machine] r(1)
  have "err cmd' = 0" by simp
  then show ?thesis using r unfolding l by (simp add: sim_ghost_def)
qed

theorem early_error_lost_witness:
  "\<exists>cmd' m'. hpm_sdmmc_request (sim_sdxc\<lparr> get_INT_STAT := (\<lambda>s. (0x108000, s)) \<rparr>) sample_map sample_mmcsd sample_cmd sample_machine = Some (cmd', m') \<and>
     err cmd' = 0"
proof -
  let ?D = "sim_sdxc\<lparr> get_INT_STAT := (\<lambda>s. (0x108000, s)) \<rparr>"
  have e: "\<forall>desc s. fst (get_INT_STAT ?D (put_adma3 ?D desc s)) AND SDXC_STS_ERROR \<noteq> 0" by simp
  have b: "8 + 64 \<le> unat (data_buf_size sample_mmcsd)" by (simp add: sample_mmcsd_def)
  show ?thesis by (rule early_error_lost [OF e sample_request(5) sample_mmcsd_ok sample_request(1-4) _ _ _ b]) simp_all
qed

end
