(* ===== verification/Sdio_Stack.thy ===== *)
theory Sdio_Stack
  imports Sdio_Dma
begin

text \<open>
  The SDIO stack from the transport to the bus: the transport's frames, RT-Thread's SDIO layer and the board's driver put together. The host that
  \<open>rt_hw_sdio_init\<close> registers is the controller of the layer above.
\<close>

text \<open>The response the layer above asks for with a command: R4 for the operating conditions, R6 for the address, R1 for the selection, R5 else.\<close>

definition resp_flags :: "nat \<Rightarrow> u32" where
  "resp_flags code = (if code = 5 then 5 else if code = 3 then 6 else if code = 7 then 1 else 8)"

text \<open>A request of the SDIO layer as it reaches the driver; the caller's buffer is at \<open>b\<close>.\<close>

definition driver_cmd :: "u32 \<Rightarrow> sd_request \<Rightarrow> rt_mmcsd_cmd" where
  "driver_cmd b rq = \<lparr> cmd_code = of_nat (sq_code rq), arg = sq_arg rq, flags = resp_flags (sq_code rq), err = 0, resp = [0, 0, 0, 0],
     data = (if sq_blks rq = 0 then None
             else Some \<lparr> blksize = of_nat (sq_blksize rq), blks = of_nat (sq_blks rq), buf = b, data_flags = (if sq_write rq then 1 else 2) \<rparr>) \<rparr>"

definition driver_request ::
  "'w sdxc_hw \<Rightarrow> mem_map \<Rightarrow> hpm_mmcsd \<Rightarrow> u32 \<Rightarrow> sd_request \<Rightarrow> 'w machine \<Rightarrow> sd_response \<times> 'w machine" where
  "driver_request D A mmcsd b rq m =
   (case hpm_sdmmc_request D A mmcsd (driver_cmd b rq) (cpu_store A b (sq_out rq) m) of
      None \<Rightarrow> (\<lparr> sr_cmd_err = - RT_ERROR, sr_data_err = 0, sr_resp0 = 0, sr_resp1 = 0, sr_in = [] \<rparr>, m)
    | Some (cmd, m) \<Rightarrow>
        (\<lparr> sr_cmd_err = err cmd, sr_data_err = 0, sr_resp0 = resp cmd ! 0, sr_resp1 = resp cmd ! 1,
           sr_in = (if sq_write rq then [] else cpu_load b (sq_blks rq * sq_blksize rq) m) \<rparr>, m))"

text \<open>The limits the driver registers.\<close>

definition hpm_host :: "'w sdxc_hw \<Rightarrow> mem_map \<Rightarrow> hpm_mmcsd \<Rightarrow> u32 \<Rightarrow> 'w machine sd_host" where
  "hpm_host D A mmcsd b = \<lparr> sd_ops_request = driver_request D A mmcsd b, is_spi = False, max_seg_size = unat (data_buf_size mmcsd),
     max_blk_size = 512, max_blk_count = unat (data_buf_size mmcsd div 512) \<rparr>"

text \<open>The driver's buffer is apart from every buffer of up to 4096 bytes at \<open>b\<close>.\<close>

definition stack_ok :: "mem_map \<Rightarrow> hpm_mmcsd \<Rightarrow> u32 \<Rightarrow> bool" where
  "stack_ok A mmcsd b \<longleftrightarrow> \<not> enable_interrupt_driven mmcsd \<and> 4096 \<le> data_buf_size mmcsd \<and> data_buf mmcsd mod 4 = 0 \<and>
     (if use_noncacheable_buf mmcsd then \<forall>x. within (data_buf mmcsd) (unat (data_buf_size mmcsd)) x \<longrightarrow> uncached A x
      else data_buf mmcsd mod CACHELINE_SIZE = 0) \<and>
     (\<forall>x. within (data_buf mmcsd) (unat (data_buf_size mmcsd)) x \<longrightarrow> \<not> within b 4096 x)"

text \<open>A write of \<open>k\<close> blocks of 512 bytes that reports no error.\<close>

lemma driver_write:
  assumes C: "controller_ok D G" "no_early_error D G" "clock_runs D us k"
    and mem: "mem_ok A m" "stack_ok A mmcsd b" and kb: "0 < kb" "kb \<le> 8" "length bytes = kb * 512"
    and rq: "rq = \<lparr> sq_code = 53, sq_arg = a, sq_write = True, sq_blks = kb, sq_blksize = 512, sq_out = bytes \<rparr>"
  shows "\<exists>rsp m'. driver_request D A mmcsd b rq m = (rsp, m') \<and> mem_ok A m' \<and> sr_data_err rsp = 0 \<and> sr_in rsp = [] \<and>
    (\<forall>x. \<not> within (data_buf mmcsd) (unat (data_buf_size mmcsd)) x \<and> \<not> within b 4096 x \<longrightarrow> cpu_view m' x = cpu_view m x) \<and>
    (sr_cmd_err rsp = 0 \<longrightarrow> on_bus G (dev m') = bytes \<and> desc_arg (job G (dev m')) = a \<and> \<not> desc_reads (job G (dev m')) \<and>
       (\<forall>i<6. bit (desc_cmd_xfer (job G (dev m'))) (24 + i) = bit (53 :: u32) i))"
proof -
  let ?d = "\<lparr> blksize = 512, blks = of_nat kb, buf = b, data_flags = 1 \<rparr>" and ?m = "cpu_store A b bytes m"
  have c: "driver_cmd b rq = \<lparr> cmd_code = 53, arg = a, flags = 8, err = 0, resp = [0, 0, 0, 0], data = Some ?d \<rparr>"
    using kb(1) by (simp add: driver_cmd_def rq resp_flags_def)
  have n: "kb * 512 = unat (blks ?d) * unat (blksize ?d)" "kb * 512 \<le> 524288" "4 dvd kb * 512" using kb(2) by (simp_all add: unat_of_nat32)
  have ml: "unat (of_nat kb * 512 :: u32) = kb * 512" using kb(2) by (simp add: unat_word_ariths unat_of_nat32)
  have buf: "buffer_ok A mmcsd ?d"
    using mem(2) kb(2) within_mono [of b "kb * 512" _ 4096] by (auto simp: stack_ok_def buffer_ok_def ml)
  have wr: "is_write ?d" by (simp add: is_write_def)
  have st: "mem_ok A ?m" "cpu_load b (kb * 512) ?m = bytes" using mem(1) kb by simp_all
  have r8: "resp_of_flags (flags (driver_cmd b rq) AND RESP_MASK) \<noteq> None" by (simp add: c resp_of_flags_def)
  have ni: "\<not> enable_interrupt_driven mmcsd" using mem(2) by (simp add: stack_ok_def)
  obtain cmd' m' where r: "hpm_sdmmc_request D A mmcsd (driver_cmd b rq) ?m = Some (cmd', m')" "mem_ok A m'"
    "\<And>x. \<not> within (data_buf mmcsd) (unat (data_buf_size mmcsd)) x \<Longrightarrow> cpu_view m' x = cpu_view ?m x"
    "err cmd' = 0 \<longrightarrow> issued (job G (dev m')) (driver_cmd b rq) ?d \<and> on_bus G (dev m') = bytes"
    using request_outcome [OF C st(1) buf ni _ _ r8 n] wr st(2) by (auto simp: c exact_outcome_def)
  have "cpu_view ?m x = cpu_view m x" if "\<not> within b 4096 x" for x
    using that mem(1) kb within_mono [of b "kb * 512" x 4096] by (auto simp: cpu_store_view)
  then show ?thesis using r wr by (auto simp: driver_request_def rq issued_def driver_cmd_def)
qed


text \<open>A frame of the transport is one request to the driver; the result of \<open>write_frame\<close> is that of the request.\<close>

lemma frame_request:
  fixes D :: "'w sdxc_hw" and A :: mem_map and b :: u32 and mmcsd :: hpm_mmcsd and len :: u32
  defines "H \<equiv> hpm_host D A mmcsd b" and "a \<equiv> wlh_rtt_sdio_window_address len"
  assumes mem: "stack_ok A mmcsd b"
    and f: "func_num f \<le> SDIO_MAX_FUNCTIONS" "multi_block f" "cur_blk_size f = 512" "512 \<le> func_max_blk f"
    and E: "\<forall>a bs w r. sdio_io_write_multi_incr_b H f a bs w = Some r \<longrightarrow> bus_write_multi E a bs w = r"
    and t: "wait_for_token E t = (RT_EOK, t1)" "length (staging t) = 4096"
    and frame: "len \<noteq> 0" "len \<le> WLH_RTT_SDIO_MAX_FRAME" "length frame = unat len"
  shows "\<exists>n. 0 < n \<and> n \<le> 8 \<and> unat len \<le> n * 512 \<and> n * 512 < unat len + 512 \<and>
    (\<forall>rsp m'. driver_request D A mmcsd b \<lparr> sq_code = 53, sq_arg = cmd53_arg True (func_num f) True a n 512, sq_write = True, sq_blks = n,
         sq_blksize = 512, sq_out = frame @ replicate (n * 512 - unat len) 0 \<rparr> (bus t1) = (rsp, m') \<and> sr_data_err rsp = 0 \<and> sr_in rsp = [] \<longrightarrow>
       (\<exists>t'. write_frame E frame len t = (if sr_cmd_err rsp \<noteq> 0 then sr_cmd_err rsp else r5_result H (sr_resp0 rsp), t') \<and> bus t' = m'))"
proof -
  obtain n where n: "0 < n" "n \<le> 8" "unat len \<le> n * 512" "n * 512 < unat len + 512" "unat a + n * 512 \<le> 0x20000"
    and wf: "\<And>rc w. bus_write_multi E a (frame @ replicate (n * 512 - unat len) 0) (bus t1) = (rc, w) \<Longrightarrow>
      \<exists>t'. write_frame E frame len t = (rc, t') \<and> bus t' = w" using frame_as_blocks [OF t frame] unfolding a_def by blast
  let ?bytes = "frame @ replicate (n * 512 - unat len) 0" and ?arg = "cmd53_arg True (func_num f) True a n 512"
  let ?rq = "\<lparr> sq_code = 53, sq_arg = ?arg, sq_write = True, sq_blks = n, sq_blksize = 512, sq_out = ?bytes \<rparr>"
  have lb: "length ?bytes = n * 512" using frame(3) n(3) by simp
  have reg: "a AND NOT SDIO_ARG_CMD53_REG_MASK = 0" using n(1,5) by (intro in_register_space) simp
  have tk: "take (n * 512) ?bytes = ?bytes" using lb by simp
  have lim: "8 \<le> max_blk_count H" "4096 \<le> max_seg_size H" "512 \<le> max_blk_size H"
    using mem div_le_mono [of 4096 "unat (data_buf_size mmcsd)" 512] by (auto simp: H_def stack_ok_def hpm_host_def word_le_nat_alt unat_div)
  have "\<exists>t'. write_frame E frame len t = (if sr_cmd_err rsp \<noteq> 0 then sr_cmd_err rsp else r5_result H (sr_resp0 rsp), t') \<and> bus t' = m'"
    if r: "driver_request D A mmcsd b ?rq (bus t1) = (rsp, m')" "sr_data_err rsp = 0" "sr_in rsp = []" for rsp m'
  proof -
    have snd: "mmcsd_send_request H ?rq 0 (bus t1) = (rsp, m')" using r(1) by (simp add: mmcsd_send_request.simps H_def hpm_host_def)
    have "sdio_io_rw_extended H True (func_num f) a True ?bytes n 512 (bus t1) =
        Some (if sr_cmd_err rsp \<noteq> 0 then sr_cmd_err rsp else r5_result H (sr_resp0 rsp), [], m')"
      unfolding sdio_io_rw_extended_def if_True tk snd Let_def reg using f(1) n(1) r(2,3) by (simp add: not_less)
    then have "sdio_io_write_multi_incr_b H f a ?bytes (bus t1) = Some (if sr_cmd_err rsp \<noteq> 0 then sr_cmd_err rsp else r5_result H (sr_resp0 rsp), m')"
      unfolding sdio_io_write_multi_incr_b_def lb blocks_single_command [OF f(2,3) n(1,2) lim f(4)] by simp
    then show ?thesis using E wf by blast
  qed
  then show ?thesis using n(1-4) by blast
qed

lemma frame_accepted:
  assumes ok: "\<And>n a bytes m. 0 < n \<Longrightarrow> n \<le> 8 \<Longrightarrow> \<exists>rsp m'. driver_request D A mmcsd b
      \<lparr> sq_code = 53, sq_arg = a, sq_write = True, sq_blks = n, sq_blksize = 512, sq_out = bytes \<rparr> m = (rsp, m') \<and>
      sr_data_err rsp = 0 \<and> sr_in rsp = [] \<and> sr_cmd_err rsp = 0 \<and> r5_result (hpm_host D A mmcsd b) (sr_resp0 rsp) = RT_EOK"
    and mem: "stack_ok A mmcsd b"
    and f: "func_num f \<le> SDIO_MAX_FUNCTIONS" "multi_block f" "cur_blk_size f = 512" "512 \<le> func_max_blk f"
    and E: "\<forall>a bs w r. sdio_io_write_multi_incr_b (hpm_host D A mmcsd b) f a bs w = Some r \<longrightarrow> bus_write_multi E a bs w = r"
    and t: "wait_for_token E t = (RT_EOK, t1)" "length (staging t) = 4096"
    and frame: "len \<noteq> 0" "len \<le> WLH_RTT_SDIO_MAX_FRAME" "length frame = unat len"
  shows "\<exists>t'. write_frame E frame len t = (RT_EOK, t')"
proof -
  obtain n where n: "0 < n" "n \<le> 8"
    and wf: "\<And>rsp m'. driver_request D A mmcsd b \<lparr> sq_code = 53, sq_arg = cmd53_arg True (func_num f) True (wlh_rtt_sdio_window_address len) n 512,
         sq_write = True, sq_blks = n, sq_blksize = 512, sq_out = frame @ replicate (n * 512 - unat len) 0 \<rparr> (bus t1) = (rsp, m') \<and>
       sr_data_err rsp = 0 \<and> sr_in rsp = [] \<longrightarrow>
       (\<exists>t'. write_frame E frame len t = (if sr_cmd_err rsp \<noteq> 0 then sr_cmd_err rsp else r5_result (hpm_host D A mmcsd b) (sr_resp0 rsp), t') \<and> bus t' = m')"
    using frame_request [OF mem f E t frame] by blast
  from ok [OF n] obtain rsp m' where "driver_request D A mmcsd b \<lparr> sq_code = 53,
      sq_arg = cmd53_arg True (func_num f) True (wlh_rtt_sdio_window_address len) n 512, sq_write = True, sq_blks = n, sq_blksize = 512,
      sq_out = frame @ replicate (n * 512 - unat len) 0 \<rparr> (bus t1) = (rsp, m')" "sr_data_err rsp = 0" "sr_in rsp = []" "sr_cmd_err rsp = 0"
    "r5_result (hpm_host D A mmcsd b) (sr_resp0 rsp) = RT_EOK" by blast
  then show ?thesis using wf by fastforce
qed

text \<open>
  C5: A frame goes over the bus, if no error shows too early. With the transport on RT-Thread's SDIO layer, that layer on the board's driver in polling mode, and a controller that does
  what it reports and shows no error at the first reading of its status after a start (the driver takes such an error for success),
  let the transport write a frame of 1 to 4092 bytes for which there is a token. If \<open>write_frame\<close> returns without an error, one command 53, a write to the window address with as many
  blocks of 512 bytes as the frame needs, has put the frame and its padding on the bus, whatever the cache held. In any case
  the processor sees no change but in the transport's and the driver's buffers, and the cache is consistent.
\<close>

theorem frame_on_the_bus:
  assumes C: "controller_ok D G" "no_early_error D G" "clock_runs D us k"
    and mem: "mem_ok A (bus t1)" "stack_ok A mmcsd b"
    and f: "func_num f \<le> SDIO_MAX_FUNCTIONS" "multi_block f" "cur_blk_size f = 512" "512 \<le> func_max_blk f"
    and E: "\<forall>a bs w r. sdio_io_write_multi_incr_b (hpm_host D A mmcsd b) f a bs w = Some r \<longrightarrow> bus_write_multi E a bs w = r"
    and t: "wait_for_token E t = (RT_EOK, t1)" "length (staging t) = 4096"
    and frame: "len \<noteq> 0" "len \<le> WLH_RTT_SDIO_MAX_FRAME" "length frame = unat len"
  shows "\<exists>n rc t'. write_frame E frame len t = (rc, t') \<and> n \<le> 8 \<and> unat len \<le> n * 512 \<and> n * 512 < unat len + 512 \<and> mem_ok A (bus t') \<and>
    (\<forall>x. \<not> within (data_buf mmcsd) (unat (data_buf_size mmcsd)) x \<and> \<not> within b 4096 x \<longrightarrow> cpu_view (bus t') x = cpu_view (bus t1) x) \<and>
    (rc = RT_EOK \<longrightarrow> on_bus G (dev (bus t')) = frame @ replicate (n * 512 - unat len) 0 \<and> \<not> desc_reads (job G (dev (bus t'))) \<and>
       desc_arg (job G (dev (bus t'))) = cmd53_arg True (func_num f) True (wlh_rtt_sdio_window_address len) n 512)"
proof -
  let ?a = "wlh_rtt_sdio_window_address len"
  obtain n where n: "0 < n" "n \<le> 8" "unat len \<le> n * 512" "n * 512 < unat len + 512"
    and wf: "\<And>rsp m'. driver_request D A mmcsd b \<lparr> sq_code = 53, sq_arg = cmd53_arg True (func_num f) True ?a n 512, sq_write = True, sq_blks = n,
         sq_blksize = 512, sq_out = frame @ replicate (n * 512 - unat len) 0 \<rparr> (bus t1) = (rsp, m') \<and> sr_data_err rsp = 0 \<and> sr_in rsp = [] \<longrightarrow>
       (\<exists>t'. write_frame E frame len t = (if sr_cmd_err rsp \<noteq> 0 then sr_cmd_err rsp else r5_result (hpm_host D A mmcsd b) (sr_resp0 rsp), t') \<and> bus t' = m')"
    using frame_request [OF mem(2) f E t frame] by blast
  have lb: "length (frame @ replicate (n * 512 - unat len) 0) = n * 512" using frame(3) n(3) by simp
  obtain rsp m' where r: "driver_request D A mmcsd b \<lparr> sq_code = 53, sq_arg = cmd53_arg True (func_num f) True ?a n 512, sq_write = True, sq_blks = n,
         sq_blksize = 512, sq_out = frame @ replicate (n * 512 - unat len) 0 \<rparr> (bus t1) = (rsp, m')" "sr_data_err rsp = 0" "sr_in rsp = []"
    "mem_ok A m'" "\<forall>x. \<not> within (data_buf mmcsd) (unat (data_buf_size mmcsd)) x \<and> \<not> within b 4096 x \<longrightarrow> cpu_view m' x = cpu_view (bus t1) x"
    "sr_cmd_err rsp = 0 \<longrightarrow> on_bus G (dev m') = frame @ replicate (n * 512 - unat len) 0 \<and>
       desc_arg (job G (dev m')) = cmd53_arg True (func_num f) True ?a n 512 \<and> \<not> desc_reads (job G (dev m'))"
    using driver_write [OF C mem n(1,2) lb refl, of "cmd53_arg True (func_num f) True ?a n 512"] by blast
  obtain t' where t': "write_frame E frame len t =
      (if sr_cmd_err rsp \<noteq> 0 then sr_cmd_err rsp else r5_result (hpm_host D A mmcsd b) (sr_resp0 rsp), t')" "bus t' = m'" using wf r(1-3) by blast
  show ?thesis using n(2-4) r(4-6)
    by (intro exI [of _ n] exI [of _ "if sr_cmd_err rsp \<noteq> 0 then sr_cmd_err rsp else r5_result (hpm_host D A mmcsd b) (sr_resp0 rsp)"] exI [of _ t'])
      (simp add: t')
qed

definition sample_stack_env :: "(sim_state machine, unit) sdio_env" where
  "sample_stack_env = \<lparr> frame_header_size = 16, frame_ok = (\<lambda>_ _. True), host_ok = 0,
     host_input = (\<lambda>_ h. (0, h)), host_link_lost = (\<lambda>h. h),
     bus_readl = (\<lambda>a w. (0, 0x50000, w)), bus_writel = (\<lambda>_ _ w. (0, w)),
     bus_write_multi = (\<lambda>a b w. the (sdio_io_write_multi_incr_b (hpm_host sim_sdxc sample_map sample_mmcsd 0x80000) sample_function a b w)),
     bus_read_multi = (\<lambda>_ n w. (0, replicate n 7, w)), bus_enable_func = (\<lambda>w. (0, w)),
     bus_set_block_size = (\<lambda>_ w. (0, w)), bus_attach_irq = (\<lambda>w. (0, w)) \<rparr>"

definition sample_stack_transport :: "(sim_state machine, unit) wlh_sdio_transport" where
  "sample_stack_transport = (transport_zero () sample_machine [])\<lparr> t_running := True, staging := replicate 4096 0 \<rparr>"

lemma sample_driver_write:
  assumes "0 < n" "n \<le> 8"
  shows "\<exists>rsp m'. driver_request sim_sdxc sample_map sample_mmcsd 0x80000
      \<lparr> sq_code = 53, sq_arg = a, sq_write = True, sq_blks = n, sq_blksize = 512, sq_out = bytes \<rparr> m = (rsp, m') \<and>
    sr_data_err rsp = 0 \<and> sr_in rsp = [] \<and> sr_cmd_err rsp = 0 \<and> r5_result (hpm_host sim_sdxc sample_map sample_mmcsd 0x80000) (sr_resp0 rsp) = RT_EOK"
proof -
  let ?d = "\<lparr> blksize = 512, blks = of_nat n, buf = 0x80000, data_flags = 1 \<rparr>"
  let ?c = "\<lparr> cmd_code = 53, arg = a, flags = 8, err = 0, resp = [0, 0, 0, 0], data = Some ?d \<rparr>"
  have c: "data ?c = Some ?d" "err ?c = 0" "resp_of_flags (flags ?c AND RESP_MASK) \<noteq> None" "n * 512 = unat (blks ?d) * unat (blksize ?d)"
    "n * 512 + 64 \<le> unat (data_buf_size sample_mmcsd)" using assms by (simp_all add: resp_of_flags_def unat_of_nat32 sample_mmcsd_def)
  from request_success_if [OF sim_wait sample_request(5) sample_mmcsd_ok c(1-4) _ _ _ c(5), of sample_map "cpu_store sample_map 0x80000 bytes m"] assms
  obtain cmd' m' where r: "hpm_sdmmc_request sim_sdxc sample_map sample_mmcsd ?c (cpu_store sample_map 0x80000 bytes m) = Some (cmd', m')"
    "err cmd' = 0" "resp cmd' ! 0 = 0" by auto
  then show ?thesis using assms(1) by (simp add: driver_request_def driver_cmd_def resp_flags_def r5_result_def hpm_host_def)
qed

theorem frame_on_the_bus_witness:
  "\<exists>rc t'. write_frame sample_stack_env (replicate 600 9) 600 sample_stack_transport = (rc, t') \<and>
     rc = RT_EOK \<and> sim_bus (dev (bus t')) = replicate 600 9 @ replicate 424 0"
proof -
  have n: "200 = Suc 199" by simp
  have "\<exists>t1. wait_for_token sample_stack_env sample_stack_transport = (RT_EOK, t1) \<and> bus t1 = sample_machine"
    unfolding wait_for_token_def n token_loop.simps
    by (simp add: read_register_def sample_stack_env_def sample_stack_transport_def transport_zero_def wlh_rtt_sdio_available_tokens_def Let_def)
  then obtain t1 where t1: "wait_for_token sample_stack_env sample_stack_transport = (RT_EOK, t1)" "bus t1 = sample_machine" by blast
  have m: "mem_ok sample_map (bus t1)" using sample_mem t1(2) by simp
  have st: "stack_ok sample_map sample_mmcsd 0x80000"
    using sample_apart(1) by (simp add: stack_ok_def sample_map_def sample_mmcsd_def)
  have E: "\<forall>a bs w r. sdio_io_write_multi_incr_b (hpm_host sim_sdxc sample_map sample_mmcsd 0x80000) sample_function a bs w = Some r \<longrightarrow>
      bus_write_multi sample_stack_env a bs w = r" by (simp add: sample_stack_env_def)
  have f: "func_num sample_function \<le> SDIO_MAX_FUNCTIONS" "multi_block sample_function" "cur_blk_size sample_function = 512" "512 \<le> func_max_blk sample_function"
    by (simp_all add: sample_function_def)
  have l: "length (staging sample_stack_transport) = 4096" by (simp add: sample_stack_transport_def)
  obtain k rc t' where r: "write_frame sample_stack_env (replicate 600 9) 600 sample_stack_transport = (rc, t')" "600 \<le> k * 512" "k * 512 < 600 + (512 :: nat)"
    "rc = RT_EOK \<longrightarrow> on_bus sim_ghost (dev (bus t')) = replicate 600 9 @ replicate (k * 512 - 600) 0"
    using frame_on_the_bus [OF sim_controller sim_clock m st f E t1(1) l, of 600 "replicate 600 9"] by auto
  have "k = 2" using r(2,3) by simp
  have "\<exists>t'. write_frame sample_stack_env (replicate 600 9) 600 sample_stack_transport = (RT_EOK, t')"
    by (rule frame_accepted [OF sample_driver_write st f E t1(1) l]) simp_all
  then have "rc = RT_EOK" using r(1) by auto
  then show ?thesis using r(1,4) \<open>k = 2\<close> by (simp add: sim_ghost_def)
qed

end
