(* ===== verification/Sdio_Ident.thy ===== *)
theory Sdio_Ident
  imports Sdio_Core "HOL-Library.Multiset"
begin

text \<open>
  The identification of an SDIO card, the rest of rt-thread/components/drivers/sdio/dev_sdio.c with what it calls of dev_mmcsd_core.c and dev_sd.c: the
  operating conditions, the card registers (CCCR), the chains of tuples in the card's information structure (CIS), and the functions of the card.
  The structures are allocated and freed; \<open>None\<close> is a freed block that is not allocated, or a failed assertion.
\<close>

abbreviation (input) SD_IO_SEND_OP_COND :: nat where "SD_IO_SEND_OP_COND \<equiv> 5"
abbreviation (input) SD_SEND_RELATIVE_ADDR :: nat where "SD_SEND_RELATIVE_ADDR \<equiv> 3"
abbreviation (input) SELECT_CARD :: nat where "SELECT_CARD \<equiv> 7"
abbreviation (input) SPI_CRC_ON_OFF :: nat where "SPI_CRC_ON_OFF \<equiv> 59"
abbreviation (input) CARD_BUSY :: u32 where "CARD_BUSY \<equiv> 0x80000000"
abbreviation (input) VDD_165_195 :: u32 where "VDD_165_195 \<equiv> 0x80"
abbreviation (input) CISTPL_NULL :: u8 where "CISTPL_NULL \<equiv> 0"
abbreviation (input) CISTPL_VERS_1 :: u8 where "CISTPL_VERS_1 \<equiv> 0x15"
abbreviation (input) CISTPL_MANFID :: u8 where "CISTPL_MANFID \<equiv> 0x20"
abbreviation (input) CISTPL_FUNCE :: u8 where "CISTPL_FUNCE \<equiv> 0x22"
abbreviation (input) CISTPL_END :: u8 where "CISTPL_END \<equiv> 0xff"
abbreviation (input) SDIO_REG_CCCR_BUS_IF :: u32 where "SDIO_REG_CCCR_BUS_IF \<equiv> 7"
abbreviation (input) SDIO_REG_CCCR_CARD_CAPS :: u32 where "SDIO_REG_CCCR_CARD_CAPS \<equiv> 8"
abbreviation (input) SDIO_REG_FBR_CIS :: u32 where "SDIO_REG_FBR_CIS \<equiv> 9"
abbreviation (input) SDIO_REG_CCCR_POWER_CTRL :: u32 where "SDIO_REG_CCCR_POWER_CTRL \<equiv> 0x12"
abbreviation (input) SDIO_REG_CCCR_SPEED :: u32 where "SDIO_REG_CCCR_SPEED \<equiv> 0x13"

subsection \<open>Structures\<close>

text \<open>Tuples the layer does not know are kept in lists; the first field is the block that holds the tuple.\<close>

record function_tuple =
  tpl_block :: nat
  tpl_code :: u8
  tpl_data :: "u8 list"

record sdio_cccr =
  sdio_version :: u8
  cap_multi_block :: bool
  low_speed :: bool
  low_speed_4 :: bool
  cap_bus_width :: bool
  power_ctrl :: bool
  high_speed :: bool

record sdio_cis =
  manufacturer :: u16
  product_id :: u16
  func0_blk_size :: u16
  max_tran_speed :: u32

record func_info =
  info_block :: nat
  info_num :: u32
  func_code :: u8
  func_manufacturer :: u16
  func_product :: u16
  func_max_blk_size :: u32
  func_enable_timeout :: u32
  tuples :: "function_tuple list"

record mmcsd_card =
  card_block :: nat
  rca :: u32
  flag_highspeed :: bool
  sdio_function_num :: nat
  cccr :: sdio_cccr
  cis :: sdio_cis
  card_functions :: "nat \<Rightarrow> func_info option"

record io_cfg =
  clock :: u32
  vdd :: nat
  bus_mode :: nat
  chip_select :: nat
  power_mode :: nat
  bus_width :: nat
  timing :: nat
  signal_voltage :: nat

text \<open>What the controller registered of itself.\<close>

record host_caps =
  freq_max :: u32
  valid_ocr :: u32
  sup_highspeed :: bool
  sup_buswidth_4 :: bool
  spi_use_crc :: u32

text \<open>The heap: the blocks allocated and not freed, with what they hold. Blocks are numbered in the order of the allocations.\<close>

datatype block = CardBlock | FunctionBlock | TupleBlock u8 | ListBlock

record 'w ident =
  io :: 'w
  fresh :: nat
  live :: "(nat \<times> block) list"
  cfg :: io_cfg
  cfg_calls :: "io_cfg list"

text \<open>\<open>M\<close> says which allocations succeed.\<close>

definition rt_malloc :: "(nat \<Rightarrow> bool) \<Rightarrow> block \<Rightarrow> 'w ident \<Rightarrow> nat option \<times> 'w ident" where
  "rt_malloc M b s =
   (if M (fresh s) then (Some (fresh s), s\<lparr> fresh := fresh s + 1, live := (fresh s, b) # live s \<rparr>)
    else (None, s\<lparr> fresh := fresh s + 1 \<rparr>))"

definition rt_free :: "nat \<Rightarrow> 'w ident \<Rightarrow> 'w ident option" where
  "rt_free p s = (if p \<in> fst ` set (live s) then Some (s\<lparr> live := filter (\<lambda>b. fst b \<noteq> p) (live s) \<rparr>) else None)"

subsection \<open>Commands of the core\<close>

definition send_cmd :: "'w sd_host \<Rightarrow> nat \<Rightarrow> u32 \<Rightarrow> int \<Rightarrow> 'w ident \<Rightarrow> sd_response \<times> 'w ident" where
  "send_cmd H code arg retries s =
   (let (rsp, w) = mmcsd_send_request H \<lparr> sq_code = code, sq_arg = arg, sq_write = False, sq_blks = 0, sq_blksize = 0, sq_out = [] \<rparr> retries (io s)
    in (rsp, s\<lparr> io := w \<rparr>))"

definition mmcsd_set_iocfg :: "(io_cfg \<Rightarrow> io_cfg) \<Rightarrow> 'w ident \<Rightarrow> 'w ident" where
  "mmcsd_set_iocfg f s = s\<lparr> cfg := f (cfg s), cfg_calls := cfg_calls s @ [f (cfg s)] \<rparr>"

definition mmcsd_set_clock :: "u32 \<Rightarrow> 'w ident \<Rightarrow> 'w ident" where
  "mmcsd_set_clock clk = mmcsd_set_iocfg (\<lambda>c. c\<lparr> clock := clk \<rparr>)"

definition mmcsd_set_bus_mode :: "nat \<Rightarrow> 'w ident \<Rightarrow> 'w ident" where
  "mmcsd_set_bus_mode mode = mmcsd_set_iocfg (\<lambda>c. c\<lparr> bus_mode := mode \<rparr>)"

definition mmcsd_set_bus_width :: "nat \<Rightarrow> 'w ident \<Rightarrow> 'w ident" where
  "mmcsd_set_bus_width width = mmcsd_set_iocfg (\<lambda>c. c\<lparr> bus_width := width \<rparr>)"

definition rt_ffs :: "u32 \<Rightarrow> nat" where
  "rt_ffs v = (case find (bit v) [0..<32] of None \<Rightarrow> 0 | Some i \<Rightarrow> i + 1)"

definition mmcsd_select_voltage :: "host_caps \<Rightarrow> u32 \<Rightarrow> 'w ident \<Rightarrow> u32 \<times> 'w ident" where
  "mmcsd_select_voltage P ocr s =
   (let ocr = ocr AND valid_ocr P; b = rt_ffs ocr
    in if b \<noteq> 0 then (ocr AND push_bit (b - 1) 3, mmcsd_set_iocfg (\<lambda>c. c\<lparr> vdd := b - 1 \<rparr>) s) else (0, s))"

definition mmcsd_get_card_addr :: "'w sd_host \<Rightarrow> 'w ident \<Rightarrow> int \<times> u32 \<times> 'w ident" where
  "mmcsd_get_card_addr H s =
   (let (rsp, s) = send_cmd H SD_SEND_RELATIVE_ADDR 0 3 s in (sr_cmd_err rsp, if sr_cmd_err rsp \<noteq> 0 then 0 else drop_bit 16 (sr_resp0 rsp), s))"

definition mmcsd_select_card :: "'w sd_host \<Rightarrow> mmcsd_card \<Rightarrow> 'w ident \<Rightarrow> int \<times> 'w ident" where
  "mmcsd_select_card H crd s = (let (rsp, s) = send_cmd H SELECT_CARD (push_bit 16 (rca crd)) 3 s in (sr_cmd_err rsp, s))"

definition mmcsd_spi_use_crc :: "'w sd_host \<Rightarrow> u32 \<Rightarrow> 'w ident \<Rightarrow> int \<times> 'w ident" where
  "mmcsd_spi_use_crc H use_crc s = (let (rsp, s) = send_cmd H SPI_CRC_ON_OFF use_crc 0 s in (sr_cmd_err rsp, s))"

fun op_cond_loop :: "'w sd_host \<Rightarrow> u32 \<Rightarrow> nat \<Rightarrow> int \<times> u32 \<Rightarrow> 'w ident \<Rightarrow> int \<times> u32 \<times> 'w ident" where
  "op_cond_loop H ocr 0 r s = (fst r, snd r, s)"
| "op_cond_loop H ocr (Suc i) r s =
   (let (rsp, s) = send_cmd H SD_IO_SEND_OP_COND ocr 0 s;
        resp = (if is_spi H then sr_resp1 rsp else sr_resp0 rsp)
    in if sr_cmd_err rsp \<noteq> 0 then (sr_cmd_err rsp, resp, s)
       else if ocr = 0 then (0, resp, s)
       else if resp AND CARD_BUSY \<noteq> 0 then (0, resp, s)
       else op_cond_loop H ocr i (- RT_ETIMEOUT, resp) s)"

definition sdio_io_send_op_cond :: "'w sd_host \<Rightarrow> u32 \<Rightarrow> 'w ident \<Rightarrow> int \<times> u32 \<times> 'w ident" where
  "sdio_io_send_op_cond H ocr s = op_cond_loop H ocr 100 (0, 0) s"

subsection \<open>Card registers\<close>

text \<open>A register of function 0.\<close>

definition reg_function :: sdio_function where
  "reg_function = \<lparr> func_num = 0, func_max_blk = 0, cur_blk_size = 0, enable_timeout_val = 0, irq_handler = None, multi_block = False \<rparr>"

definition readb :: "'w sd_host \<Rightarrow> u32 \<Rightarrow> 'w ident \<Rightarrow> (int \<times> u8 \<times> 'w ident) option" where
  "readb H reg s = map_option (\<lambda>(ret, v, w). (ret, v, s\<lparr> io := w \<rparr>)) (sdio_io_readb H reg_function reg (io s))"

definition writeb :: "'w sd_host \<Rightarrow> u32 \<Rightarrow> u8 \<Rightarrow> 'w ident \<Rightarrow> (int \<times> 'w ident) option" where
  "writeb H reg v s = map_option (\<lambda>(ret, w). (ret, s\<lparr> io := w \<rparr>)) (sdio_io_writeb H reg_function reg v (io s))"

definition cccr_zero :: sdio_cccr where
  "cccr_zero = \<lparr> sdio_version = 0, cap_multi_block = False, low_speed = False, low_speed_4 = False, cap_bus_width = False,
     power_ctrl = False, high_speed = False \<rparr>"

text \<open>The structure keeps what was read before an error.\<close>

definition sdio_read_cccr :: "'w sd_host \<Rightarrow> 'w ident \<Rightarrow> (int \<times> sdio_cccr \<times> 'w ident) option" where
  "sdio_read_cccr H s = do {
     (ret, rev, s) \<leftarrow> readb H 0 s;
     let version = rev AND 0x0f;
     if ret \<noteq> 0 then Some (ret, cccr_zero, s)
     else if version > 3 then Some (- RT_ERROR, cccr_zero, s)
     else do {
       let c = cccr_zero\<lparr> sdio_version := drop_bit 4 (rev AND 0xf0) \<rparr>;
       (ret, caps, s) \<leftarrow> readb H SDIO_REG_CCCR_CARD_CAPS s;
       if ret \<noteq> 0 then Some (ret, c, s)
       else do {
         let c = c\<lparr> cap_multi_block := caps AND 0x02 \<noteq> 0, low_speed := caps AND 0x40 \<noteq> 0, low_speed_4 := caps AND 0x80 \<noteq> 0,
                   cap_bus_width := caps AND 0x80 \<noteq> 0 \<rparr>;
         (ret, c, s) \<leftarrow> (if version \<ge> 1
           then map_option (\<lambda>(ret, v, s). (ret, if ret \<noteq> 0 then c else c\<lparr> power_ctrl := v AND 1 \<noteq> 0 \<rparr>, s)) (readb H SDIO_REG_CCCR_POWER_CTRL s)
           else Some (0, c, s));
         if ret \<noteq> 0 then Some (ret, c, s)
         else if version \<ge> 2
         then map_option (\<lambda>(ret, v, s). (ret, if ret \<noteq> 0 then c else c\<lparr> high_speed := v AND 1 \<noteq> 0 \<rparr>, s)) (readb H SDIO_REG_CCCR_SPEED s)
         else Some (0, c, s)
       }
     }
   }"

definition sdio_set_highspeed :: "'w sd_host \<Rightarrow> host_caps \<Rightarrow> mmcsd_card \<Rightarrow> 'w ident \<Rightarrow> (int \<times> mmcsd_card \<times> 'w ident) option" where
  "sdio_set_highspeed H P crd s =
   (if \<not> sup_highspeed P \<or> \<not> high_speed (cccr crd) then Some (0, crd, s)
    else do {
      (ret, speed, s) \<leftarrow> readb H SDIO_REG_CCCR_SPEED s;
      if ret \<noteq> 0 then Some (ret, crd, s)
      else do {
        (ret, s) \<leftarrow> writeb H SDIO_REG_CCCR_SPEED (speed OR 0x02) s;
        Some (ret, if ret \<noteq> 0 then crd else crd\<lparr> flag_highspeed := True \<rparr>, s)
      }
    })"

definition sdio_set_bus_wide :: "'w sd_host \<Rightarrow> host_caps \<Rightarrow> mmcsd_card \<Rightarrow> 'w ident \<Rightarrow> (int \<times> 'w ident) option" where
  "sdio_set_bus_wide H P crd s =
   (if \<not> sup_buswidth_4 P \<or> low_speed (cccr crd) \<and> \<not> cap_bus_width (cccr crd) then Some (0, s)
    else do {
      (ret, busif, s) \<leftarrow> readb H SDIO_REG_CCCR_BUS_IF s;
      if ret \<noteq> 0 then Some (ret, s)
      else do {
        (ret, s) \<leftarrow> writeb H SDIO_REG_CCCR_BUS_IF (busif OR 0x02) s;
        Some (ret, if ret \<noteq> 0 then s else mmcsd_set_bus_width 2 s)
      }
    })"

subsection \<open>Tuples\<close>

definition speed_value :: "u32 list" where
  "speed_value = [0, 10, 12, 13, 15, 20, 25, 30, 35, 40, 45, 50, 55, 60, 70, 80]"

definition speed_unit :: "u32 list" where
  "speed_unit = [10000, 100000, 1000000, 10000000, 0, 0, 0, 0]"

definition word16 :: "u8 \<Rightarrow> u8 \<Rightarrow> u16" where
  "word16 lo hi = ucast lo OR push_bit 8 (ucast hi)"

text \<open>Each result is \<open>None\<close> for a tuple that is too short or of another type; the callers only log it.\<close>

definition cistpl_funce_func0 :: "u8 list \<Rightarrow> sdio_cis \<Rightarrow> sdio_cis option" where
  "cistpl_funce_func0 buf c =
   (if length buf < 4 \<or> buf ! 0 \<noteq> 0 then None
    else Some (c\<lparr> func0_blk_size := word16 (buf ! 1) (buf ! 2),
                  max_tran_speed := speed_value ! unat (drop_bit 3 (buf ! 3) AND 15) * speed_unit ! unat (buf ! 3 AND 7) \<rparr>))"

definition cistpl_funce_func :: "u8 \<Rightarrow> u8 list \<Rightarrow> func_info \<Rightarrow> func_info option" where
  "cistpl_funce_func version buf f =
   (if length buf < (if version = 0 then 28 else 42) \<or> buf ! 0 \<noteq> 1 then None
    else Some (f\<lparr> func_max_blk_size := ucast (word16 (buf ! 12) (buf ! 13)),
                  func_enable_timeout := (if version > 0 then ucast (word16 (buf ! 28) (buf ! 29)) * 10 else 1000) \<rparr>))"

text \<open>
  What a tuple does: \<open>p\<close> is the block allocated for it. Only the blocks of \<open>MANFID\<close> tuples are freed; those of \<open>FUNCE\<close> and \<open>VERS_1\<close> tuples are neither
  freed nor kept.
\<close>

definition cis_tuple :: "u8 \<Rightarrow> u8 \<Rightarrow> nat \<Rightarrow> u8 list \<Rightarrow> func_info \<times> sdio_cis \<times> 'w ident \<Rightarrow> (func_info \<times> sdio_cis \<times> 'w ident) option" where
  "cis_tuple version code p data fcs =
   (case fcs of (f, c, s) \<Rightarrow>
      if code = CISTPL_MANFID then
        let (f, c) = (if length data < 4 then (f, c)
                      else if info_num f \<noteq> 0
                      then (f\<lparr> func_manufacturer := word16 (data ! 0) (data ! 1), func_product := word16 (data ! 2) (data ! 3) \<rparr>, c)
                      else (f, c\<lparr> manufacturer := word16 (data ! 0) (data ! 1), product_id := word16 (data ! 2) (data ! 3) \<rparr>))
        in map_option (\<lambda>s. (f, c, s)) (rt_free p s)
      else if code = CISTPL_FUNCE then
        Some (if info_num f \<noteq> 0 then (case cistpl_funce_func version data f of Some f \<Rightarrow> (f, c, s) | None \<Rightarrow> (f, c, s))
              else (case cistpl_funce_func0 data c of Some c \<Rightarrow> (f, c, s) | None \<Rightarrow> (f, c, s)))
      else if code = CISTPL_VERS_1 then Some (f, c, s)
      else Some (f\<lparr> tuples := tuples f @ [\<lparr> tpl_block = p, tpl_code = code, tpl_data = data \<rparr>] \<rparr>, c, s))"

text \<open>The bytes of a tuple, up to an error.\<close>

fun read_data :: "'w sd_host \<Rightarrow> u32 \<Rightarrow> nat \<Rightarrow> 'w ident \<Rightarrow> (int \<times> u8 list \<times> 'w ident) option" where
  "read_data H ptr 0 s = Some (0, [], s)"
| "read_data H ptr (Suc n) s = do {
     (ret, v, s) \<leftarrow> readb H ptr s;
     if ret \<noteq> 0 then Some (ret, [v], s)
     else do { (ret, vs, s) \<leftarrow> read_data H (ptr + 1) n s; Some (ret, v # vs, s) }
   }"

text \<open>A read fails outside the register space of the card.\<close>

lemma readb_bound:
  assumes "readb H ptr s = Some (0, v, s')"
  shows "unat ptr < 131072"
proof -
  have z: "ptr AND NOT SDIO_ARG_CMD53_REG_MASK = 0"
    using assms by (auto simp: readb_def sdio_io_readb_def sdio_io_rw_direct_def reg_function_def Let_def split: if_splits)
  have "ptr AND NOT SDIO_ARG_CMD53_REG_MASK = ptr AND NOT (mask 17)" by (simp add: mask_eq_exp_minus_1)
  then have "unat ptr div 2 ^ 17 * 2 ^ 17 = 0" using z unat_and_not_mask [of ptr 17] by simp
  then show ?thesis by simp
qed


lemma pointer_advances:
  assumes "readb H ptr s = Some (0, v, s')"
  shows "0x40000 - unat (ptr + 2) < 0x40000 - unat ptr" "0x40000 - unat (ptr + 2 + ucast (link :: u8)) < 0x40000 - unat ptr"
proof -
  have p: "unat ptr < 131072" by (rule readb_bound [OF assms])
  have l: "unat (ucast link :: u32) < 256" using unsigned_less [of link, where ?'a = nat] by (simp add: unsigned_ucast_eq take_bit_eq_mod)
  have "unat (ptr + 2) = unat ptr + 2" using p by (simp add: unat_plus_no_wrap)
  moreover have "unat (ptr + 2 + ucast link) = unat ptr + 2 + unat (ucast link :: u32)" using p l calculation by (subst unat_plus_no_wrap) simp_all
  ultimately show "0x40000 - unat (ptr + 2) < 0x40000 - unat ptr" "0x40000 - unat (ptr + 2 + ucast link) < 0x40000 - unat ptr" using p by simp_all
qed

text \<open>After the loop, the tuples of function 0 follow those of another function.\<close>

definition link_tuples :: "function_tuple list \<Rightarrow> func_info \<Rightarrow> func_info" where
  "link_tuples f0 f = (if info_num f \<noteq> 0 then f\<lparr> tuples := tuples f @ f0 \<rparr> else f)"

function cis_loop ::
  "(nat \<Rightarrow> bool) \<Rightarrow> 'w sd_host \<Rightarrow> u8 \<Rightarrow> function_tuple list \<Rightarrow> u32 \<Rightarrow> func_info \<times> sdio_cis \<times> 'w ident \<Rightarrow>
     (int \<times> func_info \<times> sdio_cis \<times> 'w ident) option" where
  "cis_loop M H version f0 ptr (f, c, s) = do {
     (ret, code, s) \<leftarrow> readb H ptr s;
     if ret \<noteq> 0 then Some (ret, link_tuples f0 f, c, s)
     else do {
       (ret, link, s) \<leftarrow> readb H (ptr + 1) s;
       if ret \<noteq> 0 \<or> code = CISTPL_END \<or> link = 0xff then Some (ret, link_tuples f0 f, c, s)
       else if code = CISTPL_NULL then cis_loop M H version f0 (ptr + 2) (f, c, s)
       else
         case rt_malloc M (TupleBlock code) s of
           (None, s) \<Rightarrow> Some (- RT_ENOMEM, f, c, s)
         | (Some p, s) \<Rightarrow> do {
             (ret, data, s) \<leftarrow> read_data H (ptr + 2) (unat link) s;
             if ret \<noteq> 0 then map_option (\<lambda>s. (ret, link_tuples f0 f, c, s)) (rt_free p s)
             else do {
               fcs \<leftarrow> cis_tuple version code p data (f, c, s);
               cis_loop M H version f0 (ptr + 2 + ucast link) fcs
             }
           }
     }
   }"
  by pat_completeness auto

termination
  by (relation "measure (\<lambda>(M, H, version, f0, ptr, fcs). 0x40000 - unat ptr)") (simp_all, use pointer_advances in \<open>blast+\<close>)

declare cis_loop.simps [simp del]

fun read_pointer :: "'w sd_host \<Rightarrow> u32 \<Rightarrow> nat list \<Rightarrow> u32 \<Rightarrow> 'w ident \<Rightarrow> (int \<times> u32 \<times> 'w ident) option" where
  "read_pointer H base [] ptr s = Some (0, ptr, s)"
| "read_pointer H base (i # is) ptr s = do {
     (ret, v, s) \<leftarrow> readb H (base + of_nat i) s;
     if ret \<noteq> 0 then Some (ret, ptr, s) else read_pointer H base is (ptr OR push_bit (i * 8) (ucast v)) s
   }"

definition sdio_read_cis ::
  "(nat \<Rightarrow> bool) \<Rightarrow> 'w sd_host \<Rightarrow> u8 \<Rightarrow> function_tuple list \<Rightarrow> func_info \<times> sdio_cis \<times> 'w ident \<Rightarrow>
     (int \<times> func_info \<times> sdio_cis \<times> 'w ident) option" where
  "sdio_read_cis M H version f0 fcs =
   (case fcs of (f, c, s) \<Rightarrow> do {
      (ret, ptr, s) \<leftarrow> read_pointer H (info_num f * 0x100 + SDIO_REG_FBR_CIS) [0..<3] 0 s;
      if ret \<noteq> 0 then Some (ret, f, c, s) else cis_loop M H version f0 ptr (f, c, s)
    })"

text \<open>Tuples are told apart by their blocks: for a function other than 0, the loop ends where the tuples of function 0 begin.\<close>

fun free_tuples :: "bool \<Rightarrow> function_tuple list \<Rightarrow> function_tuple list \<Rightarrow> 'w ident \<Rightarrow> 'w ident option" where
  "free_tuples own_all f0 [] s = Some s"
| "free_tuples own_all f0 (t # ts) s =
   (if \<not> own_all \<and> f0 \<noteq> [] \<and> tpl_block t = tpl_block (hd f0) then Some s
    else do { s \<leftarrow> rt_free (tpl_block t) s; free_tuples own_all f0 ts s })"

definition sdio_free_cis :: "function_tuple list \<Rightarrow> func_info \<Rightarrow> 'w ident \<Rightarrow> 'w ident option" where
  "sdio_free_cis f0 f s = free_tuples (info_num f = 0) f0 (tuples f) s"

definition sdio_read_fbr :: "'w sd_host \<Rightarrow> func_info \<Rightarrow> 'w ident \<Rightarrow> (int \<times> func_info \<times> 'w ident) option" where
  "sdio_read_fbr H f s = do {
     (ret, v, s) \<leftarrow> readb H (info_num f * 0x100) s;
     if ret \<noteq> 0 then Some (ret, f, s)
     else if v AND 0x0f = 0x0f
     then map_option (\<lambda>(ret, v, s). (ret, if ret \<noteq> 0 then f else f\<lparr> func_code := v \<rparr>, s)) (readb H (info_num f * 0x100 + 1) s)
     else Some (0, f\<lparr> func_code := v AND 0x0f \<rparr>, s)
   }"

definition func_zero :: "nat \<Rightarrow> nat \<Rightarrow> func_info" where
  "func_zero p n = \<lparr> info_block = p, info_num = of_nat n, func_code = 0, func_manufacturer = 0, func_product = 0,
     func_max_blk_size = 0, func_enable_timeout = 0, tuples = [] \<rparr>"

definition func0_tuples :: "mmcsd_card \<Rightarrow> function_tuple list" where
  "func0_tuples crd = (case card_functions crd 0 of Some f \<Rightarrow> tuples f | None \<Rightarrow> [])"

text \<open>The structure of a function is freed after its tuples.\<close>

definition free_function :: "mmcsd_card \<Rightarrow> func_info \<Rightarrow> 'w ident \<Rightarrow> 'w ident option" where
  "free_function crd f s = do { s \<leftarrow> sdio_free_cis (func0_tuples crd) f s; rt_free (info_block f) s }"

definition sdio_initialize_function ::
  "(nat \<Rightarrow> bool) \<Rightarrow> 'w sd_host \<Rightarrow> nat \<Rightarrow> mmcsd_card \<times> 'w ident \<Rightarrow> (int \<times> mmcsd_card \<times> 'w ident) option" where
  "sdio_initialize_function M H n cs =
   (case cs of (crd, s) \<Rightarrow>
      if n > 7 then None
      else case rt_malloc M FunctionBlock s of
        (None, s) \<Rightarrow> Some (- RT_ENOMEM, crd, s)
      | (Some p, s) \<Rightarrow> do {
          (ret, f, s) \<leftarrow> sdio_read_fbr H (func_zero p n) s;
          (ret, f, c, s) \<leftarrow> (if ret \<noteq> 0 then Some (ret, f, cis crd, s)
                              else sdio_read_cis M H (sdio_version (cccr crd)) (func0_tuples crd) (f, cis crd, s));
          let crd = crd\<lparr> cis := c \<rparr>;
          if ret \<noteq> 0 then do {
            s \<leftarrow> free_function crd f s;
            Some (ret, crd\<lparr> card_functions := (card_functions crd)(n := None) \<rparr>, s)
          }
          else
            let f = (if func_product f = 0 then f\<lparr> func_manufacturer := manufacturer (cis crd), func_product := product_id (cis crd) \<rparr> else f)
            in Some (0, crd\<lparr> card_functions := (card_functions crd)(n \<mapsto> f) \<rparr>, s)
        })"

fun init_functions :: "(nat \<Rightarrow> bool) \<Rightarrow> 'w sd_host \<Rightarrow> nat list \<Rightarrow> mmcsd_card \<times> 'w ident \<Rightarrow> (int \<times> mmcsd_card \<times> 'w ident) option" where
  "init_functions M H [] cs = Some (0, fst cs, snd cs)"
| "init_functions M H (n # ns) cs = do {
     (ret, crd, s) \<leftarrow> sdio_initialize_function M H n cs;
     if ret \<noteq> 0 then Some (ret, crd, s) else init_functions M H ns (crd, s)
   }"

subsection \<open>Cards\<close>

text \<open>The labels \<open>err3\<close> and \<open>err2\<close>: the functions, then function 0 and the card.\<close>

fun free_functions :: "nat list \<Rightarrow> mmcsd_card \<times> 'w ident \<Rightarrow> (mmcsd_card \<times> 'w ident) option" where
  "free_functions [] cs = Some cs"
| "free_functions (n # ns) (crd, s) =
   (case card_functions crd n of
      None \<Rightarrow> free_functions ns (crd, s)
    | Some f \<Rightarrow> do {
        s \<leftarrow> free_function crd f s;
        free_functions ns (crd\<lparr> card_functions := (card_functions crd)(n := None) \<rparr>, s)
      })"

definition free_card :: "mmcsd_card \<times> 'w ident \<Rightarrow> 'w ident option" where
  "free_card cs =
   (case cs of (crd, s) \<Rightarrow> do {
      s \<leftarrow> (case card_functions crd 0 of Some f \<Rightarrow> free_function crd f s | None \<Rightarrow> Some s);
      rt_free (card_block crd) s
    })"

definition card_zero :: "nat \<Rightarrow> nat \<Rightarrow> mmcsd_card" where
  "card_zero p n = \<lparr> card_block = p, rca = 0, flag_highspeed = False, sdio_function_num = n, cccr = cccr_zero,
     cis = \<lparr> manufacturer = 0, product_id = 0, func0_blk_size = 0, max_tran_speed = 0 \<rparr>, card_functions = Map.empty \<rparr>"

text \<open>What the list of cards keeps of a card.\<close>

definition card_entry :: "mmcsd_card \<Rightarrow> sdio_card" where
  "card_entry crd = \<lparr> card_manufacturer = ucast (manufacturer (cis crd)),
     card_products = map (\<lambda>n. case card_functions crd n of Some f \<Rightarrow> ucast (func_product f) | None \<Rightarrow> 0) [1..<Suc (sdio_function_num crd)] \<rparr>"

text \<open>The steps whose failure goes to \<open>err2\<close>: address and selection, then CCCR, CIS of function 0, speed and width.\<close>

definition card_address :: "'w sd_host \<Rightarrow> mmcsd_card \<times> 'w ident \<Rightarrow> int \<times> mmcsd_card \<times> 'w ident" where
  "card_address H cs =
   (let (crd, s) = cs in
    if is_spi H then (0, crd, s)
    else
      let (ret, addr, s) = mmcsd_get_card_addr H s; crd = crd\<lparr> rca := addr \<rparr> in
      if ret \<noteq> 0 then (ret, crd, s)
      else let (ret, s) = mmcsd_select_card H crd (mmcsd_set_bus_mode 2 s) in (ret, crd, s))"

definition card_setup :: "(nat \<Rightarrow> bool) \<Rightarrow> 'w sd_host \<Rightarrow> host_caps \<Rightarrow> func_info \<Rightarrow> mmcsd_card \<times> 'w ident \<Rightarrow> (int \<times> mmcsd_card \<times> 'w ident) option" where
  "card_setup M H P f cs =
   (let (ret, crd, s) = card_address H cs in
    if ret \<noteq> 0 then Some (ret, crd, s)
    else do {
      (ret, r, s) \<leftarrow> sdio_read_cccr H s;
      let crd = crd\<lparr> cccr := r \<rparr>;
      if ret \<noteq> 0 then Some (ret, crd, s)
      else do {
        (ret, f, c, s) \<leftarrow> sdio_read_cis M H (sdio_version r) [] (f, cis crd, s);
        let crd = crd\<lparr> cis := c, card_functions := (card_functions crd)(0 \<mapsto> f) \<rparr>;
        if ret \<noteq> 0 then Some (ret, crd, s)
        else do {
          (ret, crd, s) \<leftarrow> sdio_set_highspeed H P crd s;
          if ret \<noteq> 0 then Some (ret, crd, s)
          else do {
            let s = mmcsd_set_clock (if flag_highspeed crd then (if freq_max P > 50000000 then 50000000 else freq_max P)
                                     else max_tran_speed (cis crd)) s;
            (ret, s) \<leftarrow> sdio_set_bus_wide H P crd s;
            Some (ret, crd, s)
          }
        }
      }
    })"

text \<open>
  The results are the code, the card of the host, the list of cards, and the drivers whose probe was called. First the part from the allocated
  structures on, with the error labels.
\<close>

definition attach_card ::
  "(nat \<Rightarrow> bool) \<Rightarrow> 'w sd_host \<Rightarrow> host_caps \<Rightarrow> func_info \<Rightarrow> sdio_card list \<Rightarrow> sdio_driver list \<Rightarrow> mmcsd_card \<times> 'w ident \<Rightarrow>
     (int \<times> mmcsd_card option \<times> sdio_card list \<times> sdio_driver list \<times> 'w ident) option" where
  "attach_card M H P f cards drivers cs = do {
     (err, crd, s) \<leftarrow> card_setup M H P f cs;
     if err \<noteq> 0 then map_option (\<lambda>s. (err, None, cards, [], s)) (free_card (crd, s))
     else do {
       let ns = [1..<Suc (sdio_function_num crd)];
       (err, crd, s) \<leftarrow> init_functions M H ns (crd, s);
       let (alloc, s) = (if err \<noteq> 0 then (None, s) else rt_malloc M ListBlock s);
       let (err, cards, probed) = (if err \<noteq> 0 then (err, cards, []) else sdio_register_card (alloc \<noteq> None) (card_entry crd) cards drivers);
       if err \<noteq> 0 then do {
         cs \<leftarrow> free_functions ns (crd, s);
         map_option (\<lambda>s. (err, None, cards, [], s)) (free_card cs)
       }
       else Some (0, Some crd, cards, probed, s)
     }
   }"

definition sdio_init_card ::
  "(nat \<Rightarrow> bool) \<Rightarrow> 'w sd_host \<Rightarrow> host_caps \<Rightarrow> u32 \<Rightarrow> sdio_card list \<Rightarrow> sdio_driver list \<Rightarrow> 'w ident \<Rightarrow>
     (int \<times> mmcsd_card option \<times> sdio_card list \<times> sdio_driver list \<times> 'w ident) option" where
  "sdio_init_card M H P ocr cards drivers s =
   (let (err, resp, s) = sdio_io_send_op_cond H ocr s;
        (err, s) = (if err \<noteq> 0 \<or> \<not> is_spi H then (err, s) else mmcsd_spi_use_crc H (spi_use_crc P) s);
        function_num = unat (drop_bit 28 (resp AND 0x70000000))
    in if err \<noteq> 0 then Some (err, None, cards, [], s)
       else case rt_malloc M CardBlock s of
         (None, s) \<Rightarrow> Some (- RT_ENOMEM, None, cards, [], s)
       | (Some p, s) \<Rightarrow>
           (case rt_malloc M FunctionBlock s of
              (None, s) \<Rightarrow> map_option (\<lambda>s. (- RT_ENOMEM, None, cards, [], s)) (free_card (card_zero p function_num, s))
            | (Some q, s) \<Rightarrow>
                let f = func_zero q 0
                in attach_card M H P f cards drivers ((card_zero p function_num)\<lparr> card_functions := [0 \<mapsto> f] \<rparr>, s)))"

definition init_sdio ::
  "(nat \<Rightarrow> bool) \<Rightarrow> 'w sd_host \<Rightarrow> host_caps \<Rightarrow> u32 \<Rightarrow> sdio_card list \<Rightarrow> sdio_driver list \<Rightarrow> 'w ident \<Rightarrow>
     (int \<times> mmcsd_card option \<times> sdio_card list \<times> sdio_driver list \<times> 'w ident) option" where
  "init_sdio M H P ocr cards drivers s =
   (let ocr = ocr AND NOT 0x7F AND NOT VDD_165_195;
        (current_ocr, s) = mmcsd_select_voltage P ocr s
    in if current_ocr = 0 then Some (- RT_ERROR, None, cards, [], s)
       else sdio_init_card M H P current_ocr cards drivers s)"

subsection \<open>Ownership\<close>

text \<open>The tuples whose blocks the code loses.\<close>

definition lost :: "nat \<times> block \<Rightarrow> bool" where
  "lost b \<longleftrightarrow> snd b = TupleBlock CISTPL_FUNCE \<or> snd b = TupleBlock CISTPL_VERS_1"

text \<open>The blocks of \<open>own\<close> are allocated, each once, and any other block is a lost one.\<close>

definition holds :: "(nat \<times> block) multiset \<Rightarrow> 'w ident \<Rightarrow> bool" where
  "holds own s \<longleftrightarrow> distinct (map fst (live s)) \<and> (\<forall>b\<in>set (live s). fst b < fresh s) \<and>
     (\<exists>X. mset (live s) = own + X \<and> (\<forall>b\<in>#X. lost b))"

definition same_heap :: "'w ident \<Rightarrow> 'w ident \<Rightarrow> bool" where
  "same_heap s s' \<longleftrightarrow> live s' = live s \<and> fresh s' = fresh s"

lemma holds_same: "same_heap s s' \<Longrightarrow> holds own s \<Longrightarrow> holds own s'"
  by (simp add: same_heap_def holds_def)

lemma same_heap_refl [simp]: "same_heap s s"
  by (simp add: same_heap_def)

lemma same_heap_trans: "same_heap s s' \<Longrightarrow> same_heap s' s'' \<Longrightarrow> same_heap s s''"
  by (simp add: same_heap_def)

lemma holds_lose: "lost b \<Longrightarrow> holds (add_mset b own) s \<Longrightarrow> holds own s"
proof -
  assume l: "lost b" and h: "holds (add_mset b own) s"
  then obtain X where "mset (live s) = own + add_mset b X" "\<forall>x\<in>#add_mset b X. lost x" by (auto simp: holds_def)
  then show ?thesis using h unfolding holds_def by blast
qed

lemma malloc_holds:
  assumes "holds own s"
  shows "case rt_malloc M b s of (None, s') \<Rightarrow> holds own s' | (Some p, s') \<Rightarrow> holds (add_mset (p, b) own) s'"
proof -
  obtain X where X: "mset (live s) = own + X" "\<forall>b\<in>#X. lost b" using assms by (auto simp: holds_def)
  have "fresh s \<notin> fst ` set (live s)" using assms by (auto simp: holds_def)
  then show ?thesis using assms X by (auto simp: rt_malloc_def holds_def intro!: exI [of _ X])
qed

lemma free_distinct:
  assumes "distinct (map fst xs)" "(p, b) \<in> set xs"
  shows "mset (filter (\<lambda>b. fst b \<noteq> p) xs) = mset xs - {#(p, b)#}"
  using assms
proof (induction xs)
  case (Cons x xs)
  show ?case
  proof (cases "fst x = p")
    case True
    then have "p \<notin> fst ` set xs" "x = (p, b)" using Cons.prems by (auto simp: image_iff)
    then have "filter (\<lambda>b. fst b \<noteq> p) xs = xs" by (auto simp: filter_id_conv image_iff)
    then show ?thesis using True \<open>x = (p, b)\<close> by simp
  next
    case False
    then have "(p, b) \<in> set xs" "x \<noteq> (p, b)" using Cons.prems(2) by auto
    then have "mset (filter (\<lambda>b. fst b \<noteq> p) (x # xs)) = add_mset x (mset xs - {#(p, b)#})" using False Cons by simp
    also have "\<dots> = mset (x # xs) - {#(p, b)#}" using \<open>x \<noteq> (p, b)\<close> diff_union_swap [of "(p, b)" x] by auto
    finally show ?thesis .
  qed
qed simp

lemma free_holds:
  assumes "holds (add_mset (p, b) own) s"
  shows "\<exists>s'. rt_free p s = Some s' \<and> holds own s'"
proof -
  obtain X where X: "mset (live s) = add_mset (p, b) own + X" "\<forall>b\<in>#X. lost b" and d: "distinct (map fst (live s))" "\<forall>b\<in>set (live s). fst b < fresh s"
    using assms by (auto simp: holds_def)
  have "(p, b) \<in># mset (live s)" using X(1) by simp
  then have m: "(p, b) \<in> set (live s)" by simp
  then have "mset (filter (\<lambda>b. fst b \<noteq> p) (live s)) = own + X" using free_distinct [OF d(1) m] X(1) by simp
  moreover have "distinct (map fst (filter (\<lambda>b. fst b \<noteq> p) (live s)))" using d(1) by (simp add: distinct_map_filter)
  ultimately have "holds own (s\<lparr> live := filter (\<lambda>b. fst b \<noteq> p) (live s) \<rparr>)" using d(2) X(2) by (auto simp: holds_def)
  moreover have "p \<in> fst ` set (live s)" using m by force
  ultimately show ?thesis by (simp add: rt_free_def)
qed

lemma holds_apart:
  assumes "holds (add_mset (p, b) (add_mset (q, c) own)) s"
  shows "p \<noteq> q"
proof
  assume "p = q"
  obtain X where "mset (live s) = add_mset (p, b) (add_mset (q, c) own) + X" and d: "distinct (map fst (live s))"
    using assms by (auto simp: holds_def)
  then have "mset (map fst (live s)) = add_mset p (add_mset q (image_mset fst own + image_mset fst X))" by simp
  then have "count (mset (map fst (live s))) p \<ge> 2" using \<open>p = q\<close> by simp
  moreover have "count (mset (map fst (live s))) p \<le> 1" using d by (simp add: distinct_count_atmost_1)
  ultimately show False by simp
qed

text \<open>The blocks of tuples, and freeing them.\<close>

definition tuple_blocks :: "function_tuple list \<Rightarrow> (nat \<times> block) multiset" where
  "tuple_blocks ts = mset (map (\<lambda>t. (tpl_block t, TupleBlock (tpl_code t))) ts)"

lemma tuple_blocks_simps [simp]:
  "tuple_blocks [] = {#}" "tuple_blocks (t # ts) = add_mset (tpl_block t, TupleBlock (tpl_code t)) (tuple_blocks ts)"
  "tuple_blocks (ts @ us) = tuple_blocks ts + tuple_blocks us"
  by (simp_all add: tuple_blocks_def)

lemma free_tuples_holds:
  assumes "holds (own + tuple_blocks ts + tuple_blocks f0) s" "rest = [] \<or> rest = f0"
  shows "\<exists>s'. free_tuples False f0 (ts @ rest) s = Some s' \<and> holds (own + tuple_blocks f0) s'"
  using assms(1)
proof (induction ts arbitrary: s)
  case Nil
  then show ?case using assms(2) by (cases f0) auto
next
  case (Cons t ts)
  let ?b = "(tpl_block t, TupleBlock (tpl_code t))"
  have h: "holds (add_mset ?b (own + tuple_blocks ts + tuple_blocks f0)) s" using Cons.prems by (simp add: ac_simps)
  have "f0 = [] \<or> tpl_block t \<noteq> tpl_block (hd f0)"
  proof (cases f0)
    case (Cons u us)
    then have "holds (add_mset ?b (add_mset (tpl_block u, TupleBlock (tpl_code u)) (own + tuple_blocks ts + tuple_blocks us))) s"
      using h by (simp add: ac_simps)
    from holds_apart [OF this] show ?thesis using Cons by simp
  qed simp
  moreover obtain s1 where "rt_free (tpl_block t) s = Some s1" "holds (own + tuple_blocks ts + tuple_blocks f0) s1"
    using free_holds [OF h] by blast
  ultimately show ?case using Cons.IH by auto
qed

lemma free_all_tuples:
  assumes "holds (own + tuple_blocks ts) s"
  shows "\<exists>s'. free_tuples True f0 ts s = Some s' \<and> holds own s'"
  using assms
proof (induction ts arbitrary: s)
  case (Cons t ts)
  then have "holds (add_mset (tpl_block t, TupleBlock (tpl_code t)) (own + tuple_blocks ts)) s" by (simp add: ac_simps)
  from free_holds [OF this] show ?case using Cons.IH by auto
qed simp

subsection \<open>Every step keeps the heap\<close>

lemma readb_returns: "\<exists>ret v s'. readb H reg s = Some (ret, v, s') \<and> same_heap s s'"
  by (simp add: readb_def sdio_io_readb_def sdio_io_rw_direct_def reg_function_def Let_def same_heap_def split: prod.split)

lemma writeb_returns: "\<exists>ret s'. writeb H reg v s = Some (ret, s') \<and> same_heap s s'"
  by (simp add: writeb_def sdio_io_writeb_def sdio_io_rw_direct_def reg_function_def Let_def same_heap_def split: prod.split)

lemma send_cmd_heap: "send_cmd H code arg n s = (rsp, s') \<Longrightarrow> same_heap s s'"
  by (auto simp: send_cmd_def same_heap_def split: prod.splits)

lemma iocfg_heap [simp]: "same_heap s (mmcsd_set_iocfg f s)"
  by (simp add: mmcsd_set_iocfg_def same_heap_def)

lemma read_data_returns: "\<exists>ret vs s'. read_data H ptr n s = Some (ret, vs, s') \<and> same_heap s s'"
proof (induction n arbitrary: ptr s)
  case (Suc n)
  obtain ret v s1 where r: "readb H ptr s = Some (ret, v, s1)" "same_heap s s1" using readb_returns by blast
  obtain ret' vs s2 where "read_data H (ptr + 1) n s1 = Some (ret', vs, s2)" "same_heap s1 s2" using Suc by blast
  then show ?case using r same_heap_trans by fastforce
qed simp

lemma read_pointer_returns: "\<exists>ret p s'. read_pointer H base is ptr s = Some (ret, p, s') \<and> same_heap s s'"
proof (induction "is" arbitrary: ptr s)
  case (Cons i "is")
  obtain ret v s1 where r: "readb H (base + of_nat i) s = Some (ret, v, s1)" "same_heap s s1" using readb_returns by blast
  then show ?case using Cons [of "ptr OR push_bit (i * 8) (ucast v)" s1] same_heap_trans by fastforce
qed simp

text \<open>A tuple leaves its function the owner of its block, frees the block or loses it.\<close>

lemma cis_tuple_holds:
  assumes "holds (add_mset (p, TupleBlock code) (own + tuple_blocks (tuples f))) s"
  shows "\<exists>f' c' s'. cis_tuple version code p data (f, c, s) = Some (f', c', s') \<and> info_num f' = info_num f \<and> info_block f' = info_block f \<and>
    (\<exists>new. tuples f' = tuples f @ new) \<and> holds (own + tuple_blocks (tuples f')) s'"
proof -
  consider "code = CISTPL_MANFID" | "code = CISTPL_FUNCE \<or> code = CISTPL_VERS_1"
    | "code \<noteq> CISTPL_MANFID" "code \<noteq> CISTPL_FUNCE" "code \<noteq> CISTPL_VERS_1" by blast
  then show ?thesis
  proof cases
    case 1
    obtain s' where "rt_free p s = Some s'" "holds (own + tuple_blocks (tuples f)) s'" using free_holds [OF assms] by blast
    then show ?thesis using 1 by (auto simp: cis_tuple_def)
  next
    case 2
    then have "lost (p, TupleBlock code)" by (auto simp: lost_def)
    then have "holds (own + tuple_blocks (tuples f)) s" using holds_lose assms by blast
    then show ?thesis using 2
      by (auto simp: cis_tuple_def cistpl_funce_func_def cistpl_funce_func0_def split: option.split)
  next
    case 3
    then show ?thesis using assms by (simp add: cis_tuple_def)
  qed
qed

text \<open>The outcome of reading tuples: those found are added, and the tuples of function 0 follow unless memory ran out.\<close>

definition cis_outcome ::
  "(nat \<times> block) multiset \<Rightarrow> function_tuple list \<Rightarrow> func_info \<Rightarrow> (int \<times> func_info \<times> sdio_cis \<times> 'w ident) option \<Rightarrow> bool" where
  "cis_outcome own f0 f r \<longleftrightarrow> (\<exists>ret f' c' s' new. r = Some (ret, f', c', s') \<and> info_num f' = info_num f \<and> info_block f' = info_block f \<and>
     (tuples f' = tuples f @ new @ (if info_num f = 0 then [] else f0) \<or> ret \<noteq> 0 \<and> tuples f' = tuples f @ new) \<and>
     holds (own + tuple_blocks (tuples f @ new)) s')"

lemma cis_stop:
  assumes "holds (own + tuple_blocks (tuples f)) s"
  shows "cis_outcome own f0 f (Some (ret, link_tuples f0 f, c, s))" "ret \<noteq> 0 \<Longrightarrow> cis_outcome own f0 f (Some (ret, f, c, s))"
proof -
  show "cis_outcome own f0 f (Some (ret, link_tuples f0 f, c, s))" unfolding cis_outcome_def using assms
    by (intro exI [of _ ret] exI [of _ "link_tuples f0 f"] exI [of _ c] exI [of _ s] exI [of _ "[]"]) (simp add: link_tuples_def)
  show "cis_outcome own f0 f (Some (ret, f, c, s))" if "ret \<noteq> 0" unfolding cis_outcome_def using assms that
    by (intro exI [of _ ret] exI [of _ f] exI [of _ c] exI [of _ s] exI [of _ "[]"]) simp
qed

lemma cis_outcome_trans:
  assumes "cis_outcome own f0 f' r" "info_num f' = info_num f" "info_block f' = info_block f" "tuples f' = tuples f @ new"
  shows "cis_outcome own f0 f r"
proof -
  obtain ret f1 c1 s1 more where "r = Some (ret, f1, c1, s1)" "info_num f1 = info_num f'" "info_block f1 = info_block f'"
    "tuples f1 = tuples f' @ more @ (if info_num f' = 0 then [] else f0) \<or> ret \<noteq> 0 \<and> tuples f1 = tuples f' @ more"
    "holds (own + tuple_blocks (tuples f' @ more)) s1" using assms(1) unfolding cis_outcome_def by blast
  then show ?thesis unfolding cis_outcome_def using assms(2-4)
    by (intro exI [of _ ret] exI [of _ f1] exI [of _ c1] exI [of _ s1] exI [of _ "new @ more"]) simp
qed

lemma cis_loop_holds: "holds (own + tuple_blocks (tuples f)) s \<Longrightarrow> cis_outcome own f0 f (cis_loop M H version f0 ptr (f, c, s))"
proof (induction M H version f0 ptr "(f, c, s)" arbitrary: f c s rule: cis_loop.induct)
  case (1 M H version f0 ptr f c s)
  obtain ret code s1 where r1: "readb H ptr s = Some (ret, code, s1)" "same_heap s s1" using readb_returns by blast
  obtain ret2 link s2 where r2: "readb H (ptr + 1) s1 = Some (ret2, link, s2)" "same_heap s1 s2" using readb_returns by blast
  have h1: "holds (own + tuple_blocks (tuples f)) s1" using holds_same [OF r1(2)] 1(3) by simp
  then have h2: "holds (own + tuple_blocks (tuples f)) s2" using holds_same [OF r2(2)] by simp
  show ?case
  proof (cases "ret \<noteq> 0 \<or> ret2 \<noteq> 0 \<or> code = CISTPL_END \<or> link = 0xff \<or> code = CISTPL_NULL")
    case True
    then show ?thesis using 1(1) [OF r1(1) refl refl _ r2(1) refl refl _ _ h2] r1(1) r2(1) cis_stop(1) [OF h1] cis_stop(1) [OF h2]
      by (subst cis_loop.simps) auto
  next
    case False
    show ?thesis
    proof (cases "rt_malloc M (TupleBlock code) s2")
      case (Pair po s3)
      show ?thesis
      proof (cases po)
        case None
        then have "holds (own + tuple_blocks (tuples f)) s3" using malloc_holds [OF h2, where M = M and b = "TupleBlock code"] Pair by simp
        then show ?thesis using cis_stop(2) [of own f s3 "- RT_ENOMEM"] False None Pair r1(1) r2(1) by (subst cis_loop.simps) simp
      next
        case (Some p)
        let ?n = "unat link" and ?own = "own + tuple_blocks (tuples f)"
        have h3: "holds (add_mset (p, TupleBlock code) ?own) s3" using malloc_holds [OF h2, where M = M and b = "TupleBlock code"] Pair Some by simp
        obtain ret3 vs s4 where r3: "read_data H (ptr + 2) ?n s3 = Some (ret3, vs, s4)" "same_heap s3 s4" using read_data_returns by blast
        have h4: "holds (add_mset (p, TupleBlock code) ?own) s4" using holds_same [OF r3(2) h3] .
        obtain s5 where fr: "rt_free p s4 = Some s5" "holds ?own s5" using free_holds [OF h4] by blast
        obtain f' c' s6 new where t: "cis_tuple version code p vs (f, c, s4) = Some (f', c', s6)" "info_num f' = info_num f"
          "info_block f' = info_block f" "tuples f' = tuples f @ new" "holds (own + tuple_blocks (tuples f')) s6"
          using cis_tuple_holds [OF h4, of version vs c] by blast
        have "cis_outcome own f0 f (cis_loop M H version f0 (ptr + 2 + ucast link) (f', c', s6))" if "ret3 = 0"
          using cis_outcome_trans [OF 1(2) [OF r1(1) refl refl _ r2(1) refl refl _ _ Pair [symmetric] Some r3(1) refl refl _ t(1) t(5)]
              t(2-4)] False that by simp
        then show ?thesis using False Some Pair r1(1) r2(1) r3(1) t(1) fr cis_stop(1) [OF fr(2)] by (subst cis_loop.simps) auto
      qed
    qed
  qed
qed

lemma read_cis_holds:
  assumes "holds (own + tuple_blocks (tuples f)) s"
  shows "cis_outcome own f0 f (sdio_read_cis M H version f0 (f, c, s))"
proof -
  obtain ret p s1 where r: "read_pointer H (info_num f * 0x100 + SDIO_REG_FBR_CIS) [0..<3] 0 s = Some (ret, p, s1)" "same_heap s s1"
    using read_pointer_returns by blast
  have "holds (own + tuple_blocks (tuples f)) s1" using holds_same r(2) assms by blast
  then show ?thesis using r(1) cis_loop_holds [of own f s1] cis_stop(2) [of own f s1] by (simp add: sdio_read_cis_def)
qed

lemma read_fbr_returns:
  "\<exists>ret f' s'. sdio_read_fbr H f s = Some (ret, f', s') \<and> same_heap s s' \<and> info_num f' = info_num f \<and> info_block f' = info_block f \<and> tuples f' = tuples f"
proof -
  obtain ret v s1 where r1: "readb H (info_num f * 0x100) s = Some (ret, v, s1)" "same_heap s s1" using readb_returns by blast
  obtain ret2 v2 s2 where r2: "readb H (info_num f * 0x100 + 1) s1 = Some (ret2, v2, s2)" "same_heap s1 s2" using readb_returns by blast
  show ?thesis using r1 r2 same_heap_trans by (auto simp: sdio_read_fbr_def)
qed

subsection \<open>The blocks of a card\<close>

text \<open>A function other than 0 owns the tuples before those of function 0, which follow in its list.\<close>

definition func_blocks :: "mmcsd_card \<Rightarrow> nat \<Rightarrow> (nat \<times> block) multiset" where
  "func_blocks crd n =
   (case card_functions crd n of
      None \<Rightarrow> {#}
    | Some f \<Rightarrow> add_mset (info_block f, FunctionBlock)
        (tuple_blocks (take (length (tuples f) - (if n = 0 then 0 else length (func0_tuples crd))) (tuples f))))"

definition linked :: "mmcsd_card \<Rightarrow> bool" where
  "linked crd \<longleftrightarrow> (\<forall>n f. card_functions crd n = Some f \<longrightarrow>
     (info_num f = 0 \<longleftrightarrow> n = 0) \<and> (n \<noteq> 0 \<longrightarrow> (\<exists>mine. tuples f = mine @ func0_tuples crd)))"

lemma free_function_holds:
  assumes "info_num f \<noteq> 0" "tuples f = ts @ rest" "rest = [] \<or> rest = func0_tuples crd"
    and "holds (own + add_mset (info_block f, FunctionBlock) (tuple_blocks ts) + tuple_blocks (func0_tuples crd)) s"
  shows "\<exists>s'. free_function crd f s = Some s' \<and> holds (own + tuple_blocks (func0_tuples crd)) s'"
proof -
  have "holds (add_mset (info_block f, FunctionBlock) own + tuple_blocks ts + tuple_blocks (func0_tuples crd)) s"
    using assms(4) by (simp add: ac_simps)
  from free_tuples_holds [OF this assms(3)] assms(1,2)
  obtain s1 where "sdio_free_cis (func0_tuples crd) f s = Some s1" "holds (add_mset (info_block f, FunctionBlock) (own + tuple_blocks (func0_tuples crd))) s1"
    by (auto simp: sdio_free_cis_def)
  then show ?thesis using free_holds by (fastforce simp: free_function_def)
qed

lemma initialize_function_holds:
  assumes "holds (own + tuple_blocks (func0_tuples crd)) s" "0 < n" "n \<le> 7" "linked crd" "card_functions crd n = None"
  shows "\<exists>ret crd' s'. sdio_initialize_function M H n (crd, s) = Some (ret, crd', s') \<and> linked crd' \<and> card_block crd' = card_block crd \<and>
    sdio_function_num crd' = sdio_function_num crd \<and> (\<forall>k. k \<noteq> n \<longrightarrow> card_functions crd' k = card_functions crd k) \<and>
    (ret = 0 \<longrightarrow> card_functions crd' n \<noteq> None) \<and> holds (own + func_blocks crd' n + tuple_blocks (func0_tuples crd)) s'"
proof (cases "rt_malloc M FunctionBlock s")
  case (Pair po s1)
  let ?f0 = "func0_tuples crd"
  show ?thesis
  proof (cases po)
    case None
    then have "holds (own + tuple_blocks ?f0) s1" using malloc_holds [OF assms(1), where M = M and b = FunctionBlock] Pair by simp
    then show ?thesis using None Pair assms(3-5) by (simp add: sdio_initialize_function_def func_blocks_def)
  next
    case (Some p)
    have h1: "holds (add_mset (p, FunctionBlock) (own + tuple_blocks ?f0)) s1"
      using malloc_holds [OF assms(1), where M = M and b = FunctionBlock] Pair Some by simp
    obtain ret f s2 where r2: "sdio_read_fbr H (func_zero p n) s1 = Some (ret, f, s2)" "same_heap s1 s2" "info_num f = of_nat n" "info_block f = p" "tuples f = []"
      using read_fbr_returns [of H "func_zero p n" s1] by (auto simp: func_zero_def)
    have num: "info_num f \<noteq> 0" using assms(2,3) r2(3) unat_of_nat32 [of n] by auto
    let ?own = "add_mset (p, FunctionBlock) (own + tuple_blocks ?f0)"
    have h2: "holds (?own + tuple_blocks (tuples f)) s2" using holds_same [OF r2(2) h1] r2(5) by simp
    define r where "r = (if ret \<noteq> 0 then Some (ret, f, cis crd, s2) else sdio_read_cis M H (sdio_version (cccr crd)) ?f0 (f, cis crd, s2))"
    have "cis_outcome ?own ?f0 f r" unfolding r_def using read_cis_holds [OF h2] cis_stop(2) [OF h2] by simp
    then have "\<exists>ret' f' c' s3 new. r = Some (ret', f', c', s3) \<and> info_num f' = info_num f \<and> info_block f' = p \<and>
        (tuples f' = new @ ?f0 \<or> ret' \<noteq> 0 \<and> tuples f' = new) \<and> holds (?own + tuple_blocks new) s3"
      by (simp only: cis_outcome_def num r2(4,5) if_False append_Nil)
    then obtain ret' f' c' s3 new where o: "r = Some (ret', f', c', s3)" "info_num f' = info_num f" "info_block f' = p"
      "tuples f' = new @ ?f0 \<or> ret' \<noteq> 0 \<and> tuples f' = new" "holds (?own + tuple_blocks new) s3" by blast
    have h3: "holds (own + add_mset (info_block f', FunctionBlock) (tuple_blocks new) + tuple_blocks ?f0) s3" using o(3,5) by (simp add: ac_simps)
    let ?c = "crd\<lparr> cis := c' \<rparr>"
    have f0: "func0_tuples ?c = ?f0" "\<And>x. func0_tuples (?c\<lparr> card_functions := (card_functions crd)(n := x) \<rparr>) = ?f0"
      using assms(2) by (simp_all add: func0_tuples_def)
    show ?thesis
    proof (cases "ret' = 0")
      case True
      define g where "g = (if func_product f' = 0 then f'\<lparr> func_manufacturer := manufacturer c', func_product := product_id c' \<rparr> else f')"
      have g: "info_num g \<noteq> 0" "info_block g = info_block f'" "tuples g = new @ ?f0" using o num True by (simp_all add: g_def)
      have "sdio_initialize_function M H n (crd, s) = Some (0, ?c\<lparr> card_functions := (card_functions crd)(n \<mapsto> g) \<rparr>, s3)"
        using o(1) True Pair Some r2(1) assms(3) by (simp add: sdio_initialize_function_def r_def [symmetric] Let_def g_def)
      moreover have "linked (?c\<lparr> card_functions := (card_functions crd)(n \<mapsto> g) \<rparr>)"
        using assms(2,4) g unfolding linked_def f0 by (auto split: if_splits)
      ultimately show ?thesis using h3 g(2,3) assms(2) by (simp add: func_blocks_def f0)
    next
      case False
      obtain rest where rest: "tuples f' = new @ rest" "rest = [] \<or> rest = func0_tuples ?c" using o(4) f0(1) by auto
      obtain s4 where s4: "free_function ?c f' s3 = Some s4" "holds (own + tuple_blocks ?f0) s4"
        using free_function_holds [OF _ rest, of own s3] o(2) num h3 unfolding f0 by auto
      have "sdio_initialize_function M H n (crd, s) = Some (ret', ?c\<lparr> card_functions := (card_functions crd)(n := None) \<rparr>, s4)"
        using o(1) False Pair Some r2(1) assms(3) s4(1) by (simp add: sdio_initialize_function_def r_def [symmetric] Let_def)
      moreover have "linked (?c\<lparr> card_functions := (card_functions crd)(n := None) \<rparr>)" using assms(4) unfolding linked_def f0 by simp
      ultimately show ?thesis using s4(2) False by (simp add: func_blocks_def)
    qed
  qed
qed

lemma func_blocks_cong:
  "card_functions crd' n = card_functions crd n \<Longrightarrow> card_functions crd' 0 = card_functions crd 0 \<Longrightarrow> func_blocks crd' n = func_blocks crd n"
proof -
  assume c: "card_functions crd' n = card_functions crd n" "card_functions crd' 0 = card_functions crd 0"
  then have "func0_tuples crd' = func0_tuples crd" by (simp add: func0_tuples_def)
  then show ?thesis using c(1) by (simp add: func_blocks_def split: option.split)
qed

lemma init_functions_holds:
  assumes "holds (own + tuple_blocks (func0_tuples crd)) s" "distinct ns" "\<forall>n\<in>set ns. 0 < n \<and> n \<le> 7 \<and> card_functions crd n = None" "linked crd"
  shows "\<exists>ret crd' s'. init_functions M H ns (crd, s) = Some (ret, crd', s') \<and> linked crd' \<and> card_block crd' = card_block crd \<and>
    sdio_function_num crd' = sdio_function_num crd \<and> (\<forall>k. k \<notin> set ns \<longrightarrow> card_functions crd' k = card_functions crd k) \<and>
    (ret = 0 \<longrightarrow> (\<forall>n\<in>set ns. card_functions crd' n \<noteq> None)) \<and>
    holds (own + (\<Sum>n\<leftarrow>ns. func_blocks crd' n) + tuple_blocks (func0_tuples crd)) s'"
  using assms
proof (induction ns arbitrary: own crd s)
  case (Cons n ns)
  have n: "0 < n" "n \<le> 7" "card_functions crd n = None" using Cons.prems(3) by auto
  obtain ret crd1 s1 where r1: "sdio_initialize_function M H n (crd, s) = Some (ret, crd1, s1)" "linked crd1" "card_block crd1 = card_block crd"
      "sdio_function_num crd1 = sdio_function_num crd" "\<forall>k. k \<noteq> n \<longrightarrow> card_functions crd1 k = card_functions crd k"
      "ret = 0 \<longrightarrow> card_functions crd1 n \<noteq> None" "holds (own + func_blocks crd1 n + tuple_blocks (func0_tuples crd)) s1"
    using initialize_function_holds [OF Cons.prems(1) n(1,2) Cons.prems(4) n(3)] by blast
  have f0: "func0_tuples crd1 = func0_tuples crd" using r1(5) Cons.prems(3) by (auto simp: func0_tuples_def)
  show ?case
  proof (cases "ret = 0")
    case True
    have none: "\<forall>n\<in>set ns. 0 < n \<and> n \<le> 7 \<and> card_functions crd1 n = None" using r1(5) Cons.prems(2,3) by auto
    obtain ret2 crd2 s2 where r2: "init_functions M H ns (crd1, s1) = Some (ret2, crd2, s2)" "linked crd2" "card_block crd2 = card_block crd1"
        "sdio_function_num crd2 = sdio_function_num crd1" "\<forall>k. k \<notin> set ns \<longrightarrow> card_functions crd2 k = card_functions crd1 k"
        "ret2 = 0 \<longrightarrow> (\<forall>n\<in>set ns. card_functions crd2 n \<noteq> None)"
        "holds (own + func_blocks crd1 n + (\<Sum>n\<leftarrow>ns. func_blocks crd2 n) + tuple_blocks (func0_tuples crd)) s2"
      using Cons.IH [of "own + func_blocks crd1 n" crd1 s1] r1(2,7) f0 none Cons.prems(2) by auto
    have same: "\<forall>k. k \<notin> set (n # ns) \<longrightarrow> card_functions crd2 k = card_functions crd k" using r1(5) r2(5) by simp
    have c: "card_functions crd2 n = card_functions crd1 n" "card_functions crd2 0 = card_functions crd1 0" using r2(5) Cons.prems(2,3) by auto
    have "holds (own + (\<Sum>n\<leftarrow>n # ns. func_blocks crd2 n) + tuple_blocks (func0_tuples crd)) s2"
      using r2(7) func_blocks_cong [OF c] by (simp add: add.assoc)
    moreover have "ret2 = 0 \<longrightarrow> (\<forall>n\<in>set (n # ns). card_functions crd2 n \<noteq> None)" using c(1) r1(6) True r2(6) by simp
    ultimately show ?thesis using True r1(1,3,4) r2(1-4) same by (intro exI [of _ ret2] exI [of _ crd2] exI [of _ s2]) simp
  next
    case False
    have "map (func_blocks crd1) ns = map (\<lambda>_. {#}) ns" using r1(5) Cons.prems(2,3) by (auto simp: func_blocks_def)
    then have "(\<Sum>n\<leftarrow>ns. func_blocks crd1 n) = {#}" by (simp only:) simp
    then show ?thesis using False r1 by (intro exI [of _ ret] exI [of _ crd1] exI [of _ s1]) simp
  qed
qed simp

lemma free_functions_holds:
  assumes "holds (own + (\<Sum>n\<leftarrow>ns. func_blocks crd n) + tuple_blocks (func0_tuples crd)) s" "distinct ns" "0 \<notin> set ns" "linked crd"
  shows "\<exists>crd' s'. free_functions ns (crd, s) = Some (crd', s') \<and> card_block crd' = card_block crd \<and> card_functions crd' 0 = card_functions crd 0 \<and>
    holds (own + tuple_blocks (func0_tuples crd)) s'"
  using assms
proof (induction ns arbitrary: crd s)
  case (Cons n ns)
  show ?case
  proof (cases "card_functions crd n")
    case None
    then show ?thesis using Cons by (simp add: func_blocks_def)
  next
    case (Some f)
    let ?c = "crd\<lparr> card_functions := (card_functions crd)(n := None) \<rparr>"
    obtain mine where m: "info_num f \<noteq> 0" "tuples f = mine @ func0_tuples crd" using Cons.prems(3,4) Some by (auto simp: linked_def)
    have "holds ((own + (\<Sum>n\<leftarrow>ns. func_blocks crd n)) + add_mset (info_block f, FunctionBlock) (tuple_blocks mine) + tuple_blocks (func0_tuples crd)) s"
      using Cons.prems(1,3) Some m(2) by (simp add: func_blocks_def ac_simps)
    from free_function_holds [OF m(1,2) _ this] obtain s1 where s1: "free_function crd f s = Some s1"
      "holds ((own + (\<Sum>n\<leftarrow>ns. func_blocks crd n)) + tuple_blocks (func0_tuples crd)) s1" by blast
    have f0: "func0_tuples ?c = func0_tuples crd" using Cons.prems(3) by (simp add: func0_tuples_def)
    have "(\<Sum>n\<leftarrow>ns. func_blocks ?c n) = (\<Sum>n\<leftarrow>ns. func_blocks crd n)"
      using Cons.prems(2,3) by (intro arg_cong [of _ _ sum_list] map_cong func_blocks_cong) auto
    moreover have "linked ?c" using Cons.prems(4) unfolding linked_def f0 by simp
    ultimately show ?thesis using Cons.IH [of ?c s1] s1 f0 Cons.prems(2,3) Some by simp
  qed
qed simp

lemma free_card_holds:
  assumes "holds (add_mset (card_block crd, CardBlock) (own + func_blocks crd 0)) s" "\<forall>f. card_functions crd 0 = Some f \<longrightarrow> info_num f = 0"
  shows "\<exists>s'. free_card (crd, s) = Some s' \<and> holds own s'"
proof (cases "card_functions crd 0")
  case None
  then show ?thesis using assms(1) free_holds by (auto simp: free_card_def func_blocks_def)
next
  case (Some f)
  have z: "info_num f = 0" using assms(2) Some by simp
  have "holds (add_mset (info_block f, FunctionBlock) (add_mset (card_block crd, CardBlock) own) + tuple_blocks (tuples f)) s"
    using assms(1) Some by (simp add: func_blocks_def add_mset_commute)
  from free_all_tuples [OF this] obtain s1 where s1: "sdio_free_cis (func0_tuples crd) f s = Some s1"
    "holds (add_mset (info_block f, FunctionBlock) (add_mset (card_block crd, CardBlock) own)) s1" using z by (auto simp: sdio_free_cis_def)
  obtain s2 where "rt_free (info_block f) s1 = Some s2" "holds (add_mset (card_block crd, CardBlock) own) s2" using free_holds [OF s1(2)] by blast
  then show ?thesis using s1(1) Some free_holds by (fastforce simp: free_card_def free_function_def)
qed

text \<open>Registers and configuration do not touch the heap.\<close>

lemma read_cccr_returns: "\<exists>ret r s'. sdio_read_cccr H s = Some (ret, r, s') \<and> same_heap s s'"
proof -
  obtain a1 v1 s1 where r1: "readb H 0 s = Some (a1, v1, s1)" "same_heap s s1" using readb_returns by blast
  obtain a2 v2 s2 where r2: "readb H SDIO_REG_CCCR_CARD_CAPS s1 = Some (a2, v2, s2)" "same_heap s1 s2" using readb_returns by blast
  obtain a3 v3 s3 where r3: "readb H SDIO_REG_CCCR_POWER_CTRL s2 = Some (a3, v3, s3)" "same_heap s2 s3" using readb_returns by blast
  obtain a4 v4 s4 where r4: "readb H SDIO_REG_CCCR_SPEED s3 = Some (a4, v4, s4)" "same_heap s3 s4" using readb_returns by blast
  obtain a5 v5 s5 where r5: "readb H SDIO_REG_CCCR_SPEED s2 = Some (a5, v5, s5)" "same_heap s2 s5" using readb_returns by blast
  have h: "same_heap s s2" "same_heap s s3" "same_heap s s4" "same_heap s s5" using r1(2) r2(2) r3(2) r4(2) r5(2) by (simp_all add: same_heap_def)
  show ?thesis using r1 r2(1) r3(1) r4(1) r5(1) h by (auto simp: sdio_read_cccr_def Let_def)
qed

lemma set_highspeed_returns:
  "\<exists>ret crd' s'. sdio_set_highspeed H P crd s = Some (ret, crd', s') \<and> same_heap s s' \<and> card_functions crd' = card_functions crd \<and>
     card_block crd' = card_block crd \<and> sdio_function_num crd' = sdio_function_num crd \<and> cccr crd' = cccr crd \<and> cis crd' = cis crd"
proof -
  obtain a1 v1 s1 where r1: "readb H SDIO_REG_CCCR_SPEED s = Some (a1, v1, s1)" "same_heap s s1" using readb_returns by blast
  obtain a2 s2 where r2: "writeb H SDIO_REG_CCCR_SPEED (v1 OR 2) s1 = Some (a2, s2)" "same_heap s1 s2" using writeb_returns by blast
  show ?thesis using r1 r2 same_heap_trans [OF r1(2) r2(2)] by (auto simp: sdio_set_highspeed_def)
qed

lemma set_bus_wide_returns: "\<exists>ret s'. sdio_set_bus_wide H P crd s = Some (ret, s') \<and> same_heap s s'"
proof -
  obtain a1 v1 s1 where r1: "readb H SDIO_REG_CCCR_BUS_IF s = Some (a1, v1, s1)" "same_heap s s1" using readb_returns by blast
  obtain a2 s2 where r2: "writeb H SDIO_REG_CCCR_BUS_IF (v1 OR 2) s1 = Some (a2, s2)" "same_heap s1 s2" using writeb_returns by blast
  have "same_heap s s2" "same_heap s (mmcsd_set_bus_width 2 s2)"
    using r1(2) r2(2) by (simp_all add: same_heap_def mmcsd_set_bus_width_def mmcsd_set_iocfg_def)
  then show ?thesis using r1 r2 by (auto simp: sdio_set_bus_wide_def)
qed

lemma op_cond_heap: "same_heap s (snd (snd (op_cond_loop H ocr n r s)))"
proof (induction H ocr n r s rule: op_cond_loop.induct)
  case (2 H ocr i r s)
  obtain rsp s1 where s1: "send_cmd H SD_IO_SEND_OP_COND ocr 0 s = (rsp, s1)" by (metis surj_pair)
  have h: "same_heap s s1" by (rule send_cmd_heap [OF s1])
  show ?case using 2 [OF s1 [symmetric] refl] h same_heap_trans [OF h] s1 by (simp add: Let_def)
qed simp

text \<open>After the setup of the card, function 0 owns the tuples of the common chain.\<close>

lemma card_address_heap:
  "\<exists>ret s' addr. card_address H (crd, s) = (ret, crd\<lparr> rca := addr \<rparr>, s') \<and> same_heap s s'"
proof (cases "is_spi H")
  case True
  then show ?thesis by (intro exI [of _ 0] exI [of _ s] exI [of _ "rca crd"]) (simp add: card_address_def)
next
  case False
  obtain rsp s1 where s1: "send_cmd H SD_SEND_RELATIVE_ADDR 0 3 s = (rsp, s1)" by (metis surj_pair)
  define addr where "addr = (if sr_cmd_err rsp \<noteq> 0 then 0 else drop_bit 16 (sr_resp0 rsp))"
  obtain rsp2 s2 where s2: "send_cmd H SELECT_CARD (push_bit 16 addr) 3 (mmcsd_set_bus_mode 2 s1) = (rsp2, s2)" by (metis surj_pair)
  have g: "mmcsd_get_card_addr H s = (sr_cmd_err rsp, addr, s1)" by (simp add: mmcsd_get_card_addr_def s1 addr_def)
  have h: "same_heap s s1" "same_heap s s2" using send_cmd_heap [OF s1] send_cmd_heap [OF s2]
    by (simp_all add: same_heap_def mmcsd_set_bus_mode_def mmcsd_set_iocfg_def)
  then show ?thesis using False s2
    by (intro exI [of _ "if sr_cmd_err rsp \<noteq> 0 then sr_cmd_err rsp else sr_cmd_err rsp2"] exI [of _ "if sr_cmd_err rsp \<noteq> 0 then s1 else s2"] exI [of _ addr])
      (simp add: card_address_def g mmcsd_select_card_def)
qed

lemma card_setup_holds:
  assumes "holds own s" "card_functions crd = [0 \<mapsto> f]" "info_num f = 0" "tuples f = []"
  shows "\<exists>ret crd' s' f'. card_setup M H P f (crd, s) = Some (ret, crd', s') \<and> card_functions crd' = [0 \<mapsto> f'] \<and> info_num f' = 0 \<and>
    info_block f' = info_block f \<and> card_block crd' = card_block crd \<and> sdio_function_num crd' = sdio_function_num crd \<and>
    holds (own + tuple_blocks (tuples f')) s'"
proof -
  obtain e0 addr s0 where r0: "card_address H (crd, s) = (e0, crd\<lparr> rca := addr \<rparr>, s0)" "same_heap s s0" using card_address_heap by blast
  have h0: "holds own s0" using holds_same [OF r0(2) assms(1)] .
  obtain e1 r s1 where r1: "sdio_read_cccr H s0 = Some (e1, r, s1)" "same_heap s0 s1" using read_cccr_returns by blast
  have h1: "holds (own + tuple_blocks (tuples f)) s1" using holds_same [OF r1(2) h0] assms(4) by simp
  have "cis_outcome own [] f (sdio_read_cis M H (sdio_version r) [] (f, cis crd, s1))" by (rule read_cis_holds [OF h1])
  then obtain e2 f' c s2 where r2: "sdio_read_cis M H (sdio_version r) [] (f, cis crd, s1) = Some (e2, f', c, s2)" "info_num f' = 0"
      "info_block f' = info_block f" "holds (own + tuple_blocks (tuples f')) s2" using assms(3,4) by (auto simp: cis_outcome_def)
  let ?crd2 = "crd\<lparr> rca := addr, cccr := r, cis := c, card_functions := [0 \<mapsto> f'] \<rparr>"
  obtain e3 crd3 s3 where r3: "sdio_set_highspeed H P ?crd2 s2 = Some (e3, crd3, s3)" "same_heap s2 s3" "card_functions crd3 = [0 \<mapsto> f']"
      "card_block crd3 = card_block crd" "sdio_function_num crd3 = sdio_function_num crd" using set_highspeed_returns [of H P ?crd2 s2] by auto
  define s4 where "s4 = mmcsd_set_clock (if flag_highspeed crd3 then (if freq_max P > 50000000 then 50000000 else freq_max P)
    else max_tran_speed (cis crd3)) s3"
  obtain e5 s5 where r5: "sdio_set_bus_wide H P crd3 s4 = Some (e5, s5)" "same_heap s4 s5" using set_bus_wide_returns by blast
  have h3: "holds (own + tuple_blocks (tuples f')) s3" using holds_same [OF r3(2) r2(4)] .
  have "same_heap s3 s5" using r5(2) by (simp add: s4_def mmcsd_set_clock_def mmcsd_set_iocfg_def same_heap_def)
  from holds_same [OF this h3] have h5: "holds (own + tuple_blocks (tuples f')) s5" .
  have upd: "(card_functions crd)(0 \<mapsto> f') = [0 \<mapsto> f']" using assms(2) by simp
  have r: "card_setup M H P f (crd, s) =
     (if e0 \<noteq> 0 then Some (e0, crd\<lparr> rca := addr \<rparr>, s0) else if e1 \<noteq> 0 then Some (e1, crd\<lparr> rca := addr, cccr := r \<rparr>, s1)
      else if e2 \<noteq> 0 then Some (e2, ?crd2, s2) else if e3 \<noteq> 0 then Some (e3, crd3, s3) else Some (e5, crd3, s5))"
    using r0(1) r1(1) r2(1) r3(1) r5(1) by (simp add: card_setup_def Let_def s4_def upd)
  consider "e0 \<noteq> 0" | "e0 = 0" "e1 \<noteq> 0" | "e0 = 0" "e1 = 0" "e2 \<noteq> 0" | "e0 = 0" "e1 = 0" "e2 = 0" "e3 \<noteq> 0" | "e0 = 0" "e1 = 0" "e2 = 0" "e3 = 0" by blast
  moreover have one: "([0 \<mapsto> x] = [0 \<mapsto> y]) \<longleftrightarrow> x = y" for x y :: func_info by (metis fun_upd_same option.inject)
  ultimately show ?thesis
    by cases (use r h0 h1 r2(2-4) h3 h5 r3(3-5) assms(2-4) in \<open>simp_all add: one\<close>)
qed

text \<open>
  What attaching a card leaves: the blocks of the card, or none of them.
\<close>

definition attached ::
  "(nat \<times> block) multiset \<Rightarrow> sdio_card list \<Rightarrow> sdio_driver list \<Rightarrow>
     (int \<times> mmcsd_card option \<times> sdio_card list \<times> sdio_driver list \<times> 'w ident) option \<Rightarrow> bool" where
  "attached own cards drivers r \<longleftrightarrow> (\<exists>err host_card cards' probed s'. r = Some (err, host_card, cards', probed, s') \<and>
    (if err \<noteq> 0 then host_card = None \<and> cards' = cards \<and> probed = [] \<and> holds own s'
     else \<exists>crd p. host_card = Some crd \<and> cards' = card_entry crd # cards \<and> probed = filter (sdio_match_card (card_entry crd)) drivers \<and> linked crd \<and>
       (\<forall>n \<le> sdio_function_num crd. card_functions crd n \<noteq> None) \<and>
       holds (own + {#(card_block crd, CardBlock), (p, ListBlock)#} + (\<Sum>n\<leftarrow>[0..<Suc (sdio_function_num crd)]. func_blocks crd n)) s'))"

lemma attached_error: "err \<noteq> 0 \<Longrightarrow> holds own s \<Longrightarrow> attached own cards drivers (Some (err, None, cards, [], s))"
  by (simp add: attached_def)

lemma attach_card_holds:
  assumes h: "holds (add_mset (card_block crd, CardBlock) (add_mset (info_block f, FunctionBlock) own)) s"
    and f: "card_functions crd = [0 \<mapsto> f]" "info_num f = 0" "tuples f = []" and n: "sdio_function_num crd \<le> 7"
  shows "attached own cards drivers (attach_card M H P f cards drivers (crd, s))"
proof -
  obtain e1 crd1 s1 f1 where r1: "card_setup M H P f (crd, s) = Some (e1, crd1, s1)" "card_functions crd1 = [0 \<mapsto> f1]" "info_num f1 = 0"
      "info_block f1 = info_block f" "card_block crd1 = card_block crd" "sdio_function_num crd1 = sdio_function_num crd"
      "holds (add_mset (card_block crd, CardBlock) (add_mset (info_block f, FunctionBlock) own) + tuple_blocks (tuples f1)) s1"
    using card_setup_holds [OF h f] by blast
  have l1: "linked crd1" using r1(2,3) by (simp add: linked_def)
  have f0: "func0_tuples crd1 = tuples f1" using r1(2) by (simp add: func0_tuples_def)
  have h1: "holds (add_mset (card_block crd1, CardBlock) (own + func_blocks crd1 0)) s1"
    using r1(2,4,5,7) by (simp add: func_blocks_def)
  define ns where "ns = [1..<Suc (sdio_function_num crd1)]"
  have ns: "distinct ns" "\<forall>n\<in>set ns. 0 < n \<and> n \<le> 7" "[0..<Suc (sdio_function_num crd1)] = 0 # ns" "\<forall>n \<le> sdio_function_num crd1. n = 0 \<or> n \<in> set ns"
    using n r1(6) by (auto simp: ns_def upt_conv_Cons simp del: upt_Suc)
  then have ns0: "0 \<notin> set ns" by auto
  have none: "\<forall>n\<in>set ns. 0 < n \<and> n \<le> 7 \<and> card_functions crd1 n = None" using ns(2) r1(2) by simp
  let ?own = "add_mset (card_block crd, CardBlock) (add_mset (info_block f, FunctionBlock) own)"
  show ?thesis
  proof (cases "e1 = 0")
    case False
    obtain s2 where "free_card (crd1, s1) = Some s2" "holds own s2" using free_card_holds [OF h1] r1(2,3) by auto
    then show ?thesis using False r1(1) by (simp add: attach_card_def attached_error)
  next
    case True
    obtain e2 crd2 s2 where r2: "init_functions M H ns (crd1, s1) = Some (e2, crd2, s2)" "linked crd2" "card_block crd2 = card_block crd1"
        "sdio_function_num crd2 = sdio_function_num crd1" "\<forall>k. k \<notin> set ns \<longrightarrow> card_functions crd2 k = card_functions crd1 k"
        "e2 = 0 \<longrightarrow> (\<forall>n\<in>set ns. card_functions crd2 n \<noteq> None)"
        "holds (?own + (\<Sum>n\<leftarrow>ns. func_blocks crd2 n) + tuple_blocks (tuples f1)) s2"
      using init_functions_holds [OF _ ns(1) none l1, of ?own s1 M H] r1(7) unfolding f0 by blast
    have c0: "card_functions crd2 0 = Some f1" using r2(5) r1(2) ns0 by simp
    then have f02: "func0_tuples crd2 = tuples f1" by (simp add: func0_tuples_def)
    have fail: "\<exists>cs s4. free_functions ns (crd2, s3) = Some cs \<and> free_card cs = Some s4 \<and> holds own s4"
      if h3: "holds (?own + (\<Sum>n\<leftarrow>ns. func_blocks crd2 n) + tuple_blocks (tuples f1)) s3" for s3
    proof -
      obtain crd3 s4 where r3: "free_functions ns (crd2, s3) = Some (crd3, s4)" "card_block crd3 = card_block crd2"
          "card_functions crd3 0 = card_functions crd2 0" "holds (?own + tuple_blocks (tuples f1)) s4"
        using free_functions_holds [OF _ ns(1) ns0 r2(2), of ?own s3] h3 unfolding f02 by blast
      have "holds (add_mset (card_block crd3, CardBlock) (own + func_blocks crd3 0)) s4"
        using r3(2-4) c0 r2(3) r1(4,5) by (simp add: func_blocks_def)
      from free_card_holds [OF this] show ?thesis using r3(1,3) c0 r1(3) by auto
    qed
    show ?thesis
    proof (cases "e2 = 0")
      case False
      then show ?thesis using True r1(1) r2(1) [unfolded ns_def] fail [OF r2(7)] attached_error [OF False] by (auto simp: attach_card_def Let_def ns_def simp del: upt_Suc)
    next
      case e2: True
      obtain po s3 where m: "rt_malloc M ListBlock s2 = (po, s3)" by (metis surj_pair)
      note steps = True r1(1) r2(1) [unfolded ns_def] e2 m
      show ?thesis
      proof (cases po)
        case None
        then have "holds (?own + (\<Sum>n\<leftarrow>ns. func_blocks crd2 n) + tuple_blocks (tuples f1)) s3"
          using malloc_holds [OF r2(7), where M = M and b = ListBlock] m by simp
        from fail [OF this] show ?thesis using None steps attached_error [of "- RT_ENOMEM"] by (auto simp: attach_card_def Let_def sdio_register_card_def ns_def simp del: upt_Suc)
      next
        case (Some p)
        then have h3: "holds (add_mset (p, ListBlock) (?own + (\<Sum>n\<leftarrow>ns. func_blocks crd2 n) + tuple_blocks (tuples f1))) s3"
          using malloc_holds [OF r2(7), where M = M and b = ListBlock] m by simp
        have "func_blocks crd2 0 = add_mset (info_block f, FunctionBlock) (tuple_blocks (tuples f1))" using c0 r1(4) by (simp add: func_blocks_def)
        moreover have "[0..<Suc (sdio_function_num crd2)] = 0 # ns" using r2(4) ns(3) by simp
        ultimately have "add_mset (p, ListBlock) (?own + (\<Sum>n\<leftarrow>ns. func_blocks crd2 n) + tuple_blocks (tuples f1)) =
            own + {#(card_block crd2, CardBlock), (p, ListBlock)#} + (\<Sum>n\<leftarrow>[0..<Suc (sdio_function_num crd2)]. func_blocks crd2 n)"
          using r2(3) r1(5) by (simp add: add_mset_commute del: upt_Suc)
        with h3 have own: "holds (own + {#(card_block crd2, CardBlock), (p, ListBlock)#} + (\<Sum>n\<leftarrow>[0..<Suc (sdio_function_num crd2)]. func_blocks crd2 n)) s3"
          by (simp only:)
        have "\<forall>n \<le> sdio_function_num crd2. card_functions crd2 n \<noteq> None" using r2(4,6) e2 c0 ns(4)
          by (metis option.distinct(1))
        moreover have "attach_card M H P f cards drivers (crd, s) =
            Some (0, Some crd2, card_entry crd2 # cards, filter (sdio_match_card (card_entry crd2)) drivers, s3)"
          using steps Some by (simp add: attach_card_def Let_def sdio_register_card_def del: upt_Suc)
        ultimately show ?thesis using r2(2) own by (auto simp: attached_def)
      qed
    qed
  qed
qed

lemma init_card_holds:
  assumes "holds own s"
  shows "attached own cards drivers (sdio_init_card M H P ocr cards drivers s)"
proof -
  obtain e0 resp s0 where r0: "sdio_io_send_op_cond H ocr s = (e0, resp, s0)" by (metis prod_cases3)
  obtain e1 s1 where r1: "(if e0 \<noteq> 0 \<or> \<not> is_spi H then (e0, s0) else mmcsd_spi_use_crc H (spi_use_crc P) s0) = (e1, s1)" by (metis surj_pair)
  have "same_heap s s0" using op_cond_heap [of s H ocr 100 "(0, 0)"] r0 by (simp add: sdio_io_send_op_cond_def)
  moreover have "same_heap s0 s1" using r1 send_cmd_heap by (fastforce simp: mmcsd_spi_use_crc_def split: if_splits prod.splits)
  ultimately have h1: "holds own s1" using assms holds_same same_heap_trans by blast
  define n where "n = unat (drop_bit 28 (resp AND 0x70000000))"
  have n7: "n \<le> 7"
  proof -
    have "resp AND 0x70000000 \<le> 0x70000000" by (rule word_and_le1)
    then have "unat (resp AND 0x70000000) \<le> 0x70000000" by (simp add: word_le_nat_alt)
    then show ?thesis by (simp add: n_def drop_bit_eq_div unat_div)
  qed
  obtain po s2 where m2: "rt_malloc M CardBlock s1 = (po, s2)" by (metis surj_pair)
  obtain qo s3 where m3: "rt_malloc M FunctionBlock s2 = (qo, s3)" by (metis surj_pair)
  note steps = r0 r1 m2 m3 n_def [symmetric]
  show ?thesis
  proof (cases "e1 \<noteq> 0 \<or> po = None")
    case True
    then show ?thesis using steps h1 malloc_holds [OF h1, where M = M and b = CardBlock] attached_error [of e1 own s1] attached_error [of "- RT_ENOMEM" own s2]
      by (auto simp: sdio_init_card_def Let_def)
  next
    case False
    then obtain p where p: "e1 = 0" "po = Some p" by auto
    have h2: "holds (add_mset (p, CardBlock) own) s2" using p(2) m2 malloc_holds [OF h1, where M = M and b = CardBlock] by simp
    show ?thesis
    proof (cases qo)
      case None
      then have "holds (add_mset (p, CardBlock) own) s3" using m3 malloc_holds [OF h2, where M = M and b = FunctionBlock] by simp
      then obtain s4 where "free_card (card_zero p n, s3) = Some s4" "holds own s4"
        using free_card_holds [of "card_zero p n" own s3] by (auto simp: card_zero_def func_blocks_def)
      then show ?thesis using None steps p attached_error [of "- RT_ENOMEM"] by (simp add: sdio_init_card_def Let_def)
    next
      case (Some q)
      then have "holds (add_mset (p, CardBlock) (add_mset (q, FunctionBlock) own)) s3"
        using m3 malloc_holds [OF h2, where M = M and b = FunctionBlock] by (simp add: add_mset_commute)
      then show ?thesis using Some steps p attach_card_holds [of "(card_zero p n)\<lparr> card_functions := [0 \<mapsto> func_zero q 0] \<rparr>" "func_zero q 0" own s3] n7
        by (simp add: sdio_init_card_def Let_def card_zero_def func_zero_def)
    qed
  qed
qed

text \<open>
  C16: Identifying a card leaks nothing but known tuples. Whatever the card answers and whichever allocations fail, \<open>init_sdio\<close> returns and never frees a
  block twice. If it fails, the host has no card, no card was registered and no driver probed, and the heap is as before but for the blocks
  of \<open>FUNCE\<close> and \<open>VERS_1\<close> tuples, which the code loses. If it succeeds, the card is at the front of the list and was offered to the drivers that match it,
  all its functions exist, and what was allocated is the card, its functions, their tuples, the list entry, and lost tuples.
\<close>

theorem init_sdio_owns:
  assumes "distinct (map fst (live s))" "\<forall>b\<in>set (live s). fst b < fresh s"
  shows "\<exists>err host_card cards' probed s'. init_sdio M H P ocr cards drivers s = Some (err, host_card, cards', probed, s') \<and>
    (if err \<noteq> 0 then host_card = None \<and> cards' = cards \<and> probed = [] \<and> (\<exists>X. mset (live s') = mset (live s) + X \<and> (\<forall>b\<in>#X. lost b))
     else \<exists>crd p X. host_card = Some crd \<and> cards' = card_entry crd # cards \<and> probed = filter (sdio_match_card (card_entry crd)) drivers \<and>
       (\<forall>n \<le> sdio_function_num crd. card_functions crd n \<noteq> None) \<and> (\<forall>b\<in>#X. lost b) \<and>
       mset (live s') = mset (live s) + {#(card_block crd, CardBlock), (p, ListBlock)#} +
         (\<Sum>n\<leftarrow>[0..<Suc (sdio_function_num crd)]. func_blocks crd n) + X)"
proof -
  obtain v s1 where v: "mmcsd_select_voltage P (ocr AND NOT 0x7F AND NOT VDD_165_195) s = (v, s1)" by (metis surj_pair)
  then have "same_heap s s1" by (auto simp: mmcsd_select_voltage_def Let_def split: if_splits)
  moreover have "holds (mset (live s)) s" using assms by (simp add: holds_def)
  ultimately have h: "holds (mset (live s)) s1" using holds_same by blast
  have "attached (mset (live s)) cards drivers (init_sdio M H P ocr cards drivers s)"
    using init_card_holds [OF h] attached_error [OF _ h, of "- RT_ERROR"] v by (simp add: init_sdio_def Let_def)
  then show ?thesis unfolding attached_def holds_def by (elim ex_forward conjE) (auto split: if_splits simp del: upt_Suc)
qed

subsection \<open>A simulated card\<close>

text \<open>The registers of a card with one function, whose common chain is at 0x1000 and whose own chain is at 0x2000.\<close>

definition reg_image :: "u8 list \<Rightarrow> u8 list \<Rightarrow> u32 \<Rightarrow> u8" where
  "reg_image common own a =
   (if a = 0 then 0x43 else if a = 8 then 0x02 else if a = 0x0a then 0x10 else if a = 0x10a then 0x20
    else if 0x1000 \<le> a \<and> unat (a - 0x1000) < length common then common ! unat (a - 0x1000)
    else if 0x2000 \<le> a \<and> unat (a - 0x2000) < length own then own ! unat (a - 0x2000) else 0)"

definition sim_card :: "(u32 \<Rightarrow> u8) sd_host" where
  "sim_card = \<lparr> sd_ops_request = (\<lambda>rq w.
       let reg = drop_bit 9 (sq_arg rq) AND 0x1ffff; rsp = \<lparr> sr_cmd_err = 0, sr_data_err = 0, sr_resp0 = 0, sr_resp1 = 0, sr_in = [] \<rparr> in
       if sq_code rq = 52 \<and> bit (sq_arg rq) 31 then (rsp, w(reg := ucast (sq_arg rq)))
       else if sq_code rq = 52 then (rsp\<lparr> sr_resp0 := ucast (w reg) \<rparr>, w)
       else if sq_code rq = 5 then (rsp\<lparr> sr_resp0 := 0x90000000 \<rparr>, w)
       else (rsp\<lparr> sr_resp0 := 0x10000 \<rparr>, w)),
     is_spi = False, max_seg_size = 16384, max_blk_size = 512, max_blk_count = 32 \<rparr>"

definition sample_caps :: host_caps where
  "sample_caps = \<lparr> freq_max = 50000000, valid_ocr = 0x3C0000, sup_highspeed = True, sup_buswidth_4 = True, spi_use_crc = 0 \<rparr>"

definition sample_ident :: "(u32 \<Rightarrow> u8) ident" where
  "sample_ident = \<lparr> io = reg_image [0x20, 4, 0x34, 0x12, 0x78, 0x56, 0x22, 4, 0, 0, 2, 0x32, 0xff, 0] [0x91, 2, 7, 1, 0xff, 0], fresh = 0, live = [],
     cfg = \<lparr> clock = 0, vdd = 0, bus_mode = 1, chip_select = 0, power_mode = 2, bus_width = 0, timing = 0, signal_voltage = 0 \<rparr>, cfg_calls = [] \<rparr>"

lemma direct_register:
  assumes "unat a < 131072"
  shows "drop_bit 9 (cmd52_arg rw 0 a v False) AND 0x1ffff = a" "bit (cmd52_arg rw 0 a v False) 31 \<longleftrightarrow> rw" "ucast (cmd52_arg rw 0 a v False) = v"
proof -
  have a: "bit a n \<longleftrightarrow> n < 17 \<and> bit a n" for n using bit_below [of a 17 n] assms by auto
  have v: "bit v k \<Longrightarrow> k < 8" for k by (drule bit_imp_le_length) simp
  have fl: "bit (if rw then push_bit 31 1 else 0 :: u32) k \<longleftrightarrow> rw \<and> k = 31" for k by (rule bit_flag) simp
  have m: "(0x1ffff :: u32) = mask 17" by (simp add: mask_eq_exp_minus_1)
  show "drop_bit 9 (cmd52_arg rw 0 a v False) AND 0x1ffff = a"
  proof (unfold m, rule bit_word_eqI)
    fix n
    have "n < 17 \<Longrightarrow> bit (cmd52_arg rw 0 a v False) (9 + n) = bit a n"
      by (simp only: cmd52_arg_def bit_or_iff fl) (use v [of "9 + n"] in \<open>auto simp: bit_simps\<close>)
    then show "bit (drop_bit 9 (cmd52_arg rw 0 a v False) AND mask 17) n = bit a n"
      using a [of n] by (auto simp: bit_and_iff bit_drop_bit_eq bit_mask_iff)
  qed
  show "bit (cmd52_arg rw 0 a v False) 31 \<longleftrightarrow> rw" 
    by (simp only: cmd52_arg_def bit_or_iff fl) (use a [of 22] v [of 31] in \<open>auto simp: bit_simps\<close>)
  show "ucast (cmd52_arg rw 0 a v False) = v"
    by (rule bit_word_eqI) (simp only: cmd52_arg_def bit_or_iff fl bit_unsigned_iff, auto simp: bit_simps)
qed

lemma byte_no_flags: "8 \<le> k \<Longrightarrow> ucast (v :: u8) AND (2 ^ k :: u32) = 0"
proof (rule bit_word_eqI)
  fix n assume "8 \<le> k"
  moreover have "bit v n \<Longrightarrow> n < 8" by (drule bit_imp_le_length) simp
  ultimately show "bit (ucast v AND 2 ^ k :: u32) n = bit (0 :: u32) n" by (auto simp: bit_simps)
qed

lemma byte_again: "ucast (ucast (v :: u8) AND 0xFF :: u32) = v"
proof -
  have "(0xFF :: u32) = mask 8" by (simp add: mask_eq_exp_minus_1)
  then have "(ucast v AND 0xFF :: u32) = take_bit 8 (ucast v)" by (simp only: take_bit_eq_mask)
  then show ?thesis by (simp only:) (rule bit_word_eqI, auto simp: bit_simps)
qed

lemma sim_readb: "unat a < 131072 \<Longrightarrow> readb sim_card a s = Some (0, io s a, s)"
  using direct_register [of a False 0] byte_no_flags [of 8 "io s a"] byte_no_flags [of 9 "io s a"] byte_no_flags [of 11 "io s a"]
    in_register_space [of a]
  by (simp add: readb_def sdio_io_readb_def sdio_io_rw_direct_def reg_function_def mmcsd_send_request.simps sim_card_def Let_def r5_result_def byte_again)

lemma sim_writeb: "unat a < 131072 \<Longrightarrow> writeb sim_card a v s = Some (0, s\<lparr> io := (io s)(a := v) \<rparr>)"
  using direct_register [of a True v] in_register_space [of a]
  by (simp add: writeb_def sdio_io_writeb_def sdio_io_rw_direct_def reg_function_def mmcsd_send_request.simps sim_card_def Let_def r5_result_def)

theorem init_sdio_owns_witness:
  "\<exists>err host_card cards' probed s'. init_sdio (\<lambda>n. n < 4) sim_card sample_caps 0x300000 [] [] sample_ident = Some (err, host_card, cards', probed, s') \<and>
    (err \<noteq> 0 \<longrightarrow> host_card = None \<and> cards' = [] \<and> (\<exists>X. mset (live s') = X \<and> (\<forall>b\<in>#X. lost b)))"
proof -
  have "distinct (map fst (live sample_ident))" "\<forall>b\<in>set (live sample_ident). fst b < fresh sample_ident" by (simp_all add: sample_ident_def)
  from init_sdio_owns [OF this, where M = "\<lambda>n. n < 4" and H = sim_card and P = sample_caps and ocr = "0x300000" and cards = "[]" and drivers = "[]"]
  obtain err host_card cards' probed s' where
    "init_sdio (\<lambda>n. n < 4) sim_card sample_caps 0x300000 [] [] sample_ident = Some (err, host_card, cards', probed, s')"
    "err \<noteq> 0 \<longrightarrow> host_card = None \<and> cards' = [] \<and> (\<exists>X. mset (live s') = mset (live sample_ident) + X \<and> (\<forall>b\<in>#X. lost b))" by metis
  then show ?thesis by (simp add: sample_ident_def)
qed

end
