(* ===== verification/Sdio_Cis.thy ===== *)
theory Sdio_Cis
  imports Sdio_Ident
begin

text \<open>
  What the identification of a card finds out: the tuple chain of a card, written as the SDIO specification lays it out, is read back. The tuples the layer does
  not know are kept in order, and of the others the last one that is long enough counts.
\<close>

subsection \<open>Tuple chains in the registers of a card\<close>

text \<open>The card answers every read of a register with the contents \<open>R\<close>.\<close>

definition serves :: "'w sd_host \<Rightarrow> (u32 \<Rightarrow> u8) \<Rightarrow> bool" where
  "serves H R \<longleftrightarrow> (\<forall>ptr w. unat ptr < 131072 \<longrightarrow> (\<exists>w'. sdio_io_readb H reg_function ptr w = Some (0, R ptr, w')))"

text \<open>A tuple is its code, its length and its bytes; the code 0xff ends a chain.\<close>

definition tuple_bytes :: "u8 \<times> u8 list \<Rightarrow> u8 list" where
  "tuple_bytes t = fst t # of_nat (length (snd t)) # snd t"

definition stores :: "(u32 \<Rightarrow> u8) \<Rightarrow> u32 \<Rightarrow> u8 list \<Rightarrow> bool" where
  "stores R ptr bs \<longleftrightarrow> unat ptr + length bs < 131072 \<and> (\<forall>i<length bs. R (ptr + of_nat i) = bs ! i)"

definition proper :: "u8 \<times> u8 list \<Rightarrow> bool" where
  "proper t \<longleftrightarrow> fst t \<noteq> CISTPL_NULL \<and> fst t \<noteq> CISTPL_END \<and> length (snd t) < 255"

definition chain_bytes :: "(u8 \<times> u8 list) list \<Rightarrow> u8 list" where
  "chain_bytes ts = concat (map tuple_bytes ts) @ [CISTPL_END]"

text \<open>What is to be found in a chain.\<close>

definition unknown_tuples :: "(u8 \<times> u8 list) list \<Rightarrow> (u8 \<times> u8 list) list" where
  "unknown_tuples ts = filter (\<lambda>t. fst t \<notin> {CISTPL_MANFID, CISTPL_FUNCE, CISTPL_VERS_1}) ts"

definition manufacturer_ids :: "(u8 \<times> u8 list) list \<Rightarrow> (u16 \<times> u16) list" where
  "manufacturer_ids ts = map (\<lambda>t. (word16 (snd t ! 0) (snd t ! 1), word16 (snd t ! 2) (snd t ! 3)))
     (filter (\<lambda>t. fst t = CISTPL_MANFID \<and> 4 \<le> length (snd t)) ts)"

definition block_sizes :: "u8 \<Rightarrow> (u8 \<times> u8 list) list \<Rightarrow> u32 list" where
  "block_sizes version ts = map (\<lambda>t. ucast (word16 (snd t ! 12) (snd t ! 13)))
     (filter (\<lambda>t. fst t = CISTPL_FUNCE \<and> (if version = 0 then 28 else 42) \<le> length (snd t) \<and> snd t ! 0 = 1) ts)"

definition kept_tuples :: "function_tuple list \<Rightarrow> (u8 \<times> u8 list) list" where
  "kept_tuples = map (\<lambda>t. (tpl_code t, tpl_data t))"

text \<open>A function before and after a chain of tuples.\<close>

definition chain_read :: "u8 \<Rightarrow> (u8 \<times> u8 list) list \<Rightarrow> func_info \<Rightarrow> sdio_cis \<Rightarrow> func_info \<Rightarrow> sdio_cis \<Rightarrow> bool" where
  "chain_read version ts f c f' c' \<longleftrightarrow> info_num f' = info_num f \<and> kept_tuples (tuples f') = kept_tuples (tuples f) @ unknown_tuples ts \<and>
     (if info_num f = 0 then (manufacturer c', product_id c') = last ((manufacturer c, product_id c) # manufacturer_ids ts)
      else c' = c \<and> (func_manufacturer f', func_product f') = last ((func_manufacturer f, func_product f) # manufacturer_ids ts) \<and>
        func_max_blk_size f' = last (func_max_blk_size f # block_sizes version ts))"

lemma last_last: "last (last (x # xs) # ys) = last (x # xs @ ys)"
  by (induction xs arbitrary: x) simp_all

lemma chain_read_append:
  assumes "chain_read version ts f c f1 c1" "chain_read version us f1 c1 f2 c2"
  shows "chain_read version (ts @ us) f c f2 c2"
  using assms by (auto simp: chain_read_def unknown_tuples_def manufacturer_ids_def block_sizes_def last_last simp del: last.simps)

lemma chain_read_Nil [simp]: "chain_read version [] f c f c"
  by (simp add: chain_read_def unknown_tuples_def manufacturer_ids_def block_sizes_def)

subsection \<open>Reading a chain\<close>

lemma serves_readb:
  assumes "serves H R" "unat ptr < 131072"
  shows "\<exists>s'. readb H ptr s = Some (0, R ptr, s') \<and> same_heap s s'"
proof -
  obtain w' where "sdio_io_readb H reg_function ptr (io s) = Some (0, R ptr, w')" using assms unfolding serves_def by blast
  then show ?thesis by (simp add: readb_def same_heap_def)
qed

lemma stores_at:
  assumes "stores R ptr bs" "i < length bs"
  shows "R (ptr + of_nat i) = bs ! i" "unat (ptr + of_nat i) = unat ptr + i" "unat (ptr + of_nat i) < 131072"
proof -
  show "R (ptr + of_nat i) = bs ! i" using assms by (simp add: stores_def)
  have i: "unat (of_nat i :: u32) = i" using assms by (intro unat_of_nat32) (simp add: stores_def)
  show e: "unat (ptr + of_nat i) = unat ptr + i" using assms i by (subst unat_plus_no_wrap) (simp_all add: stores_def)
  show "unat (ptr + of_nat i) < 131072" using assms unfolding e by (simp add: stores_def)
qed

lemma stores_drop: "stores R ptr (xs @ ys) \<Longrightarrow> stores R (ptr + of_nat (length xs)) ys"
proof -
  assume s: "stores R ptr (xs @ ys)"
  have n: "unat (of_nat (length xs) :: u32) = length xs" using s by (intro unat_of_nat32) (simp add: stores_def)
  have "unat (ptr + of_nat (length xs)) = unat ptr + length xs" using s n by (subst unat_plus_no_wrap) (simp_all add: stores_def)
  moreover have "R (ptr + of_nat (length xs) + of_nat i) = ys ! i" if "i < length ys" for i
    using stores_at(1) [OF s, of "length xs + i"] that by (simp add: nth_append add.assoc)
  ultimately show ?thesis using s by (simp add: stores_def)
qed

lemma serves_data:
  assumes "serves H R"
  shows "stores R ptr (vs @ ws) \<Longrightarrow> \<exists>s'. read_data H ptr (length vs) s = Some (0, vs, s') \<and> same_heap s s'"
proof (induction vs arbitrary: ptr s)
  case (Cons v vs)
  have "R ptr = v" "unat ptr < 131072" using stores_at(1,3) [OF Cons.prems, of 0] by simp_all
  then obtain s1 where s1: "readb H ptr s = Some (0, v, s1)" "same_heap s s1" using serves_readb [OF assms] by blast
  have "stores R (ptr + 1) (vs @ ws)" using stores_drop [of R ptr "[v]" "vs @ ws"] Cons.prems by simp
  then obtain s2 where "read_data H (ptr + 1) (length vs) s1 = Some (0, vs, s2)" "same_heap s1 s2" using Cons.IH by blast
  then show ?case using s1 same_heap_trans by auto
qed simp

text \<open>One tuple.\<close>

lemma tuple_reads:
  assumes "(p, b) \<in> set (live s)"
  shows "\<exists>f' c' s'. cis_tuple version code p vs (f, c, s) = Some (f', c', s') \<and> chain_read version [(code, vs)] f c f' c'"
proof -
  have fr: "rt_free p s = Some (s\<lparr> live := filter (\<lambda>b. fst b \<noteq> p) (live s) \<rparr>)" using assms by (force simp: rt_free_def)
  show ?thesis
    by (auto simp: cis_tuple_def fr chain_read_def unknown_tuples_def manufacturer_ids_def block_sizes_def kept_tuples_def
        cistpl_funce_func_def cistpl_funce_func0_def not_less split: option.split)
qed

lemma chain_step:
  assumes "serves H R" "stores R ptr (tuple_bytes (code, vs) @ rest)" "proper (code, vs)"
  shows "\<exists>f1 c1 s1. cis_loop (\<lambda>_. True) H version f0 ptr (f, c, s) =
      cis_loop (\<lambda>_. True) H version f0 (ptr + of_nat (length (tuple_bytes (code, vs)))) (f1, c1, s1) \<and> chain_read version [(code, vs)] f c f1 c1"
proof -
  let ?link = "of_nat (length vs) :: u8"
  have l: "unat ?link = length vs" "?link \<noteq> 0xff"
  proof -
    show u: "unat ?link = length vs" using assms(3) by (simp add: proper_def unsigned_of_nat take_bit_nat_eq_self)
    then show "?link \<noteq> 0xff" using assms(3) by (auto simp: proper_def)
  qed
  let ?bs = "code # ?link # vs"
  have st: "stores R ptr ((code # [?link]) @ vs @ rest)" using assms(2) by (simp add: tuple_bytes_def)
  have r: "R ptr = code" "R (ptr + 1) = ?link" "unat ptr < 131072" "unat (ptr + 1) < 131072"
    using stores_at(1,3) [OF st, of 0] stores_at(1,3) [OF st, of 1] by simp_all
  have st2: "stores R (ptr + 2) (vs @ rest)" using stores_drop [OF st] by simp
  obtain s1 where s1: "readb H ptr s = Some (0, code, s1)" using serves_readb [OF assms(1) r(3)] r(1) by auto
  obtain s2 where s2: "readb H (ptr + 1) s1 = Some (0, ?link, s2)" using serves_readb [OF assms(1) r(4)] r(2) by auto
  let ?s3 = "s2\<lparr> fresh := fresh s2 + 1, live := (fresh s2, TupleBlock code) # live s2 \<rparr>"
  obtain s4 where s4: "read_data H (ptr + 2) (length vs) ?s3 = Some (0, vs, s4)" "same_heap ?s3 s4" using serves_data [OF assms(1) st2] by blast
  have "(fresh s2, TupleBlock code) \<in> set (live s4)" using s4(2) by (simp add: same_heap_def)
  from tuple_reads [OF this] obtain f1 c1 s5 where t: "cis_tuple version code (fresh s2) vs (f, c, s4) = Some (f1, c1, s5)"
    "chain_read version [(code, vs)] f c f1 c1" by blast
  have "ucast ?link = (of_nat (length vs) :: u32)" using l(1) by (metis of_nat_unat)
  then have e: "ptr + 2 + ucast ?link = ptr + of_nat (length (tuple_bytes (code, vs)))" by (simp add: tuple_bytes_def)
  have "cis_loop (\<lambda>_. True) H version f0 ptr (f, c, s) = cis_loop (\<lambda>_. True) H version f0 (ptr + 2 + ucast ?link) (f1, c1, s5)"
    using s1 s2 s4(1) t(1) l assms(3) by (subst cis_loop.simps) (simp add: rt_malloc_def proper_def)
  then show ?thesis using t(2) unfolding e by blast
qed

lemma chain_reads:
  assumes H: "serves H R"
  shows "stores R ptr (chain_bytes ts) \<Longrightarrow> \<forall>t\<in>set ts. proper t \<Longrightarrow> \<exists>f1 c1 s1. chain_read version ts f c f1 c1 \<and>
    cis_loop (\<lambda>_. True) H version f0 ptr (f, c, s) = Some (0, link_tuples f0 f1, c1, s1)"
proof (induction ts arbitrary: ptr f c s)
  case Nil
  have r: "R ptr = CISTPL_END" "unat ptr < 131072" "unat (ptr + 1) < 131072"
  proof -
    have s: "stores R ptr [CISTPL_END]" using Nil(1) by (simp add: chain_bytes_def)
    show "R ptr = CISTPL_END" "unat ptr < 131072" using stores_at(1,3) [OF s, of 0] by simp_all
    have "unat ptr + 1 < 131072" using s by (simp add: stores_def)
    then show "unat (ptr + 1) < 131072" by (subst unat_plus_no_wrap) simp_all
  qed
  obtain s1 where s1: "readb H ptr s = Some (0, CISTPL_END, s1)" using serves_readb [OF H r(2)] r(1) by auto
  obtain v s2 where s2: "readb H (ptr + 1) s1 = Some (0, v, s2)" using serves_readb [OF H r(3)] by blast
  have "cis_loop (\<lambda>_. True) H version f0 ptr (f, c, s) = Some (0, link_tuples f0 f, c, s2)"
    using s1 s2 by (subst cis_loop.simps) simp
  then show ?case using chain_read_Nil by blast
next
  case (Cons t ts)
  obtain code vs where t: "t = (code, vs)" by (cases t)
  have st: "stores R ptr (tuple_bytes (code, vs) @ chain_bytes ts)" using Cons.prems(1) t by (simp add: chain_bytes_def)
  obtain f1 c1 s1 where r1: "cis_loop (\<lambda>_. True) H version f0 ptr (f, c, s) =
      cis_loop (\<lambda>_. True) H version f0 (ptr + of_nat (length (tuple_bytes (code, vs)))) (f1, c1, s1)" "chain_read version [(code, vs)] f c f1 c1"
  proof -
    have "proper (code, vs)" using Cons.prems(2) t by simp
    from chain_step [OF H st this, of version f0 f c s] show thesis using that by blast
  qed
  obtain f2 c2 s2 where "chain_read version ts f1 c1 f2 c2"
      "cis_loop (\<lambda>_. True) H version f0 (ptr + of_nat (length (tuple_bytes (code, vs)))) (f1, c1, s1) = Some (0, link_tuples f0 f2, c2, s2)"
  proof -
    have "\<forall>t\<in>set ts. proper t" using Cons.prems(2) by simp
    from Cons.IH [OF stores_drop [OF st] this, of f1 c1 s1] show thesis using that by blast
  qed
  then show ?case using r1 chain_read_append [OF r1(2)] t by fastforce
qed

text \<open>The pointer to a chain is in three registers.\<close>

lemma serves_pointer:
  assumes "serves H R" "unat base + 3 < 131072"
  shows "\<exists>s'. read_pointer H base [0..<3] 0 s =
    Some (0, ucast (R base) OR push_bit 8 (ucast (R (base + 1))) OR push_bit 16 (ucast (R (base + 2))), s')"
proof -
  have b: "unat base < 131072" "unat (base + 1) < 131072" "unat (base + 2) < 131072" using assms(2) by (simp_all add: unat_plus_no_wrap)
  obtain s1 where s1: "readb H base s = Some (0, R base, s1)" using serves_readb [OF assms(1) b(1)] by blast
  obtain s2 where s2: "readb H (base + 1) s1 = Some (0, R (base + 1), s2)" using serves_readb [OF assms(1) b(2)] by blast
  obtain s3 where s3: "readb H (base + 2) s2 = Some (0, R (base + 2), s3)" using serves_readb [OF assms(1) b(3)] by blast
  show ?thesis using s1 s2 s3 by (simp add: upt_rec or.assoc)
qed

text \<open>
  C17: A tuple chain is read back as it was written. If a card answers its reads, memory lasts, and the chain of a function is written as the
  specification lays it out, without empty tuples, \<open>sdio_read_cis\<close> succeeds. The tuples it does not know are kept with their bytes and in their order, for a function other
  than 0, followed by those of function 0, and manufacturer, product and block size are those of the last tuple that holds them, or as before.
\<close>

theorem cis_read_back:
  assumes H: "serves H R" and f: "tuples f = []" and ptr: "unat (info_num f) \<le> 7"
      "ptr = (let b = info_num f * 0x100 + SDIO_REG_FBR_CIS in ucast (R b) OR push_bit 8 (ucast (R (b + 1))) OR push_bit 16 (ucast (R (b + 2))))"
    and chain: "stores R ptr (chain_bytes ts)" "\<forall>t\<in>set ts. proper t"
  shows "\<exists>f' c' s'. sdio_read_cis (\<lambda>_. True) H version f0 (f, c, s) = Some (0, f', c', s') \<and>
    kept_tuples (tuples f') = unknown_tuples ts @ (if info_num f = 0 then [] else kept_tuples f0) \<and>
    (if info_num f = 0 then (manufacturer c', product_id c') = last ((manufacturer c, product_id c) # manufacturer_ids ts)
     else c' = c \<and> (func_manufacturer f', func_product f') = last ((func_manufacturer f, func_product f) # manufacturer_ids ts) \<and>
       func_max_blk_size f' = last (func_max_blk_size f # block_sizes version ts))"
proof -
  let ?b = "info_num f * 0x100 + SDIO_REG_FBR_CIS"
  have "unat (info_num f * 0x100) = unat (info_num f) * 0x100" using ptr(1) by (simp add: unat_word_ariths)
  then have "unat ?b + 3 < 131072" using ptr(1) by (subst unat_plus_no_wrap) simp_all
  then obtain s1 where s1: "read_pointer H ?b [0..<3] 0 s = Some (0, ptr, s1)" using serves_pointer [OF H] ptr(2) unfolding Let_def by blast
  obtain f1 c1 s2 where r: "chain_read version ts f c f1 c1" "cis_loop (\<lambda>_. True) H version f0 ptr (f, c, s1) = Some (0, link_tuples f0 f1, c1, s2)"
    using chain_reads [OF H chain] by blast
  have "sdio_read_cis (\<lambda>_. True) H version f0 (f, c, s) = Some (0, link_tuples f0 f1, c1, s2)" using s1 r(2) by (simp add: sdio_read_cis_def)
  then show ?thesis using r(1) f by (auto simp: chain_read_def link_tuples_def kept_tuples_def)
qed

subsection \<open>A card with fixed registers\<close>

definition rom_card :: "(u32 \<Rightarrow> u8) \<Rightarrow> unit sd_host" where
  "rom_card R = \<lparr> sd_ops_request = (\<lambda>rq w. (fst (sd_ops_request sim_card rq R), w)),
     is_spi = False, max_seg_size = 16384, max_blk_size = 512, max_blk_count = 32 \<rparr>"

lemma rom_card_serves: "serves (rom_card R) R"
proof -
  have "sdio_io_readb (rom_card R) reg_function a w = Some (0, R a, w)" if "unat a < 131072" for a w
    using that direct_register [of a False 0] byte_no_flags [of 8 "R a"] byte_no_flags [of 9 "R a"] byte_no_flags [of 11 "R a"]
      in_register_space [of a]
    by (simp add: sdio_io_readb_def sdio_io_rw_direct_def reg_function_def mmcsd_send_request.simps rom_card_def sim_card_def Let_def r5_result_def byte_again)
  then show ?thesis unfolding serves_def by blast
qed

lemma stores_image:
  assumes n: "length common \<le> 0x1000" "length own \<le> 0x1000"
  shows "stores (reg_image common own) 0x2000 own"
proof -
  have "reg_image common own (0x2000 + of_nat i) = own ! i" if i: "i < length own" for i
  proof -
    have u: "unat (of_nat i :: u32) = i" using i n by (intro unat_of_nat32) simp
    have a: "unat (0x2000 + of_nat i :: u32) = 0x2000 + i" "unat (0x1000 + of_nat i :: u32) = 0x1000 + i"
      using u i n by (simp_all add: unat_plus_no_wrap)
    have d: "0x2000 + of_nat i - 0x1000 = (0x1000 + of_nat i :: u32)" by simp
    have k: "(0x2000 :: u32) \<le> 0x2000 + of_nat i" "k < 0x2000 \<Longrightarrow> 0x2000 + of_nat i \<noteq> (of_nat k :: u32)" for k
      using a(1) by (auto simp: word_le_nat_alt unat_of_nat32)
    show ?thesis using d k(1) k(2) [of 0] k(2) [of 8] k(2) [of "0x0a"] k(2) [of "0x10a"] a u i n by (simp add: reg_image_def)
  qed
  then show ?thesis using n by (simp add: stores_def)
qed

definition sample_chain :: "(u8 \<times> u8 list) list" where
  "sample_chain = [(0x20, [0x34, 0x12, 0x78, 0x56]), (0x91, [7, 1]), (0x22, 1 # replicate 11 0 @ [0, 2] @ replicate 28 0)]"

definition sample_function :: func_info where
  "sample_function = \<lparr> info_block = 0, info_num = 1, func_code = 0, func_manufacturer = 0, func_product = 0, func_max_blk_size = 0,
     func_enable_timeout = 0, tuples = [] \<rparr>"

definition sample_start :: "func_info \<times> sdio_cis \<times> unit ident" where
  "sample_start = (sample_function, \<lparr> manufacturer = 0, product_id = 0, func0_blk_size = 0, max_tran_speed = 0 \<rparr>,
     \<lparr> io = (), fresh = 0, live = [], cfg = cfg sample_ident, cfg_calls = [] \<rparr>)"

theorem cis_read_back_witness:
  "\<exists>f' c' s'. sdio_read_cis (\<lambda>_. True) (rom_card (reg_image [] (chain_bytes sample_chain))) 2 [] sample_start = Some (0, f', c', s') \<and>
     kept_tuples (tuples f') = [(0x91, [7, 1])] \<and> func_manufacturer f' = 0x1234 \<and> func_product f' = 0x5678 \<and> func_max_blk_size f' = 512"
proof -
  let ?R = "reg_image [] (chain_bytes sample_chain)"
  obtain c s where start: "sample_start = (sample_function, c, s)" by (simp add: sample_start_def)
  have n: "info_num sample_function = 1" "func_manufacturer sample_function = 0" "func_product sample_function = 0" "func_max_blk_size sample_function = 0"
    "tuples sample_function = []" by (simp_all add: sample_function_def)
  have "length (chain_bytes sample_chain) \<le> 0x1000" by (simp add: chain_bytes_def sample_chain_def tuple_bytes_def)
  then have st: "stores ?R 0x2000 (chain_bytes sample_chain)" using stores_image [of "[]"] by simp
  have ptr: "(0x2000 :: u32) = (let b = info_num sample_function * 0x100 + SDIO_REG_FBR_CIS in
      ucast (?R b) OR push_bit 8 (ucast (?R (b + 1))) OR push_bit 16 (ucast (?R (b + 2))))"
    by (simp add: n reg_image_def Let_def push_bit_eq_mult)
  have p: "\<forall>t\<in>set sample_chain. proper t" by (simp add: sample_chain_def proper_def)
  have k: "unknown_tuples sample_chain = [(0x91, [7, 1])]" "manufacturer_ids sample_chain = [(0x1234, 0x5678)]" "block_sizes 2 sample_chain = [512]"
    by (simp_all add: sample_chain_def unknown_tuples_def manufacturer_ids_def block_sizes_def word16_def nth_append)
  have "unat (info_num sample_function) \<le> 7" by (simp add: n)
  from cis_read_back [OF rom_card_serves n(5) this ptr st p, of 2 "[]" c s] show ?thesis unfolding start
    by (elim ex_forward) (simp add: n k kept_tuples_def)
qed

subsection \<open>Empty tuples\<close>

text \<open>
  A tuple \<open>CISTPL_NULL\<close> is a single byte, with no length and no data. The loop has read the byte behind it as its length when it finds this out, and goes on behind
  that byte, so the tuple that follows is not seen as one.
\<close>

lemma null_tuple_takes_two:
  assumes "serves H R" "stores R ptr [CISTPL_NULL, next]" "next \<noteq> 0xff"
  shows "\<exists>s'. cis_loop M H version f0 ptr (f, c, s) = cis_loop M H version f0 (ptr + 2) (f, c, s')"
proof -
  have r: "R ptr = CISTPL_NULL" "R (ptr + 1) = next" "unat ptr < 131072" "unat (ptr + 1) < 131072"
    using stores_at(1,3) [OF assms(2), of 0] stores_at(1,3) [OF assms(2), of 1] by simp_all
  obtain s1 where s1: "readb H ptr s = Some (0, CISTPL_NULL, s1)" using serves_readb [OF assms(1) r(3)] r(1) by auto
  obtain s2 where s2: "readb H (ptr + 1) s1 = Some (0, next, s2)" using serves_readb [OF assms(1) r(4)] r(2) by auto
  have "cis_loop M H version f0 ptr (f, c, s) = cis_loop M H version f0 (ptr + 2) (f, c, s2)"
    using s1 s2 assms(3) by (subst cis_loop.simps) simp
  then show ?thesis by blast
qed

end
