(* ===== verification/Wlh_Request.thy ===== *)
theory Wlh_Request
  imports Host_State
begin

text \<open>
  Requests to the Host Core, packages/wlh_rtt_host/src/wlh_rtt_request.c, and the event report of
  wlan/wlh_rtt_wlan.c they use. An interface has at most one active request; a completion slot
  remembers which request a pending Core call belongs to, by kind and generation.
\<close>

text \<open>\<open>data\<close> is the information record passed with the event, if any.\<close>

definition wlh_rtt_report_event ::
  "nat \<Rightarrow> rt_wlan_dev_event \<Rightarrow> rt_wlan_info option \<Rightarrow> ('c, 't) wlh_rtt_host_impl \<Rightarrow> ('c, 't) wlh_rtt_host_impl" where
  "wlh_rtt_report_event i event data host = host\<lparr> indications := indications host @ [(i, event, data)] \<rparr>"

definition set_slot ::
  "nat \<Rightarrow> wlh_rtt_request_completion \<Rightarrow> wlh_rtt_interface \<Rightarrow> wlh_rtt_interface" where
  "set_slot index slot ifc = ifc\<lparr> completions := (completions ifc)[index := slot] \<rparr>"

definition clear_request :: "wlh_rtt_interface \<Rightarrow> wlh_rtt_interface" where
  "clear_request ifc = ifc\<lparr> request := wlh_rtt_request_zero \<rparr>"

text \<open>The generation, the slot stored in \<open>*completion\<close>, and the host; \<open>completion\<close> says whether the pointer is non-null.\<close>

definition wlh_rtt_request_begin ::
  "('c, 't) wlh_rtt_host_impl \<Rightarrow> nat \<Rightarrow> wlh_rtt_request_kind \<Rightarrow> bool \<Rightarrow>
   u32 \<times> slot option \<times> ('c, 't) wlh_rtt_host_impl" where
  "wlh_rtt_request_begin host i kind completion =
   (let ifc = interfaces host ! i in
    if \<not> completion then (0, None, host)
    else if req_active (request ifc) then (0, None, host)
    else case find_index (\<lambda>slot. \<not> in_use slot) (completions ifc) of
      None \<Rightarrow> (0, None, host)
    | Some index \<Rightarrow>
        let generation = wlh_rtt_next_generation (next_generation host);
            host = host\<lparr> next_generation := generation \<rparr>;
            host = update_interface i (\<lambda>ifc. set_slot index
              \<lparr> slot_interface = Some i, slot_kind = kind, slot_generation = generation, in_use = True \<rparr>
              (ifc\<lparr> request := \<lparr> req_kind = kind, req_generation = generation, req_active = True \<rparr> \<rparr>)) host
        in (generation, Some (i, index), host))"

text \<open>The active request of interface \<open>j\<close> is the one the slot was taken for.\<close>

definition slot_matches :: "wlh_rtt_interface \<Rightarrow> wlh_rtt_request_completion \<Rightarrow> bool" where
  "slot_matches ifc slot \<longleftrightarrow> req_active (request ifc) \<and> req_kind (request ifc) = slot_kind slot \<and>
     req_generation (request ifc) = slot_generation slot"

definition release_slot :: "slot \<Rightarrow> ('c, 't) wlh_rtt_host_impl \<Rightarrow> ('c, 't) wlh_rtt_host_impl" where
  "release_slot c host = update_interface (fst c)
     (\<lambda>ifc. set_slot (snd c) ((completions ifc ! snd c)\<lparr> in_use := False \<rparr>) ifc) host"

definition wlh_rtt_request_abort ::
  "slot option \<Rightarrow> ('c, 't) wlh_rtt_host_impl \<Rightarrow> ('c, 't) wlh_rtt_host_impl" where
  "wlh_rtt_request_abort completion host =
   (case completion of
      None \<Rightarrow> host
    | Some c \<Rightarrow>
        let slot = completions (interfaces host ! fst c) ! snd c in
        if \<not> in_use slot then host
        else case slot_interface slot of
          None \<Rightarrow> host
        | Some i \<Rightarrow>
            let host = (if slot_matches (interfaces host ! i) slot
                        then update_interface i clear_request host else host)
            in release_slot c host)"

definition wlh_rtt_request_finish ::
  "nat \<Rightarrow> wlh_rtt_request_kind \<Rightarrow> ('c, 't) wlh_rtt_host_impl \<Rightarrow> ('c, 't) wlh_rtt_host_impl" where
  "wlh_rtt_request_finish i kind host =
   (if req_active (request (interfaces host ! i)) \<and> req_kind (request (interfaces host ! i)) = kind
    then update_interface i clear_request host else host)"

text \<open>The event that tells the WLAN layer that a request of this kind failed.\<close>

definition failure_event :: "wlh_rtt_request_kind \<Rightarrow> rt_wlan_dev_event option" where
  "failure_event kind =
   (if kind = WLH_RTT_REQUEST_SCAN then Some RT_WLAN_DEV_EVT_SCAN_DONE
    else if kind = WLH_RTT_REQUEST_CONNECT then Some RT_WLAN_DEV_EVT_CONNECT_FAIL
    else if kind = WLH_RTT_REQUEST_DISCONNECT then Some RT_WLAN_DEV_EVT_DISCONNECT
    else if kind = WLH_RTT_REQUEST_AP_START then Some RT_WLAN_DEV_EVT_AP_STOP
    else if kind = WLH_RTT_REQUEST_AP_STOP then Some RT_WLAN_DEV_EVT_AP_STOP
    else None)"

definition wlh_rtt_request_complete ::
  "'c core_api \<Rightarrow> slot option \<Rightarrow> int \<Rightarrow> ('c, 't) wlh_rtt_host_impl \<Rightarrow> ('c, 't) wlh_rtt_host_impl" where
  "wlh_rtt_request_complete K completion result host =
   (case completion of
      None \<Rightarrow> host
    | Some c \<Rightarrow>
        let slot = completions (interfaces host ! fst c) ! snd c in
        if \<not> in_use slot then host
        else case slot_interface slot of
          None \<Rightarrow> host
        | Some i \<Rightarrow>
            let matched = slot_matches (interfaces host ! i) slot;
                host = (if result \<noteq> WLH_HOST_OK K \<and> matched
                        then update_interface i clear_request host else host);
                host = release_slot c host
            in if result = WLH_HOST_OK K \<or> \<not> matched then host
               else case failure_event (slot_kind slot) of
                      None \<Rightarrow> host
                    | Some ev \<Rightarrow> wlh_rtt_report_event i ev None host)"

lemmas request_ops [op_defs] = wlh_rtt_request_abort_def wlh_rtt_request_finish_def
  wlh_rtt_request_complete_def release_slot_def set_slot_def clear_request_def wlh_rtt_report_event_def

subsection \<open>Invariant\<close>

text \<open>
  After \<open>n\<close> requests have begun: two interfaces with four slots each; a slot in use belongs to its
  interface and has a real kind and one of the generations \<open>1 \<dots> n\<close>; no two slots in use share a
  generation; an active request has such a generation too, and any slot in use with its
  generation has its kind and is on its interface.
\<close>

definition gen_ok :: "nat \<Rightarrow> u32 \<Rightarrow> bool" where
  "gen_ok n g \<longleftrightarrow> 0 < unat g \<and> unat g \<le> n"

definition slot_at :: "('c, 't) wlh_rtt_host_impl \<Rightarrow> slot \<Rightarrow> wlh_rtt_request_completion" where
  "slot_at h c = completions (interfaces h ! fst c) ! snd c"

definition valid_slot :: "slot \<Rightarrow> bool" where
  "valid_slot c \<longleftrightarrow> fst c < WLH_RTT_INTERFACE_COUNT \<and> snd c < WLH_RTT_REQUEST_COMPLETION_SLOTS"

definition request_at :: "('c, 't) wlh_rtt_host_impl \<Rightarrow> nat \<Rightarrow> wlh_rtt_request" where
  "request_at h i = request (interfaces h ! i)"

definition request_shape :: "('c, 't) wlh_rtt_host_impl \<Rightarrow> bool" where
  "request_shape h \<longleftrightarrow> length (interfaces h) = WLH_RTT_INTERFACE_COUNT \<and>
     (\<forall>i<WLH_RTT_INTERFACE_COUNT. length (completions (interfaces h ! i)) = WLH_RTT_REQUEST_COMPLETION_SLOTS)"

definition request_inv :: "nat \<Rightarrow> ('c, 't) wlh_rtt_host_impl \<Rightarrow> bool" where
  "request_inv n h \<longleftrightarrow> request_shape h \<and> n < 2 ^ 32 - 1 \<and> next_generation h = of_nat n \<and>
     (\<forall>c. valid_slot c \<and> in_use (slot_at h c) \<longrightarrow>
        slot_interface (slot_at h c) = Some (fst c) \<and> gen_ok n (slot_generation (slot_at h c)) \<and>
        slot_kind (slot_at h c) \<noteq> WLH_RTT_REQUEST_NONE) \<and>
     (\<forall>c d. valid_slot c \<and> valid_slot d \<and> in_use (slot_at h c) \<and> in_use (slot_at h d) \<and>
        slot_generation (slot_at h c) = slot_generation (slot_at h d) \<longrightarrow> c = d) \<and>
     (\<forall>i<WLH_RTT_INTERFACE_COUNT. req_active (request_at h i) \<longrightarrow>
        gen_ok n (req_generation (request_at h i)) \<and>
        (\<forall>c. valid_slot c \<and> in_use (slot_at h c) \<and>
             slot_generation (slot_at h c) = req_generation (request_at h i) \<longrightarrow>
             fst c = i \<and> slot_kind (slot_at h c) = req_kind (request_at h i)))"

lemma slot_at_update [simp]:
  "i < length (interfaces h) \<Longrightarrow> slot_at (update_interface i f h) c =
   (if fst c = i then completions (f (interfaces h ! i)) ! snd c else slot_at h c)"
  by (auto simp: slot_at_def)

lemma request_at_update [simp]:
  "i < length (interfaces h) \<Longrightarrow> request_at (update_interface i f h) j =
   (if i = j then request (f (interfaces h ! i)) else request_at h j)"
  by (simp add: request_at_def)

lemma request_shape_update:
  "request_shape h \<Longrightarrow> i < WLH_RTT_INTERFACE_COUNT \<Longrightarrow>
   length (completions (f (interfaces h ! i))) = length (completions (interfaces h ! i)) \<Longrightarrow>
   request_shape (update_interface i f h)"
  by (auto simp: request_shape_def)

lemma request_invD:
  assumes "request_inv n h"
  shows "request_shape h" and "n < 2 ^ 32 - 1" and "next_generation h = of_nat n"
    and "\<And>c. valid_slot c \<Longrightarrow> in_use (slot_at h c) \<Longrightarrow> slot_interface (slot_at h c) = Some (fst c) \<and>
        gen_ok n (slot_generation (slot_at h c)) \<and> slot_kind (slot_at h c) \<noteq> WLH_RTT_REQUEST_NONE"
    and "\<And>c d. valid_slot c \<Longrightarrow> valid_slot d \<Longrightarrow> in_use (slot_at h c) \<Longrightarrow> in_use (slot_at h d) \<Longrightarrow>
        slot_generation (slot_at h c) = slot_generation (slot_at h d) \<Longrightarrow> c = d"
    and "\<And>i. i < WLH_RTT_INTERFACE_COUNT \<Longrightarrow> req_active (request_at h i) \<Longrightarrow> gen_ok n (req_generation (request_at h i))"
    and "\<And>i c. i < WLH_RTT_INTERFACE_COUNT \<Longrightarrow> req_active (request_at h i) \<Longrightarrow> valid_slot c \<Longrightarrow>
        in_use (slot_at h c) \<Longrightarrow> slot_generation (slot_at h c) = req_generation (request_at h i) \<Longrightarrow>
        fst c = i \<and> slot_kind (slot_at h c) = req_kind (request_at h i)"
  using assms unfolding request_inv_def by (blast, blast, blast, blast, blast, blast, blast)

text \<open>Operations that only retire requests and slots keep the invariant.\<close>

lemma request_inv_shrink:
  assumes "request_inv n h" "request_shape h'" "next_generation h' = next_generation h"
    and "\<And>c. valid_slot c \<Longrightarrow> in_use (slot_at h' c) \<Longrightarrow> slot_at h' c = slot_at h c"
    and "\<And>i. i < WLH_RTT_INTERFACE_COUNT \<Longrightarrow> req_active (request_at h' i) \<Longrightarrow> request_at h' i = request_at h i"
  shows "request_inv n h'"
  unfolding request_inv_def
proof (intro conjI allI impI)
  note I = request_invD [OF assms(1)]
  show "request_shape h'" by (rule assms(2))
  show "n < 2 ^ 32 - 1" by (rule I(2))
  show "next_generation h' = of_nat n" using I(3) assms(3) by simp
  fix c assume c: "valid_slot c \<and> in_use (slot_at h' c)"
  then have e: "slot_at h' c = slot_at h c" using assms(4) by blast
  show "slot_interface (slot_at h' c) = Some (fst c)" "gen_ok n (slot_generation (slot_at h' c))"
    "slot_kind (slot_at h' c) \<noteq> WLH_RTT_REQUEST_NONE"
    using I(4) [of c] c unfolding e by blast+
next
  fix c d
  assume c: "valid_slot c \<and> valid_slot d \<and> in_use (slot_at h' c) \<and> in_use (slot_at h' d) \<and>
    slot_generation (slot_at h' c) = slot_generation (slot_at h' d)"
  then have e: "slot_at h' c = slot_at h c" "slot_at h' d = slot_at h d" using assms(4) by blast+
  show "c = d" using request_invD(5) [OF assms(1), of c d] c unfolding e by blast
next
  fix i assume i: "i < WLH_RTT_INTERFACE_COUNT" "req_active (request_at h' i)"
  then have r: "request_at h' i = request_at h i" using assms(5) by blast
  show "gen_ok n (req_generation (request_at h' i))" using request_invD(6) [OF assms(1), of i] i unfolding r by blast
  fix c assume c: "valid_slot c \<and> in_use (slot_at h' c) \<and>
    slot_generation (slot_at h' c) = req_generation (request_at h' i)"
  then have e: "slot_at h' c = slot_at h c" using assms(4) by blast
  show "fst c = i" "slot_kind (slot_at h' c) = req_kind (request_at h' i)"
    using request_invD(7) [OF assms(1), of i c] c i unfolding r e by blast+
qed

lemma retire_simps:
  assumes "request_shape h" "valid_slot c"
  shows "request_shape (release_slot c h)"
    and "next_generation (release_slot c h) = next_generation h"
    and "request_at (release_slot c h) j = request_at h j"
    and "slot_at (release_slot c h) d = (if d = c then (slot_at h c)\<lparr> in_use := False \<rparr> else slot_at h d)"
    and "indications (release_slot c h) = indications h"
proof -
  have l: "fst c < length (interfaces h)" "snd c < length (completions (interfaces h ! fst c))"
    using assms by (auto simp: request_shape_def valid_slot_def)
  show "request_shape (release_slot c h)"
    using assms unfolding release_slot_def
    by (intro request_shape_update) (auto simp: valid_slot_def set_slot_def)
  show "next_generation (release_slot c h) = next_generation h" "indications (release_slot c h) = indications h"
    by (simp_all add: release_slot_def)
  show "request_at (release_slot c h) j = request_at h j"
    using l by (auto simp: release_slot_def set_slot_def request_at_def)
  show "slot_at (release_slot c h) d = (if d = c then (slot_at h c)\<lparr> in_use := False \<rparr> else slot_at h d)"
    using l by (cases c; cases d) (auto simp: release_slot_def set_slot_def slot_at_def)
qed

lemma clear_simps:
  assumes "request_shape h" "i < WLH_RTT_INTERFACE_COUNT"
  shows "request_shape (update_interface i clear_request h)"
    and "next_generation (update_interface i clear_request h) = next_generation h"
    and "request_at (update_interface i clear_request h) j = (if i = j then wlh_rtt_request_zero else request_at h j)"
    and "slot_at (update_interface i clear_request h) d = slot_at h d"
    and "indications (update_interface i clear_request h) = indications h"
  using assms by (auto intro!: request_shape_update simp: clear_request_def request_shape_def slot_at_def)

lemma zero_request [simp]: "\<not> req_active wlh_rtt_request_zero"
  by (simp add: wlh_rtt_request_zero_def)

lemma report_simps [simp]:
  "request_shape (wlh_rtt_report_event i e d h) = request_shape h"
  "next_generation (wlh_rtt_report_event i e d h) = next_generation h"
  "request_at (wlh_rtt_report_event i e d h) j = request_at h j"
  "slot_at (wlh_rtt_report_event i e d h) c = slot_at h c"
  "indications (wlh_rtt_report_event i e d h) = indications h @ [(i, e, d)]"
  "interfaces (wlh_rtt_report_event i e d h) = interfaces h"
  by (simp_all add: wlh_rtt_report_event_def request_shape_def request_at_def slot_at_def)

subsection \<open>Every operation keeps the invariant\<close>

lemma clear_request_inv:
  "request_inv n h \<Longrightarrow> i < WLH_RTT_INTERFACE_COUNT \<Longrightarrow> request_inv n (update_interface i clear_request h)"
  by (rule request_inv_shrink) (auto simp: clear_simps request_invD(1) split: if_splits)

lemma release_slot_inv: "request_inv n h \<Longrightarrow> valid_slot c \<Longrightarrow> request_inv n (release_slot c h)"
  by (rule request_inv_shrink) (auto simp: retire_simps request_invD(1) split: if_splits)

lemma report_event_inv [simp]: "request_inv n (wlh_rtt_report_event i e d h) = request_inv n h"
  by (simp add: request_inv_def)

lemma finish_inv [inv_intros]:
  "request_inv n h \<Longrightarrow> i < WLH_RTT_INTERFACE_COUNT \<Longrightarrow> request_inv n (wlh_rtt_request_finish i kind h)"
  by (simp add: wlh_rtt_request_finish_def clear_request_inv)

lemma abort_inv [inv_intros]:
  assumes "request_inv n h" "\<And>c. completion = Some c \<Longrightarrow> valid_slot c"
  shows "request_inv n (wlh_rtt_request_abort completion h)"
proof (cases completion)
  case (Some c)
  then have c: "valid_slot c" using assms(2) by simp
  then have i: "fst c < WLH_RTT_INTERFACE_COUNT" by (simp add: valid_slot_def)
  show ?thesis
  proof (cases "in_use (slot_at h c)")
    case True
    then have "slot_interface (slot_at h c) = Some (fst c)" using request_invD(4) [OF assms(1) c] by simp
    then show ?thesis using Some assms(1) c i
      by (simp add: wlh_rtt_request_abort_def Let_def slot_at_def [symmetric] release_slot_inv clear_request_inv)
  qed (simp add: Some wlh_rtt_request_abort_def slot_at_def [symmetric] Let_def assms(1))
qed (simp add: wlh_rtt_request_abort_def assms(1))

text \<open>What a completion does, by the slot it comes in on.\<close>

lemma complete_unused:
  "\<not> in_use (slot_at h c) \<Longrightarrow> wlh_rtt_request_complete K (Some c) result h = h"
  by (simp add: wlh_rtt_request_complete_def slot_at_def Let_def)

lemma complete_ok_or_late:
  assumes "request_inv n h" "valid_slot c" "in_use (slot_at h c)"
    and "result = WLH_HOST_OK K \<or> \<not> slot_matches (interfaces h ! fst c) (slot_at h c)"
  shows "wlh_rtt_request_complete K (Some c) result h = release_slot c h"
  using assms(3,4) request_invD(4) [OF assms(1,2,3)]
  by (auto simp: wlh_rtt_request_complete_def slot_at_def [symmetric] Let_def)

lemma complete_failed:
  assumes "request_inv n h" "valid_slot c" "in_use (slot_at h c)"
    and "result \<noteq> WLH_HOST_OK K" "slot_matches (interfaces h ! fst c) (slot_at h c)"
  shows "\<exists>ev. failure_event (slot_kind (slot_at h c)) = Some ev \<and> wlh_rtt_request_complete K (Some c) result h =
    wlh_rtt_report_event (fst c) ev None (release_slot c (update_interface (fst c) clear_request h))"
proof -
  have s: "slot_interface (slot_at h c) = Some (fst c)" "slot_kind (slot_at h c) \<noteq> WLH_RTT_REQUEST_NONE"
    using request_invD(4) [OF assms(1,2,3)] by simp_all
  then obtain ev where "failure_event (slot_kind (slot_at h c)) = Some ev"
    by (cases "slot_kind (slot_at h c)") (auto simp: failure_event_def)
  then show ?thesis using assms(3,4,5) s
    by (simp add: wlh_rtt_request_complete_def slot_at_def [symmetric] Let_def)
qed

lemma complete_inv [inv_intros]:
  assumes "request_inv n h" "\<And>c. completion = Some c \<Longrightarrow> valid_slot c"
  shows "request_inv n (wlh_rtt_request_complete K completion result h)"
proof (cases completion)
  case (Some c)
  then have c: "valid_slot c" and i: "fst c < WLH_RTT_INTERFACE_COUNT"
    using assms(2) by (simp_all add: valid_slot_def)
  consider "\<not> in_use (slot_at h c)"
    | "in_use (slot_at h c)" "result = WLH_HOST_OK K \<or> \<not> slot_matches (interfaces h ! fst c) (slot_at h c)"
    | "in_use (slot_at h c)" "result \<noteq> WLH_HOST_OK K" "slot_matches (interfaces h ! fst c) (slot_at h c)"
    by blast
  then show ?thesis
  proof cases
    case 1
    then show ?thesis using assms(1) Some by (simp add: complete_unused)
  next
    case 2
    then show ?thesis using complete_ok_or_late [OF assms(1) c 2] Some assms(1) c by (simp add: release_slot_inv)
  next
    case 3
    then show ?thesis using complete_failed [OF assms(1) c 3] Some assms(1) c i
      by (auto simp: release_slot_inv clear_request_inv)
  qed
qed (simp add: wlh_rtt_request_complete_def assms(1))

text \<open>A request begins exactly when none is active and a slot is free; it gets a fresh generation.\<close>

lemma next_gen_of_nat:
  assumes "n + 1 < 2 ^ 32 - 1"
  shows "wlh_rtt_next_generation (of_nat n) = of_nat (Suc n)" and "unat (of_nat (Suc n) :: u32) = Suc n"
proof -
  show u: "unat (of_nat (Suc n) :: u32) = Suc n"
    using assms by (simp add: unsigned_of_nat take_bit_nat_eq_self del: of_nat_Suc)
  have "of_nat n + 1 \<noteq> (0 :: u32)"
  proof
    assume "of_nat n + 1 = (0 :: u32)"
    then have "unat (of_nat (Suc n) :: u32) = 0" by (simp add: add.commute)
    then show False using u by simp
  qed
  then show "wlh_rtt_next_generation (of_nat n) = of_nat (Suc n)"
    by (simp add: wlh_rtt_next_generation_def Let_def add.commute)
qed

lemma request_begin_cases:
  assumes "request_inv n h" "i < WLH_RTT_INTERFACE_COUNT" "n + 1 < 2 ^ 32 - 1"
  obtains (busy) "wlh_rtt_request_begin h i kind True = (0, None, h)"
      "req_active (request_at h i) \<or> (\<forall>k<WLH_RTT_REQUEST_COMPLETION_SLOTS. in_use (slot_at h (i, k)))"
  | (begun) k h' where "wlh_rtt_request_begin h i kind True = (of_nat (Suc n), Some (i, k), h')"
      "\<not> req_active (request_at h i)" "valid_slot (i, k)" "\<not> in_use (slot_at h (i, k))"
      "request_shape h'" "next_generation h' = of_nat (Suc n)" "indications h' = indications h"
      "\<And>j. request_at h' j = (if j = i then \<lparr> req_kind = kind, req_generation = of_nat (Suc n), req_active = True \<rparr>
          else request_at h j)"
      "\<And>c. slot_at h' c = (if c = (i, k) then \<lparr> slot_interface = Some i, slot_kind = kind,
          slot_generation = of_nat (Suc n), in_use = True \<rparr> else slot_at h c)"
proof -
  note I = request_invD [OF assms(1)]
  have l: "length (interfaces h) = 2" "length (completions (interfaces h ! i)) = 4"
    using I(1) assms(2) by (auto simp: request_shape_def)
  let ?f = "find_index (\<lambda>slot. \<not> in_use slot) (completions (interfaces h ! i))"
  show thesis
  proof (cases "req_active (request_at h i) \<or> ?f = None")
    case True
    then have "wlh_rtt_request_begin h i kind True = (0, None, h)"
      by (auto simp: wlh_rtt_request_begin_def request_at_def Let_def)
    moreover have "req_active (request_at h i) \<or> (\<forall>k<4. in_use (slot_at h (i, k)))"
      using True l by (auto simp: find_index_None slot_at_def)
    ultimately show ?thesis by (rule busy)
  next
    case False
    then obtain k where k: "?f = Some k" "\<not> req_active (request_at h i)" by auto
    let ?slot = "\<lparr> slot_interface = Some i, slot_kind = kind, slot_generation = of_nat (Suc n), in_use = True \<rparr>"
    let ?h = "update_interface i (\<lambda>ifc. set_slot k ?slot
        (ifc\<lparr> request := \<lparr> req_kind = kind, req_generation = of_nat (Suc n), req_active = True \<rparr> \<rparr>))
        (h\<lparr> next_generation := of_nat (Suc n) \<rparr>)"
    have k4: "k < 4" "\<not> in_use (slot_at h (i, k))" using find_index_nth [OF k(1)] l by (auto simp: slot_at_def)
    have b: "wlh_rtt_request_begin h i kind True = (of_nat (Suc n), Some (i, k), ?h)"
      using k I(3) next_gen_of_nat(1) [OF assms(3)]
      by (simp add: wlh_rtt_request_begin_def request_at_def Let_def)
    show ?thesis
      by (rule begun [OF b k(2) _ k4(2)])
        (use assms(2) k4(1) l I(1) in \<open>auto simp: valid_slot_def set_slot_def request_shape_def slot_at_def
            request_at_def update_interface_def\<close>)
  qed
qed

lemma request_begin_inv:
  assumes inv: "request_inv n h" and i: "i < WLH_RTT_INTERFACE_COUNT" and n: "n + 1 < 2 ^ 32 - 1"
    and kind: "kind \<noteq> WLH_RTT_REQUEST_NONE"
    and b: "wlh_rtt_request_begin h i kind True = (g, c, h')"
  shows "request_inv (if c = None then n else Suc n) h'"
  using inv i n
proof (cases rule: request_begin_cases [where kind = kind])
  case busy
  then show ?thesis using b inv by simp
next
  case (begun k h1)
  then have h1: "h1 = h'" "c = Some (i, k)" using b by simp_all
  note req = begun(8) [unfolded h1(1)] and sl = begun(9) [unfolded h1(1)]
  note I = request_invD [OF inv]
  have fresh: "gen_ok n x \<Longrightarrow> x \<noteq> of_nat (Suc n)" and new: "gen_ok (Suc n) (of_nat (Suc n))"
    and up: "gen_ok n x \<Longrightarrow> gen_ok (Suc n) x" for x
    using next_gen_of_nat(2) [OF n] unfolding gen_ok_def by (force, simp del: of_nat_Suc, simp)
  have "request_inv (Suc n) h'" unfolding request_inv_def
  proof (intro conjI allI impI)
    show "request_shape h'" "next_generation h' = of_nat (Suc n)" using begun(5,6) h1 by simp_all
    show "Suc n < 2 ^ 32 - 1" using n by simp
    fix c assume c: "valid_slot c \<and> in_use (slot_at h' c)"
    show "slot_interface (slot_at h' c) = Some (fst c)" "gen_ok (Suc n) (slot_generation (slot_at h' c))"
      "slot_kind (slot_at h' c) \<noteq> WLH_RTT_REQUEST_NONE"
      using c I(4) [of c] new up kind unfolding sl by (auto split: if_splits simp del: of_nat_Suc)
  next
    fix c d assume c: "valid_slot c \<and> valid_slot d \<and> in_use (slot_at h' c) \<and> in_use (slot_at h' d) \<and>
      slot_generation (slot_at h' c) = slot_generation (slot_at h' d)"
    then show "c = d" using I(4) [of c] I(4) [of d] I(5) [of c d] fresh unfolding sl
      by (auto split: if_splits simp del: of_nat_Suc)
  next
    fix j assume j: "j < WLH_RTT_INTERFACE_COUNT" "req_active (request_at h' j)"
    then show "gen_ok (Suc n) (req_generation (request_at h' j))"
      using I(6) [of j] new up unfolding req by (auto split: if_splits simp del: of_nat_Suc)
    fix c assume c: "valid_slot c \<and> in_use (slot_at h' c) \<and>
      slot_generation (slot_at h' c) = req_generation (request_at h' j)"
    show "fst c = j" "slot_kind (slot_at h' c) = req_kind (request_at h' j)"
      using c j I(4) [of c] I(6) [of j] I(7) [of j c] fresh unfolding req sl
      by (auto split: if_splits simp del: of_nat_Suc)
  qed
  then show ?thesis using h1 by simp
qed

subsection \<open>Runs\<close>

text \<open>
  \<open>req_reach K n h\<close>: the host \<open>h\<close> is reached from the zeroed structure with \<open>n\<close> requests begun,
  by requests, aborts, completions that arrive in any order and any number of times, ends of
  requests, resets of an interface, and steps that leave requests and slots alone.
\<close>

inductive req_reach :: "'c core_api \<Rightarrow> nat \<Rightarrow> ('c, 't) wlh_rtt_host_impl \<Rightarrow> bool" for K where
  init: "interfaces h = [interface_zero, interface_zero] \<Longrightarrow> next_generation h = 0 \<Longrightarrow> req_reach K 0 h"
| begin_req: "req_reach K n h \<Longrightarrow> i < WLH_RTT_INTERFACE_COUNT \<Longrightarrow> n + 1 < 2 ^ 32 - 1 \<Longrightarrow>
    kind \<noteq> WLH_RTT_REQUEST_NONE \<Longrightarrow> wlh_rtt_request_begin h i kind True = (g, c, h') \<Longrightarrow>
    req_reach K (if c = None then n else Suc n) h'"
| abort: "req_reach K n h \<Longrightarrow> valid_slot c \<Longrightarrow> req_reach K n (wlh_rtt_request_abort (Some c) h)"
| complete: "req_reach K n h \<Longrightarrow> valid_slot c \<Longrightarrow> req_reach K n (wlh_rtt_request_complete K (Some c) result h)"
| finish: "req_reach K n h \<Longrightarrow> i < WLH_RTT_INTERFACE_COUNT \<Longrightarrow> req_reach K n (wlh_rtt_request_finish i kind h)"
| reset: "req_reach K n h \<Longrightarrow> i < WLH_RTT_INTERFACE_COUNT \<Longrightarrow> req_reach K n (update_interface i clear_request h)"
| other: "req_reach K n h \<Longrightarrow> request_shape h' \<Longrightarrow> next_generation h' = next_generation h \<Longrightarrow>
    (\<And>c. valid_slot c \<Longrightarrow> slot_at h' c = slot_at h c) \<Longrightarrow>
    (\<And>i. i < WLH_RTT_INTERFACE_COUNT \<Longrightarrow> request_at h' i = request_at h i) \<Longrightarrow> req_reach K n h'"

lemma init_request_inv:
  "interfaces h = [interface_zero, interface_zero] \<Longrightarrow> next_generation h = 0 \<Longrightarrow> request_inv 0 h"
  by (auto simp: request_inv_def request_shape_def slot_at_def request_at_def valid_slot_def interface_zero_def
      request_completion_zero_def nth_Cons' less_2_cases_iff)

lemma reach_request_inv: "req_reach K n h \<Longrightarrow> request_inv n h"
proof (induction rule: req_reach.induct)
  case (begin_req n h i kind g c h')
  then show ?case using request_begin_inv by blast
next
  case (other n h h')
  then show ?case by (intro request_inv_shrink [OF other.IH]) auto
qed (auto intro: init_request_inv abort_inv complete_inv finish_inv clear_request_inv)

text \<open>A scan is begun on the station and cancelled locally; its slot stays in use.\<close>

definition scan_cancelled :: "(unit, unit) wlh_rtt_host_impl" where
  "scan_cancelled = wlh_rtt_request_finish 0 WLH_RTT_REQUEST_SCAN
     (snd (snd (wlh_rtt_request_begin sample_host 0 WLH_RTT_REQUEST_SCAN True)))"

lemma replicate_4: "replicate 4 x = [x, x, x, x]"
  by (simp add: numeral_eq_Suc)

lemmas request_eval = wlh_rtt_request_begin_def wlh_rtt_next_generation_def sample_host_def interface_zero_def
  request_completion_zero_def wlh_rtt_request_zero_def update_interface_def set_slot_def clear_request_def
  wlh_rtt_request_finish_def slot_at_def request_at_def valid_slot_def slot_matches_def replicate_4

lemma scan_begun_reach:
  "req_reach sample_core 1 (snd (snd (wlh_rtt_request_begin sample_host 0 WLH_RTT_REQUEST_SCAN True)))"
proof -
  have "req_reach sample_core 0 sample_host" by (rule req_reach.init) (simp_all add: sample_host_def)
  then have "req_reach sample_core (if Some (0 :: nat, 0 :: nat) = None then 0 else Suc 0)
      (snd (snd (wlh_rtt_request_begin sample_host 0 WLH_RTT_REQUEST_SCAN True)))"
    by (rule req_reach.begin_req [where i = 0 and kind = WLH_RTT_REQUEST_SCAN and g = 1])
      (simp_all add: request_eval Let_def)
  then show ?thesis by simp
qed

lemma scan_cancelled_reach: "req_reach sample_core 1 scan_cancelled"
  unfolding scan_cancelled_def by (rule req_reach.finish [OF scan_begun_reach]) simp

subsection \<open>Properties\<close>

text \<open>
  C3: In every reachable state, if a request is begun on an interface while slots of earlier,
  locally cancelled requests are still in use, the completion of such an old slot, whatever its
  result and however late, only frees that slot: the new request stays active with its
  generation and nothing is reported to the WLAN layer.
\<close>

theorem late_completion_isolated:
  assumes "req_reach K n h" and "i < WLH_RTT_INTERFACE_COUNT" and "n + 1 < 2 ^ 32 - 1"
    and "valid_slot c" and "fst c = i" and "in_use (slot_at h c)"
    and "wlh_rtt_request_begin h i kind True = (g, Some d, h')"
  shows "let h'' = wlh_rtt_request_complete K (Some c) result h' in
     request_at h'' i = \<lparr> req_kind = kind, req_generation = g, req_active = True \<rparr> \<and>
     indications h'' = indications h' \<and> \<not> in_use (slot_at h'' c) \<and> d \<noteq> c \<and>
     in_use (slot_at h'' d) \<and> slot_generation (slot_at h'' d) = g"
proof -
  have inv: "request_inv n h" using assms(1) by (rule reach_request_inv)
  show ?thesis using inv assms(2,3)
  proof (cases rule: request_begin_cases [where kind = kind])
    case busy
    then show ?thesis using assms(7) by simp
  next
    case (begun k h1)
    then have e: "h1 = h'" "d = (i, k)" "g = of_nat (Suc n)" using assms(7) by simp_all
    have ne: "c \<noteq> (i, k)" using begun(4) assms(6) by auto
    have g: "slot_generation (slot_at h c) \<noteq> g"
      using request_invD(4) [OF inv assms(4,6)] next_gen_of_nat(2) [OF assms(3)] e(3)
      by (auto simp: gen_ok_def simp del: of_nat_Suc)
    have s: "slot_at h' c = slot_at h c" using begun(9) [of c] ne e(1) by simp
    have r: "request_at h' i = \<lparr> req_kind = kind, req_generation = g, req_active = True \<rparr>"
      using begun(8) [of i] e by (simp del: of_nat_Suc)
    have m: "\<not> slot_matches (interfaces h' ! fst c) (slot_at h' c)"
      using g s r assms(5) by (auto simp: slot_matches_def request_at_def)
    have u: "in_use (slot_at h' c)" and si: "slot_interface (slot_at h' c) = Some (fst c)"
      using s assms(6) request_invD(4) [OF inv assms(4,6)] by simp_all
    have "wlh_rtt_request_complete K (Some c) result h' = release_slot c h'"
      using u si m by (simp add: wlh_rtt_request_complete_def slot_at_def [symmetric] Let_def)
    moreover have "request_shape h'" using begun(5) e(1) by simp
    moreover have "slot_at h' d = \<lparr> slot_interface = Some i, slot_kind = kind, slot_generation = g, in_use = True \<rparr>"
      using begun(9) [of d] e by (simp del: of_nat_Suc)
    ultimately show ?thesis using r ne e(2) by (simp add: Let_def retire_simps [OF _ assms(4)])
  qed
qed

theorem late_completion_isolated_witness:
  "let b = wlh_rtt_request_begin scan_cancelled 0 WLH_RTT_REQUEST_CONNECT True;
       h'' = wlh_rtt_request_complete sample_core (Some (0, 0)) (- 1) (snd (snd b)) in
   fst b = 2 \<and> request_at h'' 0 = \<lparr> req_kind = WLH_RTT_REQUEST_CONNECT, req_generation = 2, req_active = True \<rparr> \<and>
   indications h'' = indications (snd (snd b)) \<and> \<not> in_use (slot_at h'' (0, 0))"
proof -
  obtain h' where b: "wlh_rtt_request_begin scan_cancelled 0 WLH_RTT_REQUEST_CONNECT True = (2, Some (0, 1), h')"
    by (simp add: scan_cancelled_def request_eval Let_def)
  have "valid_slot (0, 0)" "in_use (slot_at scan_cancelled (0, 0))"
    by (simp_all add: scan_cancelled_def request_eval Let_def)
  then show ?thesis using late_completion_isolated [OF scan_cancelled_reach _ _ _ _ _ b, of "(0, 0)" "- 1"]
    by (simp add: b Let_def)
qed

text \<open>
  How the WLAN layer is told that a request has come to nothing. There is an event for a failed connection only; a scan ends without further networks, and a
  disconnection, whatever became of it, or an access point that did not start or stop, is reported as being down.
\<close>

fun failed_as :: "wlh_rtt_request_kind \<Rightarrow> rt_wlan_dev_event" where
  "failed_as WLH_RTT_REQUEST_SCAN = RT_WLAN_DEV_EVT_SCAN_DONE"
| "failed_as WLH_RTT_REQUEST_CONNECT = RT_WLAN_DEV_EVT_CONNECT_FAIL"
| "failed_as WLH_RTT_REQUEST_AP_START = RT_WLAN_DEV_EVT_AP_STOP"
| "failed_as WLH_RTT_REQUEST_AP_STOP = RT_WLAN_DEV_EVT_AP_STOP"
| "failed_as _ = RT_WLAN_DEV_EVT_DISCONNECT"

lemma failure_event_failed: "failure_event kind = Some ev \<Longrightarrow> ev = failed_as kind"
  by (cases kind) (auto simp: failure_event_def)

text \<open>
  C28: In every reachable state, a failing completion of the slot of the active request ends that
  request, frees the slot and reports exactly one event: the end of the scan for a scan, CONNECT_FAIL for a connection, DISCONNECT for a disconnection, AP_STOP for the
  start or stop of an access point. The same completion delivered again changes nothing. A successful one frees the slot and leaves the
  request active until its event arrives.
\<close>

theorem completion_reports_once:
  assumes "req_reach K n h" and "valid_slot c" and "in_use (slot_at h c)"
    and "request_at h (fst c) = \<lparr> req_kind = slot_kind (slot_at h c), req_generation = slot_generation (slot_at h c), req_active = True \<rparr>"
  shows "let h' = wlh_rtt_request_complete K (Some c) result h in
     wlh_rtt_request_complete K (Some c) again h' = h' \<and> \<not> in_use (slot_at h' c) \<and>
     (if result = WLH_HOST_OK K
      then request_at h' (fst c) = request_at h (fst c) \<and> indications h' = indications h
      else \<not> req_active (request_at h' (fst c)) \<and>
        indications h' = indications h @ [(fst c, failed_as (slot_kind (slot_at h c)), None)])"
proof -
  have inv: "request_inv n h" using assms(1) by (rule reach_request_inv)
  note sh = request_invD(1) [OF inv]
  have i: "fst c < WLH_RTT_INTERFACE_COUNT" using assms(2) by (simp add: valid_slot_def)
  have m: "slot_matches (interfaces h ! fst c) (slot_at h c)" using assms(4) by (simp add: slot_matches_def request_at_def)
  show ?thesis
  proof (cases "result = WLH_HOST_OK K")
    case True
    then have e: "wlh_rtt_request_complete K (Some c) result h = release_slot c h"
      using complete_ok_or_late [OF inv assms(2,3)] by blast
    have "\<not> in_use (slot_at (release_slot c h) c)" using retire_simps(4) [OF sh assms(2)] by simp
    then show ?thesis using True retire_simps [OF sh assms(2)]
      by (simp add: e [unfolded True] complete_unused Let_def)
  next
    case False
    let ?h = "release_slot c (update_interface (fst c) clear_request h)"
    obtain ev where ev: "failure_event (slot_kind (slot_at h c)) = Some ev"
      and e: "wlh_rtt_request_complete K (Some c) result h = wlh_rtt_report_event (fst c) ev None ?h"
      using complete_failed [OF inv assms(2,3) False m] by blast
    note cl = clear_simps [OF sh i]
    note rt = retire_simps [OF cl(1) assms(2)]
    have u: "\<not> in_use (slot_at (wlh_rtt_report_event (fst c) ev None ?h) c)" using rt(4) by simp
    show ?thesis using False u failure_event_failed [OF ev] by (simp add: e Let_def complete_unused rt cl)
  qed
qed

theorem completion_reports_once_witness:
  "let h = snd (snd (wlh_rtt_request_begin scan_cancelled 0 WLH_RTT_REQUEST_CONNECT True));
       h' = wlh_rtt_request_complete sample_core (Some (0, 1)) (- 1) h in
   wlh_rtt_request_complete sample_core (Some (0, 1)) 0 h' = h' \<and> \<not> req_active (request_at h' 0) \<and>
   indications h' = indications h @ [(0, RT_WLAN_DEV_EVT_CONNECT_FAIL, None)]"
proof -
  let ?h = "snd (snd (wlh_rtt_request_begin scan_cancelled 0 WLH_RTT_REQUEST_CONNECT True))"
  have r: "req_reach sample_core 2 ?h"
  proof -
    have "req_reach sample_core (if Some (0 :: nat, 1 :: nat) = None then 1 else Suc 1) ?h"
      by (rule req_reach.begin_req [OF scan_cancelled_reach, where i = 0 and kind = WLH_RTT_REQUEST_CONNECT and g = 2])
        (simp_all add: scan_cancelled_def request_eval Let_def)
    then show ?thesis by (simp add: numeral_2_eq_2)
  qed
  have e: "valid_slot (0, 1)" "in_use (slot_at ?h (0, 1))" "slot_kind (slot_at ?h (0, 1)) = WLH_RTT_REQUEST_CONNECT"
    "request_at ?h 0 = \<lparr> req_kind = slot_kind (slot_at ?h (0, 1)), req_generation = slot_generation (slot_at ?h (0, 1)), req_active = True \<rparr>"
    "WLH_HOST_OK sample_core \<noteq> - 1"
    by (simp_all add: scan_cancelled_def request_eval Let_def sample_core_def)
  then show ?thesis using completion_reports_once [OF r, of "(0, 1)" "- 1" 0] by (simp add: Let_def)
qed

end
