(* ===== verification/Wlan_Ops.thy ===== *)
theory Wlan_Ops
  imports Wlh_Request
begin

text \<open>
  The operations the RT-Thread WLAN layer calls, packages/wlh_rtt_host/wlan/wlh_rtt_wlan.c. A device
  is what \<open>interface_from_device\<close> reads: null, or its \<open>user_data\<close>, which is null or an interface.
  A call into the Core returns its result at once; the completion it was given arrives later, as
  a call of \<open>wlh_rtt_request_complete\<close>.
\<close>

type_synonym wlan_device = "nat option option"

record rt_sta_info =
  sta_ssid_len :: u8
  sta_ssid_val :: "u8 list"
  sta_key_len :: u8
  sta_key_val :: "u8 list"
  sta_security :: rt_wlan_security

record rt_ap_info =
  apinfo_ssid_len :: u8
  apinfo_ssid_val :: "u8 list"
  apinfo_key_len :: u8
  apinfo_key_val :: "u8 list"
  apinfo_hidden :: bool
  apinfo_channel :: u16
  apinfo_security :: rt_wlan_security

abbreviation (input) RT_WLAN_SCAN_CACHE_NUM :: nat where "RT_WLAN_SCAN_CACHE_NUM \<equiv> 50"

definition interface_from_device :: "wlan_device \<Rightarrow> nat option" where
  "interface_from_device device = (case device of None \<Rightarrow> None | Some user_data \<Rightarrow> user_data)"

definition wlh_rtt_security_from_wire :: "'c core_api \<Rightarrow> u32 \<Rightarrow> rt_wlan_security" where
  "wlh_rtt_security_from_wire K sec =
   (if sec = WIRE_SECURITY_OPEN K then SECURITY_OPEN
    else if sec = WIRE_SECURITY_WPA_PSK K then SECURITY_WPA_AES_PSK
    else if sec = WIRE_SECURITY_WPA2_PSK K then SECURITY_WPA2_AES_PSK
    else if sec = WIRE_SECURITY_WPA_WPA2_PSK K then SECURITY_WPA2_MIXED_PSK
    else SECURITY_UNKNOWN)"

text \<open>The return code and what is stored in \<open>*wire\<close>; \<open>out\<close> says whether the pointer is non-null.\<close>

definition wlh_rtt_security_to_wire :: "'c core_api \<Rightarrow> rt_wlan_security \<Rightarrow> bool \<Rightarrow> int \<times> u32 option" where
  "wlh_rtt_security_to_wire K sec out =
   (if \<not> out then (- RT_EINVAL, None)
    else case sec of
      SECURITY_OPEN \<Rightarrow> (RT_EOK, Some (WIRE_SECURITY_OPEN K))
    | SECURITY_WPA_AES_PSK \<Rightarrow> (RT_EOK, Some (WIRE_SECURITY_WPA_PSK K))
    | SECURITY_WPA_TKIP_PSK \<Rightarrow> (RT_EOK, Some (WIRE_SECURITY_WPA_PSK K))
    | SECURITY_WPA2_AES_PSK \<Rightarrow> (RT_EOK, Some (WIRE_SECURITY_WPA2_PSK K))
    | SECURITY_WPA2_TKIP_PSK \<Rightarrow> (RT_EOK, Some (WIRE_SECURITY_WPA2_PSK K))
    | SECURITY_WPA2_MIXED_PSK \<Rightarrow> (RT_EOK, Some (WIRE_SECURITY_WPA_WPA2_PSK K))
    | _ \<Rightarrow> (- RT_ENOSYS, None))"

definition wlan_init :: "wlan_device \<Rightarrow> int" where
  "wlan_init device = (if interface_from_device device \<noteq> None then RT_EOK else - RT_EINVAL)"

definition wlan_mode :: "wlan_device \<Rightarrow> rt_wlan_mode \<Rightarrow> ('c, 't) wlh_rtt_host_impl \<Rightarrow> int" where
  "wlan_mode device mode host =
   (case interface_from_device device of
      None \<Rightarrow> - RT_EINVAL
    | Some i \<Rightarrow>
        if (if_id (interfaces host ! i) = WLH_RTT_INTERFACE_STA \<and> mode \<noteq> RT_WLAN_STATION) \<or>
           (if_id (interfaces host ! i) = WLH_RTT_INTERFACE_AP \<and> mode \<noteq> RT_WLAN_AP)
        then - RT_ENOSYS else RT_EOK)"

text \<open>The common end of the request operations: abort the request if the Core refuses it.\<close>

definition core_request ::
  "'c core_api \<Rightarrow> slot option \<Rightarrow> ('c \<Rightarrow> int \<times> 'c) \<Rightarrow> ('c, 't) wlh_rtt_host_impl \<Rightarrow> int \<times> ('c, 't) wlh_rtt_host_impl" where
  "core_request K completion call host =
   (let (result, c) = call (core host); host = host\<lparr> core := c \<rparr> in
    if result \<noteq> WLH_HOST_OK K then (- RT_ERROR, wlh_rtt_request_abort completion host)
    else (RT_EOK, host))"

text \<open>\<open>scan_info\<close> is the length and contents of its \<open>ssid\<close>, the only field read.\<close>

definition wlan_scan ::
  "'c core_api \<Rightarrow> wlan_device \<Rightarrow> (u8 \<times> u8 list) option \<Rightarrow> ('c, 't) wlh_rtt_host_impl \<Rightarrow> int \<times> ('c, 't) wlh_rtt_host_impl" where
  "wlan_scan K device scan_info host =
   (case interface_from_device device of
      None \<Rightarrow> (- RT_EINVAL, host)
    | Some i \<Rightarrow>
        if if_id (interfaces host ! i) \<noteq> WLH_RTT_INTERFACE_STA then (- RT_EINVAL, host)
        else
          let (generation, completion, host) = wlh_rtt_request_begin host i WLH_RTT_REQUEST_SCAN True in
          if generation = 0 then (- RT_EBUSY, host)
          else core_request K completion (core_wifi_scan K
            \<lparr> sp_scan_id = generation, sp_max_results = RT_WLAN_SCAN_CACHE_NUM,
              sp_ssid = (case scan_info of
                           Some (len, val) \<Rightarrow> if len \<noteq> 0 then Some (take (unat len) val) else None
                         | None \<Rightarrow> None) \<rparr>
            (the completion)) host)"

definition wlan_scan_stop ::
  "wlan_device \<Rightarrow> ('c, 't) wlh_rtt_host_impl \<Rightarrow> int \<times> ('c, 't) wlh_rtt_host_impl" where
  "wlan_scan_stop device host =
   (case interface_from_device device of
      None \<Rightarrow> (- RT_EINVAL, host)
    | Some i \<Rightarrow>
        if \<not> req_active (request (interfaces host ! i)) \<or>
           req_kind (request (interfaces host ! i)) \<noteq> WLH_RTT_REQUEST_SCAN then (- RT_EINVAL, host)
        else (RT_EOK, wlh_rtt_report_event i RT_WLAN_DEV_EVT_SCAN_DONE None
                        (wlh_rtt_request_finish i WLH_RTT_REQUEST_SCAN host)))"

definition wlan_join ::
  "'c core_api \<Rightarrow> wlan_device \<Rightarrow> rt_sta_info option \<Rightarrow> ('c, 't) wlh_rtt_host_impl \<Rightarrow> int \<times> ('c, 't) wlh_rtt_host_impl" where
  "wlan_join K device station host =
   (case (interface_from_device device, station) of
      (Some i, Some sta) \<Rightarrow>
        if sta_ssid_len sta = 0 \<or> sta_ssid_len sta > 32 \<or> sta_key_len sta > 63 \<or>
           fst (wlh_rtt_security_to_wire K (sta_security sta) True) \<noteq> RT_EOK
        then (- RT_EINVAL, host)
        else
          let wire = the (snd (wlh_rtt_security_to_wire K (sta_security sta) True)) in
          if wire = WIRE_SECURITY_OPEN K \<and> sta_key_len sta \<noteq> 0 then (- RT_EINVAL, host)
          else if wire \<noteq> WIRE_SECURITY_OPEN K \<and> (sta_key_len sta < 8 \<or> sta_key_len sta > 63) then (- RT_EINVAL, host)
          else
            let (generation, completion, host) = wlh_rtt_request_begin host i WLH_RTT_REQUEST_CONNECT True in
            if generation = 0 then (- RT_EBUSY, host)
            else core_request K completion (core_wifi_connect K
              \<lparr> cp_ssid = take (unat (sta_ssid_len sta)) (sta_ssid_val sta),
                cp_credential = take (unat (sta_key_len sta)) (sta_key_val sta),
                cp_security = wire, cp_timeout_ms = WLH_RTT_HOST_RPC_TIMEOUT_MS \<rparr>
              (the completion)) host
    | _ \<Rightarrow> (- RT_EINVAL, host))"

definition wlan_disconnect ::
  "'c core_api \<Rightarrow> wlan_device \<Rightarrow> ('c, 't) wlh_rtt_host_impl \<Rightarrow> int \<times> ('c, 't) wlh_rtt_host_impl" where
  "wlan_disconnect K device host =
   (case interface_from_device device of
      None \<Rightarrow> (- RT_EINVAL, host)
    | Some i \<Rightarrow>
        let (generation, completion, host) = wlh_rtt_request_begin host i WLH_RTT_REQUEST_DISCONNECT True in
        if generation = 0 then (- RT_EBUSY, host)
        else core_request K completion (core_wifi_disconnect K (the completion)) host)"

definition wlan_softap ::
  "'c core_api \<Rightarrow> wlan_device \<Rightarrow> rt_ap_info option \<Rightarrow> ('c, 't) wlh_rtt_host_impl \<Rightarrow> int \<times> ('c, 't) wlh_rtt_host_impl" where
  "wlan_softap K device ap host =
   (case (interface_from_device device, ap) of
      (Some i, Some a) \<Rightarrow>
        if fst (wlh_rtt_security_to_wire K (apinfo_security a) True) \<noteq> RT_EOK then (- RT_ENOSYS, host)
        else
          let wire = the (snd (wlh_rtt_security_to_wire K (apinfo_security a) True));
              validation = wlh_rtt_softap_validate (ucast (apinfo_ssid_len a)) (ucast (apinfo_key_len a)) wire
                (ucast (apinfo_channel a)) (apinfo_hidden a) (WIRE_SECURITY_OPEN K) (WIRE_SECURITY_WPA2_PSK K)
          in if validation = WLH_RTT_UNSUPPORTED then (- RT_ENOSYS, host)
             else if validation \<noteq> WLH_RTT_VALID then (- RT_EINVAL, host)
             else
               let (generation, completion, host) = wlh_rtt_request_begin host i WLH_RTT_REQUEST_AP_START True in
               if generation = 0 then (- RT_EBUSY, host)
               else core_request K completion (core_wifi_start_ap K
                 \<lparr> ap_ssid = take (unat (apinfo_ssid_len a)) (apinfo_ssid_val a),
                   ap_credential = take (unat (apinfo_key_len a)) (apinfo_key_val a),
                   ap_security = wire, ap_channel = ucast (apinfo_channel a),
                   ap_max_clients = WLH_RTT_HOST_AP_MAX_CLIENTS \<rparr>
                 (the completion)) host
    | _ \<Rightarrow> (- RT_EINVAL, host))"

definition wlan_ap_stop ::
  "'c core_api \<Rightarrow> wlan_device \<Rightarrow> ('c, 't) wlh_rtt_host_impl \<Rightarrow> int \<times> ('c, 't) wlh_rtt_host_impl" where
  "wlan_ap_stop K device host =
   (case interface_from_device device of
      None \<Rightarrow> (- RT_EINVAL, host)
    | Some i \<Rightarrow>
        let (generation, completion, host) = wlh_rtt_request_begin host i WLH_RTT_REQUEST_AP_STOP True in
        if generation = 0 then (- RT_EBUSY, host)
        else core_request K completion (core_wifi_stop_ap K (the completion)) host)"

definition wlan_get_rssi :: "wlan_device \<Rightarrow> ('c, 't) wlh_rtt_host_impl \<Rightarrow> int" where
  "wlan_get_rssi device host =
   (case interface_from_device device of
      Some i \<Rightarrow> if if_active (interfaces host ! i) then sint (rssi (info (interfaces host ! i))) else 0
    | None \<Rightarrow> 0)"

definition wlan_get_info :: "wlan_device \<Rightarrow> bool \<Rightarrow> ('c, 't) wlh_rtt_host_impl \<Rightarrow> int \<times> rt_wlan_info option" where
  "wlan_get_info device out host =
   (case interface_from_device device of
      None \<Rightarrow> (- RT_EIO, None)
    | Some i \<Rightarrow>
        if \<not> out \<or> \<not> if_active (interfaces host ! i) then (- RT_EIO, None)
        else (RT_EOK, Some (info (interfaces host ! i))))"

definition wlan_get_mac :: "wlan_device \<Rightarrow> bool \<Rightarrow> ('c, 't) wlh_rtt_host_impl \<Rightarrow> int \<times> u8 list option" where
  "wlan_get_mac device out host =
   (case interface_from_device device of
      None \<Rightarrow> (- RT_EINVAL, None)
    | Some i \<Rightarrow> if \<not> out then (- RT_EINVAL, None) else (RT_EOK, Some (if_mac (interfaces host ! i))))"

definition count_dropped :: "wlh_rtt_interface \<Rightarrow> wlh_rtt_interface" where
  "count_dropped f = f\<lparr> stats := (stats f)\<lparr> tx_dropped := tx_dropped (stats f) + 1 \<rparr> \<rparr>"

definition count_sent :: "wlh_rtt_interface \<Rightarrow> wlh_rtt_interface" where
  "count_sent f = f\<lparr> stats := (stats f)\<lparr> tx_frames := tx_frames (stats f) + 1 \<rparr> \<rparr>"

definition wlan_send ::
  "'c core_api \<Rightarrow> wlan_device \<Rightarrow> u8 list option \<Rightarrow> int \<Rightarrow> ('c, 't) wlh_rtt_host_impl \<Rightarrow> int \<times> ('c, 't) wlh_rtt_host_impl" where
  "wlan_send K device buffer len host =
   (case interface_from_device device of
      None \<Rightarrow> (- RT_EIO, host)
    | Some i \<Rightarrow>
        if buffer = None \<or> len < 1 \<or> len > int WLH_RTT_ETHERNET_MAX_FRAME \<or>
           \<not> if_active (interfaces host ! i) \<or> core_state K (core host) \<noteq> STATE_READY K
        then (- RT_EIO, update_interface i count_dropped host)
        else
          let (result, c) = (if if_id (interfaces host ! i) = WLH_RTT_INTERFACE_STA
                             then core_ethernet_sta_send K (take (nat len) (the buffer)) (core host)
                             else core_ethernet_ap_send K (take (nat len) (the buffer)) (core host));
              host = host\<lparr> core := c \<rparr>
          in if result \<noteq> WLH_HOST_OK K then (- RT_EIO, update_interface i count_dropped host)
             else (RT_EOK, update_interface i count_sent host))"

text \<open>The two results of \<open>rt_wlan_dev_register\<close> are arguments.\<close>

definition wlh_rtt_wlan_register ::
  "int \<Rightarrow> int \<Rightarrow> ('c, 't) wlh_rtt_host_impl \<Rightarrow> int \<times> ('c, 't) wlh_rtt_host_impl" where
  "wlh_rtt_wlan_register sta_rc ap_rc host =
   (let host = update_interface WLH_RTT_INTERFACE_STA (\<lambda>f. f\<lparr> if_id := WLH_RTT_INTERFACE_STA \<rparr>) host;
        host = update_interface WLH_RTT_INTERFACE_AP (\<lambda>f. f\<lparr> if_id := WLH_RTT_INTERFACE_AP \<rparr>) host
    in if sta_rc \<noteq> RT_EOK then (- RT_ERROR, host)
       else
         let host = update_interface WLH_RTT_INTERFACE_STA (\<lambda>f. f\<lparr> registered := True \<rparr>) host
         in if ap_rc \<noteq> RT_EOK then (- RT_ERROR, host)
            else (RT_EOK, update_interface WLH_RTT_INTERFACE_AP (\<lambda>f. f\<lparr> registered := True \<rparr>) host))"

definition reset_event :: "wlh_rtt_request_kind \<Rightarrow> rt_wlan_dev_event" where
  "reset_event pending =
   (if pending = WLH_RTT_REQUEST_SCAN then RT_WLAN_DEV_EVT_SCAN_DONE
    else if pending = WLH_RTT_REQUEST_CONNECT then RT_WLAN_DEV_EVT_CONNECT_FAIL
    else if pending = WLH_RTT_REQUEST_AP_START \<or> pending = WLH_RTT_REQUEST_AP_STOP then RT_WLAN_DEV_EVT_AP_STOP
    else RT_WLAN_DEV_EVT_DISCONNECT)"

definition reset_interface :: "nat \<Rightarrow> ('c, 't) wlh_rtt_host_impl \<Rightarrow> ('c, 't) wlh_rtt_host_impl" where
  "reset_interface i host =
   (let was_active = if_active (interfaces host ! i);
        pending = req_kind (request (interfaces host ! i));
        had_pending = req_active (request (interfaces host ! i));
        host = update_interface i (\<lambda>f. clear_request (f\<lparr> if_active := False, stats := (stats f)\<lparr> st_active := False \<rparr> \<rparr>)) host;
        host = (if had_pending then wlh_rtt_report_event i (reset_event pending) None host else host)
    in if was_active
       then wlh_rtt_report_event i (if i = WLH_RTT_INTERFACE_STA then RT_WLAN_DEV_EVT_DISCONNECT else RT_WLAN_DEV_EVT_AP_STOP) None host
       else host)"

definition wlh_rtt_wlan_reset :: "('c, 't) wlh_rtt_host_impl \<Rightarrow> ('c, 't) wlh_rtt_host_impl" where
  "wlh_rtt_wlan_reset host =
   (let host = fold reset_interface [0..<WLH_RTT_INTERFACE_COUNT] host;
        (table, n) = wlh_rtt_ap_client_clear (Some (ap_client host)) WLH_RTT_HOST_AP_MAX_CLIENTS (Some (ap_clients host))
    in host\<lparr> ap_client := the table, ap_clients := the n \<rparr>)"

subsection \<open>Requests\<close>

text \<open>
  What a request operation that passed its argument checks promises, given the Core call it makes:
  busy and unchanged while a request is active or no slot is free; otherwise the Core is called with
  a free slot, and the request is active with the next generation if the Core accepts it, and
  completely undone if it does not.
\<close>

definition request_outcome ::
  "'c core_api \<Rightarrow> nat \<Rightarrow> nat \<Rightarrow> wlh_rtt_request_kind \<Rightarrow> (u32 \<Rightarrow> slot \<Rightarrow> 'c \<Rightarrow> int \<times> 'c) \<Rightarrow> ('c, 't) wlh_rtt_host_impl \<Rightarrow>
   int \<times> ('c, 't) wlh_rtt_host_impl \<Rightarrow> bool" where
  "request_outcome K n i kind call h r \<longleftrightarrow>
   (if req_active (request_at h i) \<or> (\<forall>k<WLH_RTT_REQUEST_COMPLETION_SLOTS. in_use (slot_at h (i, k)))
    then r = (- RT_EBUSY, h)
    else \<exists>k<WLH_RTT_REQUEST_COMPLETION_SLOTS. \<not> in_use (slot_at h (i, k)) \<and>
      core (snd r) = snd (call (of_nat (Suc n)) (i, k) (core h)) \<and> indications (snd r) = indications h \<and>
      (if fst (call (of_nat (Suc n)) (i, k) (core h)) = WLH_HOST_OK K
       then fst r = RT_EOK \<and> in_use (slot_at (snd r) (i, k)) \<and>
            request_at (snd r) i = \<lparr> req_kind = kind, req_generation = of_nat (Suc n), req_active = True \<rparr>
       else fst r = - RT_ERROR \<and> \<not> req_active (request_at (snd r) i) \<and>
            (\<forall>d. in_use (slot_at (snd r) d) = in_use (slot_at h d))))"

lemma core_update_simps [simp]:
  "slot_at (h\<lparr> core := c \<rparr>) d = slot_at h d" "request_at (h\<lparr> core := c \<rparr>) i = request_at h i"
  "request_shape (h\<lparr> core := c \<rparr>) = request_shape h"
  by (simp_all add: slot_at_def request_at_def request_shape_def)

text \<open>Aborting a request that has just begun undoes it.\<close>

lemma abort_fresh:
  assumes "request_shape h" "valid_slot c" "slot_at h c = \<lparr> slot_interface = Some (fst c), slot_kind = kind, slot_generation = g, in_use = True \<rparr>"
    and "request_at h (fst c) = \<lparr> req_kind = kind, req_generation = g, req_active = True \<rparr>"
  shows "wlh_rtt_request_abort (Some c) h = release_slot c (update_interface (fst c) clear_request h)"
  using assms(3,4)
  by (simp add: wlh_rtt_request_abort_def slot_at_def slot_matches_def request_at_def Let_def)

lemma core_release [simp]: "core (release_slot c h) = core h"
  by (simp add: release_slot_def)

lemma request_op_outcome:
  assumes inv: "request_inv n h" and i: "i < WLH_RTT_INTERFACE_COUNT" and n: "n + 1 < 2 ^ 32 - 1"
    and r: "r = (case wlh_rtt_request_begin h i kind True of (g, completion, h') \<Rightarrow>
      if g = 0 then (- RT_EBUSY, h') else core_request K completion (call g (the completion)) h')"
  shows "request_outcome K n i kind call h r"
  using inv i n
proof (cases rule: request_begin_cases [where kind = kind])
  case busy
  then show ?thesis using r by (simp add: request_outcome_def)
next
  case (begun k h')
  let ?g = "of_nat (Suc n) :: u32"
  have g0: "?g \<noteq> 0" using next_gen_of_nat(2) [OF n] by (metis nat.distinct(1) unsigned_0)
  have k: "k < 4" "\<not> in_use (slot_at h (i, k))" using begun(3,4) by (auto simp: valid_slot_def)
  have nb: "\<not> (req_active (request_at h i) \<or> (\<forall>k<4. in_use (slot_at h (i, k))))" using begun(2) k by blast
  have r': "r = core_request K (Some (i, k)) (call ?g (i, k)) h'" using r begun(1) g0 by (simp del: of_nat_Suc)
  have c: "core h' = core h"
    using begun(1) by (auto simp: wlh_rtt_request_begin_def Let_def split: if_splits option.splits)
  obtain res cc where call: "call ?g (i, k) (core h) = (res, cc)" by fastforce
  have req: "request_at h' i = \<lparr> req_kind = kind, req_generation = ?g, req_active = True \<rparr>"
    and sl: "slot_at h' (i, k) = \<lparr> slot_interface = Some i, slot_kind = kind, slot_generation = ?g, in_use = True \<rparr>"
    using begun(8) [of i] begun(9) [of "(i, k)"] by (simp_all del: of_nat_Suc)
  show ?thesis
  proof (cases "res = WLH_HOST_OK K")
    case True
    then have "r = (RT_EOK, h'\<lparr> core := cc \<rparr>)" unfolding r' using call c by (simp add: core_request_def del: of_nat_Suc)
    then show ?thesis using True nb k req sl call begun(7) unfolding request_outcome_def
      by (intro if_not_P [THEN iffD2]) (auto simp del: of_nat_Suc intro!: exI [of _ k])
  next
    case False
    let ?h = "h'\<lparr> core := cc \<rparr>"
    have sh: "request_shape ?h" using begun(5) by simp
    have ab: "wlh_rtt_request_abort (Some (i, k)) ?h = release_slot (i, k) (update_interface i clear_request ?h)"
      using abort_fresh [of ?h "(i, k)" kind ?g] sh begun(3) req sl by (simp del: of_nat_Suc)
    note cl = clear_simps [OF sh i]
    note rt = retire_simps [OF cl(1) begun(3)]
    have rr: "r = (- RT_ERROR, release_slot (i, k) (update_interface i clear_request ?h))"
      unfolding r' using False call c ab by (simp add: core_request_def del: of_nat_Suc)
    have "in_use (slot_at (snd r) d) = in_use (slot_at h d)" for d
      using begun(9) [of d] k(2) unfolding rr by (simp add: rt cl)
    then show ?thesis using False nb k call begun(7) unfolding request_outcome_def
      by (intro if_not_P [THEN iffD2]) (auto simp: rr rt cl simp del: of_nat_Suc intro!: exI [of _ k])
  qed
qed

text \<open>A scan that was accepted is active, with the next generation.\<close>

lemma scan_accepted:
  assumes "request_inv n h" "i < WLH_RTT_INTERFACE_COUNT" "n + 1 < 2 ^ 32 - 1" "wlan_scan K (Some (Some i)) scan_info h = (RT_EOK, h')"
  shows "request_at h' i = \<lparr> req_kind = WLH_RTT_REQUEST_SCAN, req_generation = of_nat (Suc n), req_active = True \<rparr>"
    and "length (interfaces h') = WLH_RTT_INTERFACE_COUNT"
proof -
  let ?call = "\<lambda>g. core_wifi_scan K \<lparr> sp_scan_id = g, sp_max_results = RT_WLAN_SCAN_CACHE_NUM,
     sp_ssid = (case scan_info of Some (len, val) \<Rightarrow> if len \<noteq> 0 then Some (take (unat len) val) else None | None \<Rightarrow> None) \<rparr>"
  have "if_id (interfaces h ! i) = WLH_RTT_INTERFACE_STA" using assms(4) by (auto simp: wlan_scan_def interface_from_device_def split: if_splits)
  then have "request_outcome K n i WLH_RTT_REQUEST_SCAN ?call h (wlan_scan K (Some (Some i)) scan_info h)"
    by (intro request_op_outcome [OF assms(1-3)]) (simp add: wlan_scan_def interface_from_device_def case_prod_beta)
  then show "request_at h' i = \<lparr> req_kind = WLH_RTT_REQUEST_SCAN, req_generation = of_nat (Suc n), req_active = True \<rparr>"
    unfolding assms(4) request_outcome_def by (auto split: if_splits simp del: of_nat_Suc)
  have "length (interfaces h) = 2" using request_invD(1) [OF assms(1)] by (simp add: request_shape_def)
  moreover have "length (interfaces h') = length (interfaces h)"
    using assms(4) by (auto simp: wlan_scan_def interface_from_device_def core_request_def wlh_rtt_request_begin_def Let_def case_prod_beta
        split: if_splits option.splits)
  ultimately show "length (interfaces h') = 2" by simp
qed

subsection \<open>Reset\<close>

lemma reset_event_failed: "reset_event kind = failed_as kind"
  by (cases kind) (simp_all add: reset_event_def)

lemma reset_interface_fields:
  assumes "i < length (interfaces h)"
  shows "interfaces (reset_interface i h) = (interfaces h)[i := clear_request ((interfaces h ! i)\<lparr> if_active := False,
      stats := (stats (interfaces h ! i))\<lparr> st_active := False \<rparr> \<rparr>)]"
    and "indications (reset_interface i h) = indications h @
      (if req_active (request (interfaces h ! i)) then [(i, failed_as (req_kind (request (interfaces h ! i))), None)] else []) @
      (if if_active (interfaces h ! i)
       then [(i, if i = WLH_RTT_INTERFACE_STA then RT_WLAN_DEV_EVT_DISCONNECT else RT_WLAN_DEV_EVT_AP_STOP, None)] else [])"
  using assms by (simp_all add: reset_interface_def Let_def update_interface_def wlh_rtt_report_event_def reset_event_failed)

text \<open>The events a reset owes the WLAN layer for one interface.\<close>

definition reset_events :: "('c, 't) wlh_rtt_host_impl \<Rightarrow> nat \<Rightarrow> (nat \<times> rt_wlan_dev_event \<times> rt_wlan_info option) list" where
  "reset_events h i =
     (if req_active (request (interfaces h ! i)) then [(i, failed_as (req_kind (request (interfaces h ! i))), None)] else []) @
     (if if_active (interfaces h ! i)
      then [(i, if i = WLH_RTT_INTERFACE_STA then RT_WLAN_DEV_EVT_DISCONNECT else RT_WLAN_DEV_EVT_AP_STOP, None)] else [])"

lemma wlan_reset_fields:
  assumes "length (interfaces h) = WLH_RTT_INTERFACE_COUNT"
  shows "length (interfaces (wlh_rtt_wlan_reset h)) = WLH_RTT_INTERFACE_COUNT"
    and "i < WLH_RTT_INTERFACE_COUNT \<Longrightarrow> interfaces (wlh_rtt_wlan_reset h) ! i =
      clear_request ((interfaces h ! i)\<lparr> if_active := False, stats := (stats (interfaces h ! i))\<lparr> st_active := False \<rparr> \<rparr>)"
    and "indications (wlh_rtt_wlan_reset h) = indications h @ reset_events h 0 @ reset_events h 1"
    and "ap_clients (wlh_rtt_wlan_reset h) = 0"
    and "ap_client (wlh_rtt_wlan_reset h) = replicate 4 ap_client_zero @ drop 4 (ap_client h)"
proof -
  let ?h = "reset_interface 1 (reset_interface 0 h)"
  have u: "[0..<2] = [0, 1 :: nat]" by (simp add: numeral_2_eq_2)
  have r: "interfaces (wlh_rtt_wlan_reset h) = interfaces ?h" "indications (wlh_rtt_wlan_reset h) = indications ?h"
    by (simp_all add: wlh_rtt_wlan_reset_def u case_prod_beta Let_def)
  have l: "0 < length (interfaces h)" "1 < length (interfaces (reset_interface 0 h))"
    using assms reset_interface_fields(1) [of 0 h] by simp_all
  note F = reset_interface_fields [OF l(1)] reset_interface_fields [OF l(2)]
  show "length (interfaces (wlh_rtt_wlan_reset h)) = 2" using r F(1,3) assms by simp
  show "interfaces (wlh_rtt_wlan_reset h) ! i = clear_request ((interfaces h ! i)\<lparr> if_active := False,
      stats := (stats (interfaces h ! i))\<lparr> st_active := False \<rparr> \<rparr>)" if "i < 2"
    using that assms unfolding r F(3) F(1) by (auto simp: less_2_cases_iff)
  show "indications (wlh_rtt_wlan_reset h) = indications h @ reset_events h 0 @ reset_events h 1"
    using assms unfolding r F(4) F(2) unfolding F(1) by (simp add: reset_events_def)
  have "ap_client (reset_interface i g) = ap_client g" for i and g :: "('a, 'b) wlh_rtt_host_impl"
    by (simp add: reset_interface_def Let_def wlh_rtt_report_event_def)
  then show "ap_clients (wlh_rtt_wlan_reset h) = 0"
    "ap_client (wlh_rtt_wlan_reset h) = replicate 4 ap_client_zero @ drop 4 (ap_client h)"
    by (simp_all add: wlh_rtt_wlan_reset_def u wlh_rtt_ap_client_clear_def)
qed

subsection \<open>Properties\<close>

text \<open>
  What a station may join and what an access point may be, and the security on the wire. A network is open without a key, or has a key of 8 to 63 bytes; an access
  point is open or WPA2 and not hidden. The names have 1 to 32 bytes.
\<close>

definition wpa_security :: "rt_wlan_security set" where
  "wpa_security = {SECURITY_WPA_AES_PSK, SECURITY_WPA_TKIP_PSK, SECURITY_WPA2_AES_PSK, SECURITY_WPA2_TKIP_PSK, SECURITY_WPA2_MIXED_PSK}"

definition key_fits :: "rt_wlan_security \<Rightarrow> u8 \<Rightarrow> bool" where
  "key_fits sec n \<longleftrightarrow> (if sec = SECURITY_OPEN then n = 0 else 8 \<le> unat n \<and> unat n \<le> 63)"

definition joinable :: "rt_sta_info \<Rightarrow> bool" where
  "joinable sta \<longleftrightarrow> unat (sta_ssid_len sta) \<in> {1..32} \<and> sta_security sta \<in> insert SECURITY_OPEN wpa_security \<and> key_fits (sta_security sta) (sta_key_len sta)"

definition ap_security_offered :: "rt_wlan_security set" where
  "ap_security_offered = {SECURITY_OPEN, SECURITY_WPA2_AES_PSK, SECURITY_WPA2_TKIP_PSK}"

definition ap_refusal :: "rt_ap_info \<Rightarrow> int option" where
  "ap_refusal ap =
   (if apinfo_security ap \<notin> insert SECURITY_OPEN wpa_security then Some (- RT_ENOSYS)
    else if unat (apinfo_ssid_len ap) \<notin> {1..32} \<or> unat (apinfo_channel ap) \<notin> {1..14} then Some (- RT_EINVAL)
    else if apinfo_hidden ap \<or> apinfo_security ap \<notin> ap_security_offered then Some (- RT_ENOSYS)
    else if \<not> key_fits (apinfo_security ap) (apinfo_key_len ap) then Some (- RT_EINVAL)
    else None)"

fun wire_code :: "'c core_api \<Rightarrow> rt_wlan_security \<Rightarrow> u32" where
  "wire_code K SECURITY_WPA_AES_PSK = WIRE_SECURITY_WPA_PSK K"
| "wire_code K SECURITY_WPA_TKIP_PSK = WIRE_SECURITY_WPA_PSK K"
| "wire_code K SECURITY_WPA2_AES_PSK = WIRE_SECURITY_WPA2_PSK K"
| "wire_code K SECURITY_WPA2_TKIP_PSK = WIRE_SECURITY_WPA2_PSK K"
| "wire_code K SECURITY_WPA2_MIXED_PSK = WIRE_SECURITY_WPA_WPA2_PSK K"
| "wire_code K _ = WIRE_SECURITY_OPEN K"

lemma to_wire_known:
  "wlh_rtt_security_to_wire K sec True = (if sec \<in> insert SECURITY_OPEN wpa_security then (RT_EOK, Some (wire_code K sec)) else (- RT_ENOSYS, None))"
  by (cases sec) (simp_all add: wlh_rtt_security_to_wire_def wpa_security_def)

lemma wire_code_open:
  assumes "wire_enums_distinct K" "sec \<in> insert SECURITY_OPEN wpa_security"
  shows "wire_code K sec = WIRE_SECURITY_OPEN K \<longleftrightarrow> sec = SECURITY_OPEN"
    "wire_code K sec = WIRE_SECURITY_WPA2_PSK K \<longleftrightarrow> sec \<in> {SECURITY_WPA2_AES_PSK, SECURITY_WPA2_TKIP_PSK}"
  using assms by (auto simp: wire_enums_distinct_def wpa_security_def)

lemma byte_bounds: "(v :: u8) = 0 \<longleftrightarrow> unat v < 1" "v > 32 \<longleftrightarrow> unat v > 32" "v > 63 \<longleftrightarrow> unat v > 63" "v < 8 \<longleftrightarrow> unat v < 8"
  by (simp_all add: word_less_nat_alt unat_eq_zero)

lemma join_checks:
  assumes "wire_enums_distinct K"
  shows "wlan_join K (Some (Some i)) (Some sta) h =
    (if \<not> joinable sta then (- RT_EINVAL, h)
     else case wlh_rtt_request_begin h i WLH_RTT_REQUEST_CONNECT True of (g, completion, h') \<Rightarrow>
       if g = 0 then (- RT_EBUSY, h')
       else core_request K completion (core_wifi_connect K
         \<lparr> cp_ssid = take (unat (sta_ssid_len sta)) (sta_ssid_val sta), cp_credential = take (unat (sta_key_len sta)) (sta_key_val sta),
           cp_security = wire_code K (sta_security sta), cp_timeout_ms = WLH_RTT_HOST_RPC_TIMEOUT_MS \<rparr> (the completion)) h')"
  using wire_code_open(1) [OF assms, of "sta_security sta"]
  by (auto simp: wlan_join_def interface_from_device_def to_wire_known joinable_def key_fits_def byte_bounds Let_def)

lemma softap_valid:
  assumes "wire_enums_distinct K" "apinfo_security ap \<in> insert SECURITY_OPEN wpa_security"
  shows "wlh_rtt_softap_validate (ucast (apinfo_ssid_len ap)) (ucast (apinfo_key_len ap)) (wire_code K (apinfo_security ap))
      (ucast (apinfo_channel ap)) (apinfo_hidden ap) (WIRE_SECURITY_OPEN K) (WIRE_SECURITY_WPA2_PSK K) =
    (case ap_refusal ap of None \<Rightarrow> WLH_RTT_VALID | Some r \<Rightarrow> if r = - RT_ENOSYS then WLH_RTT_UNSUPPORTED else WLH_RTT_INVALID)"
proof -
  have b: "unat (ucast v :: u32) = unat v" for v :: u8
    by (simp add: unsigned_ucast_eq take_bit_nat_eq_self unsigned_less [of v, where ?'a = nat, THEN less_trans])
  have c: "unat (ucast v :: u32) = unat v" for v :: u16
    by (simp add: unsigned_ucast_eq take_bit_nat_eq_self unsigned_less [of v, where ?'a = nat, THEN less_trans])
  have z: "(ucast v :: u32) = 0 \<longleftrightarrow> v = 0" for v :: u8 using b [of v] by (metis unsigned_0 unsigned_eq_0_iff)
  have name: "(ucast (l :: u8) = (0 :: u32) \<or> ucast l > (32 :: u32) \<or> ucast (c :: u16) < (1 :: u32) \<or> ucast c > (14 :: u32)) =
      (unat l \<notin> {1..32} \<or> unat c \<notin> {1..14})" for l c
    using unat_gt_0 [of l] by (auto simp: Suc_le_eq word_less_nat_alt b c z simp del: word_less_1)
  have key: "(ucast (v :: u8) \<ge> (8 :: u32) \<and> ucast v \<le> (63 :: u32)) = (8 \<le> unat v \<and> unat v \<le> 63)" for v by (simp add: word_le_nat_alt b)
  have "ap_refusal ap = (if N then Some (- RT_EINVAL) else if H \<or> \<not> P \<and> \<not> W then Some (- RT_ENOSYS)
      else if P then (if Z then None else Some (- RT_EINVAL)) else if L then None else Some (- RT_EINVAL))"
    if "N \<longleftrightarrow> unat (apinfo_ssid_len ap) \<notin> {1..32} \<or> unat (apinfo_channel ap) \<notin> {1..14}" "H \<longleftrightarrow> apinfo_hidden ap"
      "P \<longleftrightarrow> apinfo_security ap = SECURITY_OPEN" "W \<longleftrightarrow> apinfo_security ap \<in> {SECURITY_WPA2_AES_PSK, SECURITY_WPA2_TKIP_PSK}"
      "Z \<longleftrightarrow> apinfo_key_len ap = 0" "L \<longleftrightarrow> 8 \<le> unat (apinfo_key_len ap) \<and> unat (apinfo_key_len ap) \<le> 63" for N H P W Z L
    using assms(2) that(3,4) unfolding ap_refusal_def ap_security_offered_def key_fits_def that(1,2,5,6) [symmetric] by auto
  note r = this [OF refl refl refl refl refl refl]
  show ?thesis unfolding wlh_rtt_softap_validate_def name key wire_code_open [OF assms] r unfolding z by (simp del: atLeastAtMost_iff)
qed

lemma softap_checks:
  assumes "wire_enums_distinct K"
  shows "wlan_softap K (Some (Some i)) (Some ap) h =
    (case ap_refusal ap of Some r \<Rightarrow> (r, h)
     | None \<Rightarrow> (case wlh_rtt_request_begin h i WLH_RTT_REQUEST_AP_START True of (g, completion, h') \<Rightarrow>
       if g = 0 then (- RT_EBUSY, h')
       else core_request K completion (core_wifi_start_ap K
         \<lparr> ap_ssid = take (unat (apinfo_ssid_len ap)) (apinfo_ssid_val ap), ap_credential = take (unat (apinfo_key_len ap)) (apinfo_key_val ap),
           ap_security = wire_code K (apinfo_security ap), ap_channel = ucast (apinfo_channel ap), ap_max_clients = WLH_RTT_HOST_AP_MAX_CLIENTS \<rparr>
         (the completion)) h'))"
proof (cases "apinfo_security ap \<in> insert SECURITY_OPEN wpa_security")
  case True
  have "ap_refusal ap \<in> {None, Some (- RT_ENOSYS), Some (- RT_EINVAL)}" by (simp add: ap_refusal_def)
  then show ?thesis using True softap_valid [OF assms True]
    by (auto simp: wlan_softap_def interface_from_device_def to_wire_known Let_def)
next
  case False
  then show ?thesis by (auto simp: wlan_softap_def interface_from_device_def to_wire_known ap_refusal_def Let_def)
qed

text \<open>
  C31: In every reachable state and on either interface, the five request operations of the WLAN device behave alike once their arguments
  are accepted: while a request is active on the interface or its slots are used up they return -RT_EBUSY and change
  nothing; a request the Core refuses returns -RT_ERROR and leaves neither an active request nor
  an extra slot in use; a request the Core accepts is active with the next generation, which for a
  scan is the scan_id given to the Core. The Core gets the network as the caller described it. A scan is for the station only, a network to join must be \<open>joinable\<close>
  (otherwise -RT_EINVAL), and an access point with hidden name or security other than open and WPA2 is refused with -RT_ENOSYS, one with a wrong name,
  channel or key with -RT_EINVAL; a refused request changes nothing.
\<close>

theorem wlan_requests_all_or_nothing:
  assumes "req_reach K n h" and "i < WLH_RTT_INTERFACE_COUNT" and "n + 1 < 2 ^ 32 - 1" and "wire_enums_distinct K"
  shows "(if if_id (interfaces h ! i) = WLH_RTT_INTERFACE_STA
      then request_outcome K n i WLH_RTT_REQUEST_SCAN (\<lambda>g. core_wifi_scan K \<lparr> sp_scan_id = g, sp_max_results = 50,
          sp_ssid = (case scan_info of Some (len, val) \<Rightarrow> if len \<noteq> 0 then Some (take (unat len) val) else None | None \<Rightarrow> None) \<rparr>) h
        (wlan_scan K (Some (Some i)) scan_info h)
      else wlan_scan K (Some (Some i)) scan_info h = (- RT_EINVAL, h)) \<and>
    (if joinable sta
      then request_outcome K n i WLH_RTT_REQUEST_CONNECT (\<lambda>g. core_wifi_connect K
          \<lparr> cp_ssid = take (unat (sta_ssid_len sta)) (sta_ssid_val sta), cp_credential = take (unat (sta_key_len sta)) (sta_key_val sta),
            cp_security = wire_code K (sta_security sta), cp_timeout_ms = WLH_RTT_HOST_RPC_TIMEOUT_MS \<rparr>) h
        (wlan_join K (Some (Some i)) (Some sta) h)
      else wlan_join K (Some (Some i)) (Some sta) h = (- RT_EINVAL, h)) \<and>
    request_outcome K n i WLH_RTT_REQUEST_DISCONNECT (\<lambda>g. core_wifi_disconnect K) h (wlan_disconnect K (Some (Some i)) h) \<and>
    (case ap_refusal ap of
       None \<Rightarrow> request_outcome K n i WLH_RTT_REQUEST_AP_START (\<lambda>g. core_wifi_start_ap K
           \<lparr> ap_ssid = take (unat (apinfo_ssid_len ap)) (apinfo_ssid_val ap), ap_credential = take (unat (apinfo_key_len ap)) (apinfo_key_val ap),
             ap_security = wire_code K (apinfo_security ap), ap_channel = ucast (apinfo_channel ap), ap_max_clients = 4 \<rparr>) h
         (wlan_softap K (Some (Some i)) (Some ap) h)
     | Some r \<Rightarrow> wlan_softap K (Some (Some i)) (Some ap) h = (r, h)) \<and>
    request_outcome K n i WLH_RTT_REQUEST_AP_STOP (\<lambda>g. core_wifi_stop_ap K) h (wlan_ap_stop K (Some (Some i)) h)"
proof (intro conjI)
  note out = request_op_outcome [OF reach_request_inv [OF assms(1)] assms(2,3)]
  show "if if_id (interfaces h ! i) = 0
      then request_outcome K n i WLH_RTT_REQUEST_SCAN (\<lambda>g. core_wifi_scan K \<lparr> sp_scan_id = g, sp_max_results = 50,
          sp_ssid = (case scan_info of Some (len, val) \<Rightarrow> if len \<noteq> 0 then Some (take (unat len) val) else None | None \<Rightarrow> None) \<rparr>) h
        (wlan_scan K (Some (Some i)) scan_info h)
      else wlan_scan K (Some (Some i)) scan_info h = (- RT_EINVAL, h)"
    by (auto intro!: out simp: wlan_scan_def interface_from_device_def case_prod_beta)
  show "if joinable sta
      then request_outcome K n i WLH_RTT_REQUEST_CONNECT (\<lambda>g. core_wifi_connect K
          \<lparr> cp_ssid = take (unat (sta_ssid_len sta)) (sta_ssid_val sta), cp_credential = take (unat (sta_key_len sta)) (sta_key_val sta),
            cp_security = wire_code K (sta_security sta), cp_timeout_ms = WLH_RTT_HOST_RPC_TIMEOUT_MS \<rparr>) h
        (wlan_join K (Some (Some i)) (Some sta) h)
      else wlan_join K (Some (Some i)) (Some sta) h = (- RT_EINVAL, h)"
    by (auto intro!: out simp: join_checks [OF assms(4)])
  show "request_outcome K n i WLH_RTT_REQUEST_DISCONNECT (\<lambda>g. core_wifi_disconnect K) h (wlan_disconnect K (Some (Some i)) h)"
    by (rule out) (simp add: wlan_disconnect_def interface_from_device_def)
  show "case ap_refusal ap of
       None \<Rightarrow> request_outcome K n i WLH_RTT_REQUEST_AP_START (\<lambda>g. core_wifi_start_ap K
           \<lparr> ap_ssid = take (unat (apinfo_ssid_len ap)) (apinfo_ssid_val ap), ap_credential = take (unat (apinfo_key_len ap)) (apinfo_key_val ap),
             ap_security = wire_code K (apinfo_security ap), ap_channel = ucast (apinfo_channel ap), ap_max_clients = 4 \<rparr>) h
         (wlan_softap K (Some (Some i)) (Some ap) h)
     | Some r \<Rightarrow> wlan_softap K (Some (Some i)) (Some ap) h = (r, h)"
    by (auto intro!: out simp: softap_checks [OF assms(4)] split: option.split)
  show "request_outcome K n i WLH_RTT_REQUEST_AP_STOP (\<lambda>g. core_wifi_stop_ap K) h (wlan_ap_stop K (Some (Some i)) h)"
    by (rule out) (simp add: wlan_ap_stop_def interface_from_device_def)
qed

text \<open>An access point is started on its interface.\<close>

definition sample_ap :: rt_ap_info where
  "sample_ap = \<lparr> apinfo_ssid_len = 2, apinfo_ssid_val = [65, 66], apinfo_key_len = 8, apinfo_key_val = replicate 8 49, apinfo_hidden = False,
     apinfo_channel = 6, apinfo_security = SECURITY_WPA2_AES_PSK \<rparr>"

theorem wlan_requests_all_or_nothing_witness:
  "\<exists>h'. wlan_softap sample_core (Some (Some 1)) (Some sample_ap) scan_cancelled = (RT_EOK, h') \<and>
     request_at h' 1 = \<lparr> req_kind = WLH_RTT_REQUEST_AP_START, req_generation = 2, req_active = True \<rparr>"
proof -
  have d: "wire_enums_distinct sample_core" by (simp add: wire_enums_distinct_def sample_core_def)
  have a: "ap_refusal sample_ap = None" by (simp add: ap_refusal_def sample_ap_def wpa_security_def ap_security_offered_def key_fits_def)
  have "\<not> req_active (request_at scan_cancelled 1)" "\<not> in_use (slot_at scan_cancelled (1, 0))" "(0 :: nat) < 4"
    by (simp_all add: scan_cancelled_def request_eval Let_def)
  then have f: "\<not> (req_active (request_at scan_cancelled 1) \<or> (\<forall>k<4. in_use (slot_at scan_cancelled (1, k))))" by blast
  have r: "request_outcome sample_core 1 1 WLH_RTT_REQUEST_AP_START (\<lambda>g. core_wifi_start_ap sample_core
      \<lparr> ap_ssid = take (unat (apinfo_ssid_len sample_ap)) (apinfo_ssid_val sample_ap),
        ap_credential = take (unat (apinfo_key_len sample_ap)) (apinfo_key_val sample_ap),
        ap_security = wire_code sample_core (apinfo_security sample_ap), ap_channel = ucast (apinfo_channel sample_ap), ap_max_clients = 4 \<rparr>) scan_cancelled
    (wlan_softap sample_core (Some (Some 1)) (Some sample_ap) scan_cancelled)"
    using wlan_requests_all_or_nothing [OF scan_cancelled_reach _ _ d, where i = 1 and ap = sample_ap] a by simp
  obtain rc h' where w: "wlan_softap sample_core (Some (Some 1)) (Some sample_ap) scan_cancelled = (rc, h')" by (metis surj_pair)
  show ?thesis using r unfolding request_outcome_def if_not_P [OF f] w by (auto simp: sample_core_def)
qed

text \<open>
  The security conversions agree on what both sides know: converting a known wire value to the
  RT-Thread enumeration and back is the identity, an unknown wire value becomes SECURITY_UNKNOWN,
  which is refused on the way back, and converting an RT-Thread value to the wire and back gives
  the same value up to TKIP being replaced by AES.
\<close>

theorem security_roundtrip:
  assumes "wire_enums_distinct K"
  shows "(if w \<in> {WIRE_SECURITY_OPEN K, WIRE_SECURITY_WPA_PSK K, WIRE_SECURITY_WPA2_PSK K, WIRE_SECURITY_WPA_WPA2_PSK K}
      then wlh_rtt_security_to_wire K (wlh_rtt_security_from_wire K w) True = (RT_EOK, Some w)
      else wlh_rtt_security_from_wire K w = SECURITY_UNKNOWN \<and>
        wlh_rtt_security_to_wire K (wlh_rtt_security_from_wire K w) True = (- RT_ENOSYS, None)) \<and>
    (case wlh_rtt_security_to_wire K s True of
       (r, Some w') \<Rightarrow> r = RT_EOK \<and> wlh_rtt_security_from_wire K w' =
         (case s of SECURITY_WPA_TKIP_PSK \<Rightarrow> SECURITY_WPA_AES_PSK | SECURITY_WPA2_TKIP_PSK \<Rightarrow> SECURITY_WPA2_AES_PSK | _ \<Rightarrow> s)
     | (r, None) \<Rightarrow> r = - RT_ENOSYS)"
  using assms
  by (cases s) (auto simp: wire_enums_distinct_def wlh_rtt_security_to_wire_def wlh_rtt_security_from_wire_def)

theorem security_roundtrip_example:
  "wlh_rtt_security_to_wire sample_core (wlh_rtt_security_from_wire sample_core 2) True = (RT_EOK, Some 2)"
  using security_roundtrip [of sample_core 2 SECURITY_OPEN] by (simp add: wire_enums_distinct_def sample_core_def)

text \<open>
  Every frame handed to wlan_send on an interface is accounted for exactly once: it is passed
  to the Core's send function of that interface and counted as sent, or counted as dropped with
  -RT_EIO; it is never passed to the Core when it is empty, too long, or the interface or the Core
  is not ready. No other interface is touched.
\<close>

theorem wlan_send_accounting:
  assumes "i < length (interfaces h)"
  shows "let (rc, h') = wlan_send K (Some (Some i)) (Some data) len h;
       ready = (1 \<le> len \<and> len \<le> int WLH_RTT_ETHERNET_MAX_FRAME \<and> if_active (interfaces h ! i) \<and>
                core_state K (core h) = STATE_READY K);
       send = (if if_id (interfaces h ! i) = WLH_RTT_INTERFACE_STA then core_ethernet_sta_send K else core_ethernet_ap_send K);
       (res, c) = send (take (nat len) data) (core h);
       ok = (ready \<and> res = WLH_HOST_OK K)
     in rc = (if ok then RT_EOK else - RT_EIO) \<and> core h' = (if ready then c else core h) \<and>
        tx_frames (stats (interfaces h' ! i)) = tx_frames (stats (interfaces h ! i)) + (if ok then 1 else 0) \<and>
        tx_dropped (stats (interfaces h' ! i)) = tx_dropped (stats (interfaces h ! i)) + (if ok then 0 else 1) \<and>
        (\<forall>j. j \<noteq> i \<longrightarrow> interfaces h' ! j = interfaces h ! j)"
proof -
  define send where "send = (if if_id (interfaces h ! i) = WLH_RTT_INTERFACE_STA then core_ethernet_sta_send K else core_ethernet_ap_send K)"
  obtain res c where s: "send (take (nat len) data) (core h) = (res, c)" by fastforce
  define ready where "ready \<longleftrightarrow> 1 \<le> len \<and> len \<le> int WLH_RTT_ETHERNET_MAX_FRAME \<and> if_active (interfaces h ! i) \<and>
      core_state K (core h) = STATE_READY K"
  have e: "(if if_id (interfaces h ! i) = WLH_RTT_INTERFACE_STA then core_ethernet_sta_send K (take (nat len) data) (core h)
      else core_ethernet_ap_send K (take (nat len) data) (core h)) = (res, c)"
    using s by (auto simp: send_def split: if_splits)
  have "wlan_send K (Some (Some i)) (Some data) len h =
      (if \<not> ready then (- RT_EIO, update_interface i count_dropped h)
       else if res \<noteq> WLH_HOST_OK K then (- RT_EIO, update_interface i count_dropped (h\<lparr> core := c \<rparr>))
       else (RT_EOK, update_interface i count_sent (h\<lparr> core := c \<rparr>)))"
    unfolding wlan_send_def interface_from_device_def option.case option.sel e
    by (auto simp: ready_def Let_def not_less not_le)
  then show ?thesis unfolding send_def [symmetric] ready_def [symmetric] Let_def s
    using assms by (simp add: count_dropped_def count_sent_def)
qed

theorem wlan_send_accounting_example:
  "let (rc, h') = wlan_send sample_core (Some (Some 0)) (Some [1, 2, 3]) 3 (update_interface 0 (\<lambda>f. f\<lparr> if_active := True \<rparr>) sample_host)
   in rc = RT_EOK \<and> tx_frames (stats (interfaces h' ! 0)) = 1 \<and> tx_dropped (stats (interfaces h' ! 0)) = 0"
  using wlan_send_accounting [of 0 "update_interface 0 (\<lambda>f. f\<lparr> if_active := True \<rparr>) sample_host" sample_core "[1, 2, 3]" 3]
  by (simp add: sample_core_def sample_host_def interface_zero_def update_interface_def case_prod_beta Let_def)

text \<open>
  C32: A reset makes every interface inactive without a pending request and empties the client table
  and its count, and it tells the WLAN layer of everything it cut off: for each interface in turn,
  what the request that was pending, if any, has come to (the end of the scan, CONNECT_FAIL, DISCONNECT, or AP_STOP, as for a failed
  completion), then the loss of the link, if it was up.
\<close>

theorem wlan_reset_reports_everything:
  assumes "length (interfaces h) = WLH_RTT_INTERFACE_COUNT" and "length (ap_client h) = WLH_RTT_HOST_AP_MAX_CLIENTS"
    and "i < WLH_RTT_INTERFACE_COUNT"
  shows "let h' = wlh_rtt_wlan_reset h in
     \<not> req_active (request_at h' i) \<and> \<not> if_active (interfaces h' ! i) \<and> \<not> st_active (stats (interfaces h' ! i)) \<and>
     completions (interfaces h' ! i) = completions (interfaces h ! i) \<and>
     ap_table_inv WLH_RTT_HOST_AP_MAX_CLIENTS (ap_client h') (ap_clients h') \<and> ap_clients h' = 0 \<and>
     indications h' = indications h @ reset_events h 0 @ reset_events h 1"
proof -
  have "ap_table_inv 4 (replicate 4 ap_client_zero) 0"
    by (simp add: ap_table_inv_def ap_client_zero_def)
  then show ?thesis using assms wlan_reset_fields [OF assms(1)]
    by (simp add: Let_def request_at_def clear_request_def)
qed

theorem wlan_reset_reports_everything_witness:
  "indications (wlh_rtt_wlan_reset (snd (snd (wlh_rtt_request_begin sample_host 0 WLH_RTT_REQUEST_CONNECT True)))) =
     [(0, RT_WLAN_DEV_EVT_CONNECT_FAIL, None)]"
  using wlan_reset_reports_everything [of "snd (snd (wlh_rtt_request_begin sample_host 0 WLH_RTT_REQUEST_CONNECT True))" 0]
  by (simp add: request_eval reset_events_def Let_def)

end
