(* ===== verification/Wlan_Rx.thy ===== *)
theory Wlan_Rx
  imports Host_State
begin

text \<open>
  The receive path, packages/wlh_rtt_host/wlan/wlh_rtt_wlan_rx.c: frames from the Core are copied
  into a block of the interface's pool and queued for the receive thread, which reports them to
  the WLAN layer and frees the block.

  The queue holds \<open>WLH_RTT_RX_QUEUE_DEPTH\<close> = 32 jobs of 4 bytes. What \<open>rt_malloc\<close>,
  \<open>rt_thread_create\<close>, \<open>rt_thread_startup\<close> and \<open>rt_wlan_dev_report_data\<close> return are arguments.
\<close>

abbreviation (input) SIZEOF_RX_JOB :: nat where "SIZEOF_RX_JOB \<equiv> 4"
abbreviation (input) RX_STORAGE :: nat where "RX_STORAGE \<equiv> 25600"

definition allocate_block :: "nat \<Rightarrow> ('c, 't) wlh_rtt_host_impl \<Rightarrow> int \<times> ('c, 't) wlh_rtt_host_impl" where
  "allocate_block i host =
   (let (index, mask) = wlh_rtt_pool_take (Some (rx_free_mask (interfaces host ! i))) WLH_RTT_HOST_RX_POOL_PER_INTERFACE
    in (index, update_interface i (\<lambda>ifc. ifc\<lparr> rx_free_mask := the mask \<rparr>) host))"

definition free_block :: "nat \<Rightarrow> nat \<Rightarrow> ('c, 't) wlh_rtt_host_impl \<Rightarrow> ('c, 't) wlh_rtt_host_impl" where
  "free_block i index host =
   update_interface i (\<lambda>ifc. ifc\<lparr> rx_free_mask := the (wlh_rtt_pool_put (Some (rx_free_mask ifc)) index) \<rparr>) host"

text \<open>
  The part of \<open>rx_main\<close> after its guard: \<open>rc\<close> is what \<open>rt_wlan_dev_report_data\<close> returns; the
  frame is reported only when the interface is active.
\<close>

definition rx_deliver :: "int \<Rightarrow> wlh_rtt_rx_job \<Rightarrow> ('c, 't) wlh_rtt_host_impl \<Rightarrow> ('c, 't) wlh_rtt_host_impl" where
  "rx_deliver rc job host =
   (let i = unat (job_interface_id job);
        ifc = interfaces host ! i;
        frame = seg (the (rx_storage ifc)) (unat (job_block job) * WLH_RTT_ETHERNET_MAX_FRAME) (unat (job_length job));
        host = (if if_active ifc then host\<lparr> reported := reported host @ [(i, frame)] \<rparr> else host);
        host = (if \<not> if_active ifc \<or> rc \<noteq> RT_EOK
                then update_interface i (\<lambda>f. f\<lparr> stats := (stats f)\<lparr> rx_delivery_failed := rx_delivery_failed (stats f) + 1 \<rparr> \<rparr>) host
                else update_interface i (\<lambda>f. f\<lparr> stats := (stats f)\<lparr> rx_frames := rx_frames (stats f) + 1 \<rparr> \<rparr>) host)
    in free_block i (unat (job_block job)) host)"

text \<open>One round of the loop of \<open>rx_main\<close>.\<close>

definition rx_main :: "int \<Rightarrow> ('c, 't) wlh_rtt_host_impl \<Rightarrow> ('c, 't) wlh_rtt_host_impl round" where
  "rx_main rc host =
   (if \<not> initialized host then Ends
    else case rx_queue host of
      None \<Rightarrow> Crash
    | Some q \<Rightarrow>
        (case rt_mq_recv q SIZEOF_RX_JOB RT_WAITING_FOREVER of
           Blocked \<Rightarrow> Suspended
         | Fault \<Rightarrow> Crash
         | Returns r job q' \<Rightarrow>
             let host = host\<lparr> rx_queue := Some q' \<rparr> in
             (case job of
                None \<Rightarrow> Round host
              | Some job \<Rightarrow>
                  if r \<noteq> RT_EOK \<or> unat (job_interface_id job) \<ge> WLH_RTT_INTERFACE_COUNT then Round host
                  else Round (rx_deliver rc job host))))"

text \<open>\<open>mem\<close> holds what the two allocations return.\<close>

fun rx_init_pools :: "(nat \<times> u8 list option) list \<Rightarrow> ('c, 't) wlh_rtt_host_impl \<Rightarrow> int \<times> ('c, 't) wlh_rtt_host_impl" where
  "rx_init_pools [] host = (RT_EOK, host)"
| "rx_init_pools ((i, m) # rest) host =
   (let host = update_interface i (\<lambda>ifc. ifc\<lparr> rx_storage := m \<rparr>) host in
    if m = None then (- RT_ENOMEM, host)
    else rx_init_pools rest (update_interface i
           (\<lambda>ifc. ifc\<lparr> rx_free_mask := wlh_rtt_pool_initial_mask WLH_RTT_HOST_RX_POOL_PER_INTERFACE \<rparr>) host))"

definition wlh_rtt_wlan_rx_init ::
  "bool \<times> bool \<Rightarrow> u8 list option \<times> u8 list option \<Rightarrow> bool \<Rightarrow> int \<Rightarrow> ('c, 't) wlh_rtt_host_impl \<Rightarrow> int \<times> ('c, 't) wlh_rtt_host_impl" where
  "wlh_rtt_wlan_rx_init mq_ok mem thread_ok startup_rc host =
   (let host = host\<lparr> rx_queue := rt_mq_create (fst mq_ok) (snd mq_ok) SIZEOF_RX_JOB WLH_RTT_RX_QUEUE_DEPTH \<rparr> in
    if rx_queue host = None then (- RT_ENOMEM, host)
    else case rx_init_pools [(0, fst mem), (1, snd mem)] host of
      (r, host) \<Rightarrow>
        if r \<noteq> RT_EOK then (r, host)
        else let host = host\<lparr> rx_thread := thread_ok \<rparr> in
          if \<not> rx_thread host then (- RT_ENOMEM, host)
          else (startup_rc, host))"

definition wlh_rtt_wlan_rx_deinit :: "('c, 't) wlh_rtt_host_impl \<Rightarrow> ('c, 't) wlh_rtt_host_impl" where
  "wlh_rtt_wlan_rx_deinit host =
   (let host = fold (\<lambda>i. update_interface i (\<lambda>ifc. ifc\<lparr> rx_storage := None \<rparr>)) [0..<WLH_RTT_INTERFACE_COUNT] host
    in host\<lparr> rx_thread := False, rx_queue := None \<rparr>)"

definition wlh_rtt_wlan_rx_enqueue ::
  "u8 \<Rightarrow> u8 list option \<Rightarrow> nat \<Rightarrow> ('c, 't) wlh_rtt_host_impl \<Rightarrow> ('c, 't) wlh_rtt_host_impl" where
  "wlh_rtt_wlan_rx_enqueue interface_id frame len host =
   (case frame of
      None \<Rightarrow> host
    | Some data \<Rightarrow>
        if unat interface_id \<ge> WLH_RTT_INTERFACE_COUNT \<or> len < 1 \<or> len > WLH_RTT_ETHERNET_MAX_FRAME then host
        else
          let i = unat interface_id;
              (block, host) = allocate_block i host
          in if block < 0
             then update_interface i (\<lambda>f. f\<lparr> stats := (stats f)\<lparr> rx_pool_empty := rx_pool_empty (stats f) + 1 \<rparr> \<rparr>) host
             else
               let host = update_interface i (\<lambda>f. f\<lparr> rx_storage :=
                     map_option (\<lambda>s. blit s (nat block * WLH_RTT_ETHERNET_MAX_FRAME) (take len data)) (rx_storage f) \<rparr>) host;
                   job = \<lparr> job_interface_id = interface_id, job_block = of_int block, job_length = of_nat len \<rparr>;
                   (rc, q) = rt_mq_send (the (rx_queue host)) job SIZEOF_RX_JOB;
                   host = host\<lparr> rx_queue := Some q \<rparr>
               in if rc \<noteq> RT_EOK
                  then free_block i (nat block)
                         (update_interface i (\<lambda>f. f\<lparr> stats := (stats f)\<lparr> rx_queue_full := rx_queue_full (stats f) + 1 \<rparr> \<rparr>) host)
                  else host)"

subsection \<open>Invariant and abstraction\<close>

definition rx_jobs :: "('c, 't) wlh_rtt_host_impl \<Rightarrow> wlh_rtt_rx_job list" where
  "rx_jobs h = mq_contents (the (rx_queue h))"

definition job_blocks :: "nat \<Rightarrow> wlh_rtt_rx_job list \<Rightarrow> nat list" where
  "job_blocks i jobs = map (\<lambda>j. unat (job_block j)) (filter (\<lambda>j. unat (job_interface_id j) = i) jobs)"

definition job_ok :: "wlh_rtt_rx_job \<Rightarrow> bool" where
  "job_ok j \<longleftrightarrow> unat (job_interface_id j) < WLH_RTT_INTERFACE_COUNT \<and>
     unat (job_block j) < WLH_RTT_HOST_RX_POOL_PER_INTERFACE \<and> unat (job_length j) \<le> WLH_RTT_ETHERNET_MAX_FRAME"

text \<open>
  The pool and the queue of an interface: the blocks queued are distinct, and a block is queued
  exactly when it is not free, so none is lost.
\<close>

definition pool_ok :: "wlh_rtt_rx_job list \<Rightarrow> nat \<Rightarrow> wlh_rtt_interface \<Rightarrow> bool" where
  "pool_ok jobs i ifc \<longleftrightarrow> distinct (job_blocks i jobs) \<and>
     pool_free (rx_free_mask ifc) = {..<WLH_RTT_HOST_RX_POOL_PER_INTERFACE} - set (job_blocks i jobs) \<and>
     (\<exists>s. rx_storage ifc = Some s \<and> length s = RX_STORAGE)"

definition rx_inv :: "('c, 't) wlh_rtt_host_impl \<Rightarrow> bool" where
  "rx_inv h \<longleftrightarrow> length (interfaces h) = WLH_RTT_INTERFACE_COUNT \<and>
     (\<exists>q. rx_queue h = Some q \<and> mq_inv_n SIZEOF_RX_JOB q \<and> max_msgs q = WLH_RTT_RX_QUEUE_DEPTH) \<and>
     (\<forall>j\<in>set (rx_jobs h). job_ok j) \<and>
     (\<forall>i<WLH_RTT_INTERFACE_COUNT. pool_ok (rx_jobs h) i (interfaces h ! i))"

text \<open>What the receive path promises: a queue of interface numbers and frames.\<close>

definition job_frame :: "('c, 't) wlh_rtt_host_impl \<Rightarrow> wlh_rtt_rx_job \<Rightarrow> nat \<times> u8 list" where
  "job_frame h j = (unat (job_interface_id j),
     seg (the (rx_storage (interfaces h ! unat (job_interface_id j))))
       (unat (job_block j) * WLH_RTT_ETHERNET_MAX_FRAME) (unat (job_length j)))"

definition rx_pending :: "('c, 't) wlh_rtt_host_impl \<Rightarrow> (nat \<times> u8 list) list" where
  "rx_pending h = map (job_frame h) (rx_jobs h)"

subsection \<open>Jobs and blocks\<close>

lemma job_blocks_simps [simp]:
  "job_blocks i [] = []"
  "job_blocks i (j # js) = (if unat (job_interface_id j) = i then unat (job_block j) # job_blocks i js else job_blocks i js)"
  "job_blocks i (js @ js') = job_blocks i js @ job_blocks i js'"
  by (simp_all add: job_blocks_def)

lemma jobs_partition:
  "\<forall>j\<in>set jobs. job_ok j \<Longrightarrow> length jobs = length (job_blocks 0 jobs) + length (job_blocks 1 jobs)"
  by (induction jobs) (auto simp: job_ok_def less_2_cases_iff)

lemma job_blocks_bound:
  assumes "\<forall>j\<in>set jobs. job_ok j" "distinct (job_blocks i jobs)"
  shows "set (job_blocks i jobs) \<subseteq> {..<16}" and "length (job_blocks i jobs) \<le> 16"
proof -
  show s: "set (job_blocks i jobs) \<subseteq> {..<16}" using assms(1) by (auto simp: job_blocks_def job_ok_def)
  show "length (job_blocks i jobs) \<le> 16" using card_mono [OF _ s] distinct_card [OF assms(2)] by simp
qed

lemma in_job_blocks:
  "j \<in> set jobs \<Longrightarrow> unat (job_block j) \<in> set (job_blocks (unat (job_interface_id j)) jobs)"
  by (auto simp: job_blocks_def)

text \<open>A block is free, so the jobs do not fill the queue.\<close>

lemma queue_has_room:
  assumes "rx_inv h" "i < WLH_RTT_INTERFACE_COUNT" "pool_free (rx_free_mask (interfaces h ! i)) \<noteq> {}"
  shows "length (rx_jobs h) < WLH_RTT_RX_QUEUE_DEPTH"
proof -
  have ok: "\<forall>j\<in>set (rx_jobs h). job_ok j" and p: "\<And>k. k < 2 \<Longrightarrow> pool_ok (rx_jobs h) k (interfaces h ! k)"
    using assms(1) by (auto simp: rx_inv_def)
  have le: "length (job_blocks k (rx_jobs h)) \<le> 16" if "k < 2" for k
    using job_blocks_bound(2) [OF ok] p [OF that] by (simp add: pool_ok_def)
  have "set (job_blocks i (rx_jobs h)) \<subset> {..<16}"
    using assms(2,3) p [of i] job_blocks_bound(1) [OF ok, of i] by (auto simp: pool_ok_def)
  then have "card (set (job_blocks i (rx_jobs h))) < 16" using psubset_card_mono [of "{..<16 :: nat}"] by simp
  then have "length (job_blocks i (rx_jobs h)) < 16"
    using distinct_card p [OF assms(2)] by (metis pool_ok_def)
  then show ?thesis using jobs_partition [OF ok] le [of 0] le [of 1] assms(2) by (auto simp: less_2_cases_iff)
qed

lemma unat_block: "b < 16 \<Longrightarrow> unat (of_int (int b) :: u8) = b"
  by (simp add: unsigned_of_nat take_bit_nat_eq_self)

lemma unat_len: "n \<le> 1600 \<Longrightarrow> unat (of_nat n :: u16) = n"
  by (simp add: unsigned_of_nat take_bit_nat_eq_self)

lemma block_ranges: "b < 16 \<Longrightarrow> n \<le> 1600 \<Longrightarrow> b * 1600 + n \<le> (25600 :: nat)"
  by linarith

text \<open>Writing one block leaves the frames in the other blocks of the storage.\<close>

lemma other_blocks_kept:
  assumes "length s = 25600" "b < 16" "b' < 16" "b \<noteq> b'" "length d \<le> 1600" "n \<le> 1600"
  shows "seg (blit s (b * 1600) d) (b' * 1600) n = seg s (b' * 1600) n"
proof (rule seg_blit_disjoint)
  show "b * 1600 + length d \<le> length s" "b' * 1600 + n \<le> length s" using assms by linarith+
  show "b' * 1600 + n \<le> b * 1600 \<or> b * 1600 + length d \<le> b' * 1600" using assms(4,5,6) by linarith
qed

subsection \<open>Enqueueing\<close>

lemma allocate_block_cases:
  assumes "rx_inv h" "i < WLH_RTT_INTERFACE_COUNT"
  obtains (empty) "pool_free (rx_free_mask (interfaces h ! i)) = {}" "allocate_block i h = (- 1, h)"
  | (block) b m where "b < WLH_RTT_HOST_RX_POOL_PER_INTERFACE" "b \<in> pool_free (rx_free_mask (interfaces h ! i))"
      "pool_free m = pool_free (rx_free_mask (interfaces h ! i)) - {b}"
      "allocate_block i h = (int b, update_interface i (\<lambda>f. f\<lparr> rx_free_mask := m \<rparr>) h)"
proof -
  let ?m = "rx_free_mask (interfaces h ! i)"
  have l: "i < length (interfaces h)" "pool_free ?m \<subseteq> {..<16}"
    using assms by (auto simp: rx_inv_def pool_ok_def)
  have a: "allocate_block i h = (fst (pool_take_n 16 ?m),
      update_interface i (\<lambda>f. f\<lparr> rx_free_mask := snd (pool_take_n 16 ?m) \<rparr>) h)"
    by (simp add: allocate_block_def case_prod_beta)
  from l(2) show thesis
  proof (cases rule: pool.take_cases)
    case exhausted
    then have "allocate_block i h = (- 1, h)" unfolding a by (simp add: update_interface_def)
    then show ?thesis using exhausted(1) by (rule empty [rotated])
  next
    case (block b)
    show ?thesis by (rule that(2) [OF block(2,1) block(4)]) (simp add: a block(3) [simplified])
  qed
qed

text \<open>What enqueueing changes besides the queue: nothing but the pool, the storage and a counter.\<close>

lemma enqueue_exhausted:
  assumes "rx_inv h" "unat iid < WLH_RTT_INTERFACE_COUNT" "1 \<le> len" "len \<le> WLH_RTT_ETHERNET_MAX_FRAME"
    and "pool_free (rx_free_mask (interfaces h ! unat iid)) = {}"
  shows "wlh_rtt_wlan_rx_enqueue iid (Some data) len h =
    update_interface (unat iid) (\<lambda>f. f\<lparr> stats := (stats f)\<lparr> rx_pool_empty := rx_pool_empty (stats f) + 1 \<rparr> \<rparr>) h"
proof -
  have "allocate_block (unat iid) h = (- 1, h)"
    using assms(1,2) by (cases rule: allocate_block_cases) (use assms(5) in auto)
  then show ?thesis using assms by (simp add: wlh_rtt_wlan_rx_enqueue_def)
qed

lemma enqueue_stored:
  assumes inv: "rx_inv h" and i: "unat iid < WLH_RTT_INTERFACE_COUNT"
    and len: "1 \<le> len" "len \<le> WLH_RTT_ETHERNET_MAX_FRAME" "len \<le> length data"
    and free: "pool_free (rx_free_mask (interfaces h ! unat iid)) \<noteq> {}"
  obtains b m q where "b < WLH_RTT_HOST_RX_POOL_PER_INTERFACE"
    "b \<in> pool_free (rx_free_mask (interfaces h ! unat iid))"
    "pool_free m = pool_free (rx_free_mask (interfaces h ! unat iid)) - {b}"
    "mq_inv_n SIZEOF_RX_JOB q" "max_msgs q = WLH_RTT_RX_QUEUE_DEPTH"
    "mq_contents q = rx_jobs h @ [\<lparr> job_interface_id = iid, job_block = of_int (int b), job_length = of_nat len \<rparr>]"
    "wlh_rtt_wlan_rx_enqueue iid (Some data) len h = (update_interface (unat iid) (\<lambda>f. f\<lparr> rx_free_mask := m,
       rx_storage := map_option (\<lambda>s. blit s (b * WLH_RTT_ETHERNET_MAX_FRAME) (take len data)) (rx_storage f) \<rparr>) h)
       \<lparr> rx_queue := Some q \<rparr>"
proof -
  obtain q0 where q0: "rx_queue h = Some q0" "mq_inv_n SIZEOF_RX_JOB q0" "max_msgs q0 = 32"
    using inv by (auto simp: rx_inv_def)
  have li: "unat iid < length (interfaces h)" using inv i by (simp add: rx_inv_def)
  have room: "length (mq_contents q0) < max_msgs q0"
    using queue_has_room [OF inv i free] q0 by (simp add: rx_jobs_def)
  from inv i show thesis
  proof (cases rule: allocate_block_cases)
    case empty
    then show ?thesis using free by simp
  next
    case (block b m)
    let ?job = "\<lparr> job_interface_id = iid, job_block = of_int (int b), job_length = of_nat len \<rparr>"
    define q where "q = snd (rt_mq_send q0 ?job 4)"
    have q: "rt_mq_send q0 ?job 4 = (RT_EOK, q)" "mq_contents q = mq_contents q0 @ [?job]"
      "mq_inv_n 4 q" "max_msgs q = 32"
      using mq.send_space [OF q0(2) room, of ?job] mq.send_inv [OF q0(2), of ?job] q0(3)
      unfolding q_def by (simp_all add: prod_eq_iff)
    show ?thesis
      by (rule that [OF block(1,2,3), of q])
        (use q q0 block(4) i len li in \<open>simp_all add: wlh_rtt_wlan_rx_enqueue_def rx_jobs_def update_interface_def Let_def\<close>)
  qed
qed

lemma enqueue_inv_pending:
  assumes inv: "rx_inv h" and i: "unat iid < WLH_RTT_INTERFACE_COUNT"
    and len: "1 \<le> len" "len \<le> WLH_RTT_ETHERNET_MAX_FRAME" "len \<le> length data"
    and free: "pool_free (rx_free_mask (interfaces h ! unat iid)) \<noteq> {}"
  shows "rx_inv (wlh_rtt_wlan_rx_enqueue iid (Some data) len h) \<and>
    rx_pending (wlh_rtt_wlan_rx_enqueue iid (Some data) len h) = rx_pending h @ [(unat iid, take len data)]"
  using inv i len free
proof (cases rule: enqueue_stored)
  case (1 b m q)
  let ?i = "unat iid" and ?h = "wlh_rtt_wlan_rx_enqueue iid (Some data) len h"
  let ?j = "\<lparr> job_interface_id = iid, job_block = of_int (int b), job_length = of_nat len \<rparr>"
  have li: "length (interfaces h) = 2" using inv by (simp add: rx_inv_def)
  have ok: "\<forall>j\<in>set (rx_jobs h). job_ok j" and p: "\<And>k. k < 2 \<Longrightarrow> pool_ok (rx_jobs h) k (interfaces h ! k)"
    using inv by (auto simp: rx_inv_def)
  obtain s where s: "rx_storage (interfaces h ! ?i) = Some s" "length s = 25600"
    using p [OF i] by (auto simp: pool_ok_def)
  have fit: "b * 1600 + length (take len data) \<le> length s" using 1(1) len s by simp
  have jobs: "rx_jobs ?h = rx_jobs h @ [?j]" using 1(6,7) by (simp add: rx_jobs_def)
  have st: "rx_storage (interfaces ?h ! k) = (if k = ?i then Some (blit s (b * 1600) (take len data)) else rx_storage (interfaces h ! k))"
    and mk: "rx_free_mask (interfaces ?h ! k) = (if k = ?i then m else rx_free_mask (interfaces h ! k))" for k
    using 1(7) i li s(1) by (simp_all add: update_interface_def)
  have nb: "b \<notin> set (job_blocks ?i (rx_jobs h))" using 1(2) p [OF i] by (auto simp: pool_ok_def)
  have jok: "job_ok ?j" using i 1(1) len unat_block [OF 1(1)] unat_len [OF len(2)] by (simp add: job_ok_def)
  have pk: "pool_ok (rx_jobs ?h) k (interfaces ?h ! k)" if "k < 2" for k
    using p [OF that] s(2) fit nb 1(1,3) unat_block [OF 1(1)] st [of k] mk [of k]
    unfolding pool_ok_def jobs by (cases "k = ?i") auto
  have "rx_inv ?h" unfolding rx_inv_def
    using pk jok ok jobs li 1(4,5,7) by auto
  moreover have "job_frame ?h j = job_frame h j" if "j \<in> set (rx_jobs h)" for j
  proof (cases "unat (job_interface_id j) = ?i")
    case True
    then have "unat (job_block j) \<noteq> b" using nb in_job_blocks [OF that] by auto
    moreover have "unat (job_block j) < 16" "unat (job_length j) \<le> 1600" using ok that by (auto simp: job_ok_def)
    ultimately show ?thesis using True s len(2) 1(1) unfolding job_frame_def st
      by (simp add: other_blocks_kept)
  next
    case False
    then show ?thesis by (simp add: job_frame_def st)
  qed
  moreover have "job_frame ?h ?j = (?i, take len data)"
  proof -
    have "length (take len data) = len" using len(3) by simp
    then show ?thesis using seg_blit [OF fit] unfolding job_frame_def st
      by (simp add: unat_block [OF 1(1), simplified] unat_len [OF len(2)])
  qed
  ultimately show ?thesis unfolding rx_pending_def jobs by simp
qed

subsection \<open>Delivering\<close>

lemma free_block_interfaces:
  "i < length (interfaces h) \<Longrightarrow> interfaces (free_block i b h) ! k =
    (if k = i then (interfaces h ! i)\<lparr> rx_free_mask := the (wlh_rtt_pool_put (Some (rx_free_mask (interfaces h ! i))) b) \<rparr>
     else interfaces h ! k)"
  by (simp add: free_block_def)

lemma rx_deliver_fields:
  assumes "unat (job_interface_id j) < length (interfaces h)"
  shows "length (interfaces (rx_deliver rc j h)) = length (interfaces h)"
    and "rx_queue (rx_deliver rc j h) = rx_queue h"
    and "rx_storage (interfaces (rx_deliver rc j h) ! k) = rx_storage (interfaces h ! k)"
    and "rx_free_mask (interfaces (rx_deliver rc j h) ! k) =
      (if k = unat (job_interface_id j) then the (wlh_rtt_pool_put (Some (rx_free_mask (interfaces h ! k))) (unat (job_block j)))
       else rx_free_mask (interfaces h ! k))"
    and "reported (rx_deliver rc j h) =
      reported h @ (if if_active (interfaces h ! unat (job_interface_id j)) then [job_frame h j] else [])"
  using assms by (simp_all add: rx_deliver_def Let_def free_block_def job_frame_def)

lemma deliver_head:
  assumes inv: "rx_inv h" and jobs: "rx_jobs h = j # js"
    and q': "mq_inv_n SIZEOF_RX_JOB q'" "max_msgs q' = WLH_RTT_RX_QUEUE_DEPTH" "mq_contents q' = js"
  shows "rx_inv (rx_deliver rc j (h\<lparr> rx_queue := Some q' \<rparr>)) \<and>
    rx_pending (rx_deliver rc j (h\<lparr> rx_queue := Some q' \<rparr>)) = tl (rx_pending h) \<and>
    reported (rx_deliver rc j (h\<lparr> rx_queue := Some q' \<rparr>)) =
      reported h @ (if if_active (interfaces h ! fst (hd (rx_pending h))) then [hd (rx_pending h)] else [])"
proof -
  let ?q = "h\<lparr> rx_queue := Some q' \<rparr>" and ?i = "unat (job_interface_id j)" and ?b = "unat (job_block j)"
  let ?h = "rx_deliver rc j ?q"
  have ok: "\<forall>j\<in>set (rx_jobs h). job_ok j" and p: "\<And>k. k < 2 \<Longrightarrow> pool_ok (j # js) k (interfaces h ! k)"
    and l: "length (interfaces h) = 2"
    using inv jobs by (auto simp: rx_inv_def)
  have i: "?i < 2" "?b < 16" using ok jobs by (auto simp: job_ok_def)
  note F = rx_deliver_fields [of j ?q rc]
  have js: "rx_jobs ?h = js" using F(2) l i q' by (simp add: rx_jobs_def)
  have pk: "pool_ok js k (interfaces ?h ! k)" if "k < 2" for k
    using p [OF that] F(3,4) [of k] l i pool.put_free [OF i(2), of "rx_free_mask (interfaces h ! k)"]
    unfolding pool_ok_def by (cases "k = ?i") auto
  have "rx_inv ?h" unfolding rx_inv_def using F(1,2) l i q' js pk ok jobs by auto
  moreover have "job_frame ?h x = job_frame h x" for x
    using F(3) l i by (simp add: job_frame_def)
  ultimately show ?thesis using F(5) l i js jobs
    by (simp add: rx_pending_def job_frame_def)
qed

subsection \<open>Initialisation\<close>

lemma rx_init_inv:
  assumes "wlh_rtt_wlan_rx_init mq_ok mem thread_ok startup_rc h = (RT_EOK, h')"
    and "length (interfaces h) = WLH_RTT_INTERFACE_COUNT"
    and "\<forall>m\<in>{fst mem, snd mem}. \<forall>s. m = Some s \<longrightarrow> length s = RX_STORAGE"
  shows "rx_inv h' \<and> rx_pending h' = []"
proof -
  obtain q :: "wlh_rtt_rx_job rt_messagequeue"
    where q: "rt_mq_create (fst mq_ok) (snd mq_ok) 4 32 = Some q"
    using assms(1) by (auto simp: wlh_rtt_wlan_rx_init_def Let_def split: if_splits)
  then have Q: "mq_inv_n 4 q" "max_msgs q = 32" "mq_contents q = []" using mq_create_inv [OF q] by auto
  obtain s0 s1 where s: "fst mem = Some s0" "snd mem = Some s1"
    using assms(1) q by (auto simp: wlh_rtt_wlan_rx_init_def Let_def split: if_splits option.splits)
  let ?f = "\<lambda>s ifc. ifc\<lparr> rx_storage := Some s, rx_free_mask := wlh_rtt_pool_initial_mask 16 \<rparr>"
  have h': "interfaces h' = [?f s0 (interfaces h ! 0), ?f s1 (interfaces h ! 1)]" "rx_queue h' = Some q"
    using assms(1,2) q s
    by (auto simp: wlh_rtt_wlan_rx_init_def Let_def update_interface_def numeral_2_eq_2 length_Suc_conv
        split: if_splits)
  show ?thesis using assms(3) s h' Q pool_initial_free [of 16]
    by (auto simp: rx_inv_def rx_jobs_def rx_pending_def pool_ok_def less_2_cases_iff)
qed

text \<open>A host whose receive path was just set up, and one with a frame pending on the station.\<close>

definition rx_ready :: "(unit, unit) wlh_rtt_host_impl" where
  "rx_ready = snd (wlh_rtt_wlan_rx_init (True, True) (Some (replicate RX_STORAGE 0), Some (replicate RX_STORAGE 0)) True RT_EOK sample_host)"

definition rx_one_pending :: "(unit, unit) wlh_rtt_host_impl" where
  "rx_one_pending = wlh_rtt_wlan_rx_enqueue 0 (Some [1, 2, 3]) 3 rx_ready"

lemma rx_ready_inv: "rx_inv rx_ready" "rx_pending rx_ready = []"
  "pool_free (rx_free_mask (interfaces rx_ready ! 0)) = {..<16}" "initialized rx_ready"
proof -
  have "wlh_rtt_wlan_rx_init (True, True) (Some (replicate RX_STORAGE 0), Some (replicate RX_STORAGE 0)) True RT_EOK sample_host =
      (RT_EOK, rx_ready)"
    by (simp add: rx_ready_def wlh_rtt_wlan_rx_init_def Let_def rt_mq_create_def)
  from rx_init_inv [OF this] show "rx_inv rx_ready" "rx_pending rx_ready = []"
    by (simp_all add: sample_host_def)
  then show "pool_free (rx_free_mask (interfaces rx_ready ! 0)) = {..<16}"
    by (simp add: rx_inv_def pool_ok_def rx_pending_def)
  show "initialized rx_ready"
    by (simp add: rx_ready_def wlh_rtt_wlan_rx_init_def Let_def rt_mq_create_def sample_host_def)
qed

lemma rx_one_pending_inv: "rx_inv rx_one_pending" "rx_pending rx_one_pending = [(0, [1, 2, 3])]"
  using enqueue_inv_pending [OF rx_ready_inv(1), of 0 3 "[1, 2, 3]"] rx_ready_inv(2,3)
  by (simp_all add: rx_one_pending_def lessThan_empty_iff)

subsection \<open>Properties\<close>

text \<open>
  C4: The receive path is a queue of frames: from a state where every block is either free or
  queued once, enqueueing a frame of 1 to 1600 bytes on an interface appends exactly that frame
  to the pending ones if the interface has a free block; otherwise it is counted in
  rx_pool_empty and nothing else changes. The job queue never overflows, as rx_queue_full stays
  as it was, and any other call changes nothing.
\<close>

theorem rx_enqueue_fifo:
  assumes "rx_inv h" and "len \<le> length data"
  shows "let h' = wlh_rtt_wlan_rx_enqueue iid (Some data) len h; i = unat iid in
     if i < WLH_RTT_INTERFACE_COUNT \<and> 1 \<le> len \<and> len \<le> WLH_RTT_ETHERNET_MAX_FRAME
     then rx_inv h' \<and> rx_queue_full (stats (interfaces h' ! i)) = rx_queue_full (stats (interfaces h ! i)) \<and>
          (if pool_free (rx_free_mask (interfaces h ! i)) = {}
           then rx_pending h' = rx_pending h \<and>
                rx_pool_empty (stats (interfaces h' ! i)) = rx_pool_empty (stats (interfaces h ! i)) + 1
           else rx_pending h' = rx_pending h @ [(i, take len data)])
     else h' = h"
proof (cases "unat iid < WLH_RTT_INTERFACE_COUNT \<and> 1 \<le> len \<and> len \<le> WLH_RTT_ETHERNET_MAX_FRAME")
  case True
  then have c: "unat iid < WLH_RTT_INTERFACE_COUNT" "1 \<le> len" "len \<le> WLH_RTT_ETHERNET_MAX_FRAME" by auto
  have l: "unat iid < length (interfaces h)" using assms(1) c by (simp add: rx_inv_def)
  show ?thesis
  proof (cases "pool_free (rx_free_mask (interfaces h ! unat iid)) = {}")
    case empty: True
    let ?u = "update_interface (unat iid) (\<lambda>f. f\<lparr> stats := (stats f)\<lparr> rx_pool_empty := rx_pool_empty (stats f) + 1 \<rparr> \<rparr>) h"
    have "rx_inv ?u" "rx_pending ?u = rx_pending h" using assms(1) l
      by (auto simp: rx_inv_def rx_jobs_def pool_ok_def rx_pending_def job_frame_def)
    then show ?thesis using enqueue_exhausted [OF assms(1) c empty, of data] True empty l by (simp add: Let_def)
  next
    case False
    have "rx_queue_full (stats (interfaces (wlh_rtt_wlan_rx_enqueue iid (Some data) len h) ! unat iid)) =
        rx_queue_full (stats (interfaces h ! unat iid))"
      using assms(1) c assms(2) False by (cases rule: enqueue_stored) (use l in \<open>simp add: update_interface_def\<close>)
    then show ?thesis using enqueue_inv_pending [OF assms(1) c assms(2) False] True False by (simp add: Let_def)
  qed
next
  case False
  then have "wlh_rtt_wlan_rx_enqueue iid (Some data) len h = h"
    by (auto simp: wlh_rtt_wlan_rx_enqueue_def)
  then show ?thesis using False by (simp only: Let_def if_False)
qed

theorem rx_enqueue_fifo_witness:
  "rx_inv rx_one_pending \<and> rx_pending rx_one_pending = [(0, [1, 2, 3])]"
  using rx_enqueue_fifo [OF rx_ready_inv(1), of 3 "[1, 2, 3]" 0] rx_ready_inv(2,3)
  by (simp add: rx_one_pending_def lessThan_empty_iff Let_def)

text \<open>
  C29: Processing the oldest job delivers the oldest pending frame, byte for byte, to the WLAN
  layer when the interface is active, removes it from the pending frames and returns its block to
  the pool, so that again every block is either free or queued once.
\<close>

theorem rx_deliver_oldest:
  assumes "rx_inv h" and "rx_pending h = f # fs"
  shows "\<exists>q r j q'. rx_queue h = Some q \<and> rt_mq_recv q SIZEOF_RX_JOB RT_WAITING_FOREVER = Returns r (Some j) q' \<and>
     (let h' = rx_deliver rc j (h\<lparr> rx_queue := Some q' \<rparr>) in
      rx_inv h' \<and> rx_pending h' = fs \<and>
      reported h' = reported h @ (if if_active (interfaces h ! fst f) then [f] else []))"
proof -
  obtain j js where jobs: "rx_jobs h = j # js" using assms(2) by (auto simp: rx_pending_def)
  obtain q where q: "rx_queue h = Some q" "mq_inv_n 4 q" "max_msgs q = 32" using assms(1) by (auto simp: rx_inv_def)
  have "mq_contents q = j # js" using jobs q by (simp add: rx_jobs_def)
  with q(2) obtain q' where "rt_mq_recv q 4 (- 1) = Returns (int 4) (Some j) q'" "mq_contents q' = js"
    "mq_inv_n 4 q'" "max_msgs q' = 32" using q(3) by (metis mq_recv_head)
  then show ?thesis using deliver_head [OF assms(1) jobs, of q' rc] assms(2) q(1) by (auto simp: Let_def)
qed

theorem rx_deliver_oldest_witness:
  "\<exists>q r j q'. rx_queue rx_one_pending = Some q \<and> rt_mq_recv q SIZEOF_RX_JOB RT_WAITING_FOREVER = Returns r (Some j) q' \<and>
     rx_pending (rx_deliver 0 j (rx_one_pending\<lparr> rx_queue := Some q' \<rparr>)) = []"
  using rx_deliver_oldest [OF rx_one_pending_inv, of 0] by (auto simp: Let_def)

text \<open>
  C30: As written, the loop of the receive thread never delivers a frame: it compares the result of
  rt_mq_recv with RT_EOK, but a successful receive returns the message length. A round that takes
  a job drops it, reports nothing, counts nothing, and does not return the block to the pool.
\<close>

theorem rx_main_never_delivers:
  assumes "rx_inv h" and "initialized h"
  shows "if rx_pending h = [] then rx_main rc h = Suspended
     else \<exists>h'. rx_main rc h = Round h' \<and> rx_jobs h' = tl (rx_jobs h) \<and>
            reported h' = reported h \<and> interfaces h' = interfaces h"
proof -
  obtain q where q: "rx_queue h = Some q" "mq_inv_n 4 q" "max_msgs q = 32" using assms(1) by (auto simp: rx_inv_def)
  show ?thesis
  proof (cases "mq_contents q")
    case Nil
    then show ?thesis using q assms(2) by (simp add: rx_main_def rx_pending_def rx_jobs_def mq_recv_empty)
  next
    case (Cons j js)
    with q(2) obtain q' where "rt_mq_recv q 4 (- 1) = Returns (int 4) (Some j) q'" "mq_contents q' = js"
      by (metis mq_recv_head)
    then show ?thesis using q(1) assms(2) Cons by (simp add: rx_main_def rx_pending_def rx_jobs_def)
  qed
qed

theorem rx_main_never_delivers_witness:
  "rx_inv rx_ready \<and> initialized rx_ready \<and> rx_main 0 rx_ready = Suspended"
  using rx_main_never_delivers [OF rx_ready_inv(1,4), of 0] rx_ready_inv by simp

end
