(* ===== verification/Wlan_Event.thy ===== *)
theory Wlan_Event
  imports Wlan_Ops Wlan_Rx
begin

text \<open>
  The events of the Host Core, packages/wlh_rtt_host/wlan/wlh_rtt_wlan_event.c. The decoders of the
  protobuf messages are parameters (\<open>core_api\<close>); a decoder yields \<open>None\<close> when \<open>pb_decode\<close> fails, and
  an absent sub-message (\<open>has_link\<close>, \<open>has_client\<close>) is an inner \<open>None\<close>. A byte field is its list of
  bytes. \<open>ssid.val\<close> has 33 bytes.
\<close>

definition update_interface_mac :: "nat \<Rightarrow> u8 list \<Rightarrow> ('c, 't) wlh_rtt_host_impl \<Rightarrow> ('c, 't) wlh_rtt_host_impl" where
  "update_interface_mac i mac host =
   (let host = update_interface i (\<lambda>f. f\<lparr> if_mac := mac \<rparr>) host in
    case if_netdev (interfaces host ! i) of
      None \<Rightarrow> host
    | Some nd \<Rightarrow>
        let nd = nd\<lparr> nd_hwaddr_len := 6, nd_hwaddr := blit (nd_hwaddr nd) 0 mac \<rparr>;
            nd = (case nd_netif nd of
                    None \<Rightarrow> nd
                  | Some (len, hwaddr) \<Rightarrow> nd\<lparr> nd_netif := Some (6, blit hwaddr 0 mac) \<rparr>)
        in update_interface i (\<lambda>f. f\<lparr> if_netdev := Some nd \<rparr>) host)"

definition link_to_info :: "'c core_api \<Rightarrow> wifi_link \<Rightarrow> rt_wlan_info" where
  "link_to_info K link = rt_wlan_info_zero
     \<lparr> security := wlh_rtt_security_from_wire K (l_security link),
       band := (if l_band link = WIRE_BAND_2_4_GHZ K then RT_802_11_BAND_2_4GHZ else RT_802_11_BAND_5GHZ),
       channel := ucast (l_channel link),
       rssi := ucast (l_rssi_dbm link),
       ssid_len := of_nat (length (l_ssid link)),
       ssid_val := blit (ssid_val rt_wlan_info_zero) 0 (l_ssid link),
       bssid := (if length (l_bssid link) = 6 then l_bssid link else bssid rt_wlan_info_zero) \<rparr>"

text \<open>The scan the station is waiting for has this identifier.\<close>

definition scan_awaited :: "u32 \<Rightarrow> ('c, 't) wlh_rtt_host_impl \<Rightarrow> bool" where
  "scan_awaited scan_id host \<longleftrightarrow>
     (let r = request (interfaces host ! WLH_RTT_INTERFACE_STA) in
      req_active r \<and> req_kind r = WLH_RTT_REQUEST_SCAN \<and> scan_id = req_generation r)"

definition report_scan_result ::
  "'c core_api \<Rightarrow> u8 list \<Rightarrow> ('c, 't) wlh_rtt_host_impl \<Rightarrow> ('c, 't) wlh_rtt_host_impl" where
  "report_scan_result K payload host =
   (case decode_scan_result K payload of
      None \<Rightarrow> host
    | Some (scan_id, networks) \<Rightarrow>
        if \<not> scan_awaited scan_id host then host
        else fold (\<lambda>network. wlh_rtt_report_event WLH_RTT_INTERFACE_STA RT_WLAN_DEV_EVT_SCAN_REPORT
               (Some (link_to_info K network))) networks host)"

definition report_scan_complete ::
  "'c core_api \<Rightarrow> u8 list \<Rightarrow> ('c, 't) wlh_rtt_host_impl \<Rightarrow> ('c, 't) wlh_rtt_host_impl" where
  "report_scan_complete K payload host =
   (case decode_scan_completed K payload of
      None \<Rightarrow> host
    | Some scan_id \<Rightarrow>
        if \<not> scan_awaited scan_id host then host
        else wlh_rtt_report_event WLH_RTT_INTERFACE_STA RT_WLAN_DEV_EVT_SCAN_DONE None
               (wlh_rtt_request_finish WLH_RTT_INTERFACE_STA WLH_RTT_REQUEST_SCAN host))"

text \<open>\<open>(unsigned) route\<close>: the enumerators are -1, 0 and 1.\<close>

fun route_index :: "wlh_rtt_interface_route \<Rightarrow> nat option" where
  "route_index WLH_RTT_ROUTE_INVALID = None"
| "route_index WLH_RTT_ROUTE_STA = Some WLH_RTT_INTERFACE_STA"
| "route_index WLH_RTT_ROUTE_AP = Some WLH_RTT_INTERFACE_AP"

definition wire_route :: "'c core_api \<Rightarrow> u32 \<Rightarrow> nat option" where
  "wire_route K w = route_index (wlh_rtt_route_wire_interface w (WIRE_INTERFACE_STA K) (WIRE_INTERFACE_AP K))"

definition link_up :: "'c core_api \<Rightarrow> nat \<Rightarrow> wifi_link \<Rightarrow> ('c, 't) wlh_rtt_host_impl \<Rightarrow> ('c, 't) wlh_rtt_host_impl" where
  "link_up K i link host =
   (let host = update_interface i (\<lambda>f. f\<lparr> info := link_to_info K link \<rparr>) host;
        host = (if length (l_mac link) = 6 then update_interface_mac i (l_mac link) host else host)
    in update_interface i (\<lambda>f. f\<lparr> if_active := True, stats := (stats f)\<lparr> st_active := True \<rparr> \<rparr>) host)"

definition report_connected ::
  "'c core_api \<Rightarrow> u8 list \<Rightarrow> ('c, 't) wlh_rtt_host_impl \<Rightarrow> ('c, 't) wlh_rtt_host_impl" where
  "report_connected K payload host =
   (case decode_connected K payload of
      Some (Some link) \<Rightarrow>
        (case wire_route K (l_interface link) of
           None \<Rightarrow> host
         | Some i \<Rightarrow>
             let host = link_up K i link host;
                 sta = (if_id (interfaces host ! i) = WLH_RTT_INTERFACE_STA);
                 host = wlh_rtt_request_finish i (if sta then WLH_RTT_REQUEST_CONNECT else WLH_RTT_REQUEST_AP_START) host
             in wlh_rtt_report_event i (if sta then RT_WLAN_DEV_EVT_CONNECT else RT_WLAN_DEV_EVT_AP_START)
                  (Some (info (interfaces host ! i))) host)
    | _ \<Rightarrow> host)"

definition report_disconnected ::
  "'c core_api \<Rightarrow> u8 list \<Rightarrow> ('c, 't) wlh_rtt_host_impl \<Rightarrow> ('c, 't) wlh_rtt_host_impl" where
  "report_disconnected K payload host =
   (case decode_disconnected K payload of
      None \<Rightarrow> host
    | Some w \<Rightarrow>
        (case wire_route K w of
           None \<Rightarrow> host
         | Some i \<Rightarrow>
             let host = update_interface i (\<lambda>f. f\<lparr> if_active := False, stats := (stats f)\<lparr> st_active := False \<rparr> \<rparr>) host;
                 sta = (if_id (interfaces host ! i) = WLH_RTT_INTERFACE_STA);
                 host = wlh_rtt_request_finish i (if sta then WLH_RTT_REQUEST_DISCONNECT else WLH_RTT_REQUEST_AP_STOP) host;
                 host = (if if_id (interfaces host ! i) = WLH_RTT_INTERFACE_AP then host\<lparr> ap_clients := 0 \<rparr> else host)
             in wlh_rtt_report_event i (if sta then RT_WLAN_DEV_EVT_DISCONNECT else RT_WLAN_DEV_EVT_AP_STOP) None host))"

text \<open>The decoded report of a station: its address, signal strength, association and reason.\<close>

definition client_report :: "'c core_api \<Rightarrow> u8 list \<Rightarrow> bool \<Rightarrow> (u8 list \<times> s16 \<times> u32 \<times> u32) option" where
  "client_report K payload joined =
   (if joined then
      (case decode_client_joined K payload of
         Some (Some (mac, rssi_dbm, association_id)) \<Rightarrow>
           if length mac \<noteq> 6 then None else Some (mac, ucast rssi_dbm, association_id, 0)
       | _ \<Rightarrow> None)
    else
      (case decode_client_left K payload of
         Some (mac, association_id, reason) \<Rightarrow>
           if length mac \<noteq> 6 then None else Some (mac, 0, association_id, reason)
       | None \<Rightarrow> None))"

definition report_ap_client ::
  "'c core_api \<Rightarrow> u8 list \<Rightarrow> bool \<Rightarrow> ('c, 't) wlh_rtt_host_impl \<Rightarrow> ('c, 't) wlh_rtt_host_impl" where
  "report_ap_client K payload joined host =
   (case client_report K payload joined of
      None \<Rightarrow> host
    | Some (mac, rs, association_id, reason) \<Rightarrow>
        let (_, table, n) = wlh_rtt_ap_client_update (Some (ap_client host)) WLH_RTT_HOST_AP_MAX_CLIENTS (Some mac)
              joined rs association_id reason (Some (ap_clients host));
            host = host\<lparr> ap_client := the table, ap_clients := the n \<rparr>
        in wlh_rtt_report_event WLH_RTT_INTERFACE_AP
             (if joined then RT_WLAN_DEV_EVT_AP_ASSOCIATED else RT_WLAN_DEV_EVT_AP_DISASSOCIATED)
             (Some (rt_wlan_info_zero\<lparr> bssid := mac, rssi := rs \<rparr>)) host)"

definition wlh_rtt_wlan_event ::
  "'c core_api \<Rightarrow> wlh_host_event \<Rightarrow> ('c, 't) wlh_rtt_host_impl \<Rightarrow> ('c, 't) wlh_rtt_host_impl" where
  "wlh_rtt_wlan_event K event host =
   (let payload = (case ev_payload event of None \<Rightarrow> [] | Some b \<Rightarrow> b) in
    case ev_kind event of
      WIFI_SCAN_RESULT \<Rightarrow> report_scan_result K payload host
    | WIFI_SCAN_COMPLETED \<Rightarrow> report_scan_complete K payload host
    | WIFI_CONNECTED \<Rightarrow> report_connected K payload host
    | WIFI_DISCONNECTED \<Rightarrow> report_disconnected K payload host
    | WIFI_AP_CLIENT_JOINED \<Rightarrow> report_ap_client K payload True host
    | WIFI_AP_CLIENT_LEFT \<Rightarrow> report_ap_client K payload False host
    | ETHERNET_STA_RX \<Rightarrow> wlh_rtt_wlan_rx_enqueue 0 (ev_payload event) (length payload) host
    | ETHERNET_AP_RX \<Rightarrow> wlh_rtt_wlan_rx_enqueue 1 (ev_payload event) (length payload) host
    | _ \<Rightarrow> host)"

subsection \<open>What events leave alone\<close>

text \<open>Two hosts with the same requests and completion slots.\<close>

definition same_requests :: "('c, 't) wlh_rtt_host_impl \<Rightarrow> ('c, 't) wlh_rtt_host_impl \<Rightarrow> bool" where
  "same_requests h h' \<longleftrightarrow> length (interfaces h') = length (interfaces h) \<and> next_generation h' = next_generation h \<and>
     (\<forall>i<length (interfaces h). request (interfaces h' ! i) = request (interfaces h ! i) \<and>
        completions (interfaces h' ! i) = completions (interfaces h ! i))"

lemma same_requests_refl [simp]: "same_requests h h"
  by (simp add: same_requests_def)

lemma same_requests_trans: "same_requests a b \<Longrightarrow> same_requests b c \<Longrightarrow> same_requests a c"
  by (simp add: same_requests_def)

lemma same_requests_update:
  "(\<And>f. request (g f) = request f \<and> completions (g f) = completions f) \<Longrightarrow> same_requests h (update_interface i g h)"
  by (simp add: same_requests_def update_interface_def)

lemma same_requests_report: "same_requests h (wlh_rtt_report_event i e d h')= same_requests h h'"
  by (simp add: same_requests_def)

lemma same_requests_reach:
  assumes "req_reach K n h" "same_requests h h'"
  shows "req_reach K n h'"
proof -
  have "request_shape h" using reach_request_inv [OF assms(1)] by (rule request_invD(1))
  then show ?thesis using assms
    by (intro req_reach.other [OF assms(1)])
      (auto simp: same_requests_def request_shape_def slot_at_def request_at_def valid_slot_def)
qed

lemma update_mac_same: "same_requests h (update_interface_mac i mac h)"
proof -
  have a: "same_requests h (update_interface i (\<lambda>f. f\<lparr> if_mac := mac \<rparr>) h)"
    by (rule same_requests_update) simp
  have b: "same_requests g (update_interface i (\<lambda>f. f\<lparr> if_netdev := x \<rparr>) g)" for x and g :: "('a, 'b) wlh_rtt_host_impl"
    by (rule same_requests_update) simp
  show ?thesis unfolding update_interface_mac_def Let_def
    by (auto split: option.splits intro: a same_requests_trans [OF a b])
qed

lemma rx_enqueue_same: "same_requests h (wlh_rtt_wlan_rx_enqueue iid frame len h)"
proof -
  have q: "same_requests h (g\<lparr> rx_queue := x \<rparr>) = same_requests h g" for x and g :: "('a, 'b) wlh_rtt_host_impl"
    by (simp add: same_requests_def)
  have u: "same_requests h g \<Longrightarrow> (\<And>f. request (u f) = request f \<and> completions (u f) = completions f) \<Longrightarrow>
      same_requests h (update_interface i u g)" for g :: "('a, 'b) wlh_rtt_host_impl" and u i
    using same_requests_trans same_requests_update by blast
  show ?thesis unfolding wlh_rtt_wlan_rx_enqueue_def allocate_block_def free_block_def Let_def
    by (auto split: option.splits prod.splits intro!: u simp: q)
qed

text \<open>Two hosts with the same receive pools and queue.\<close>

definition same_rx :: "('c, 't) wlh_rtt_host_impl \<Rightarrow> ('c, 't) wlh_rtt_host_impl \<Rightarrow> bool" where
  "same_rx h h' \<longleftrightarrow> length (interfaces h') = length (interfaces h) \<and> rx_queue h' = rx_queue h \<and>
     (\<forall>i<length (interfaces h). rx_storage (interfaces h' ! i) = rx_storage (interfaces h ! i) \<and>
        rx_free_mask (interfaces h' ! i) = rx_free_mask (interfaces h ! i))"

lemma same_rx_refl [simp]: "same_rx h h"
  by (simp add: same_rx_def)

lemma same_rx_trans: "same_rx a b \<Longrightarrow> same_rx b c \<Longrightarrow> same_rx a c"
  by (simp add: same_rx_def)

lemma same_rx_update:
  "(\<And>f. rx_storage (g f) = rx_storage f \<and> rx_free_mask (g f) = rx_free_mask f) \<Longrightarrow> same_rx h (update_interface i g h)"
  by (simp add: same_rx_def update_interface_def)

lemma same_rx_inv: "same_rx h h' \<Longrightarrow> rx_inv h \<Longrightarrow> rx_inv h'"
  by (auto simp: same_rx_def rx_inv_def rx_jobs_def pool_ok_def)

lemma same_rx_simps [simp]:
  "same_rx h (wlh_rtt_report_event i e d g) = same_rx h g"
  "same_rx h (g\<lparr> ap_clients := n \<rparr>) = same_rx h g"
  "same_rx h (g\<lparr> ap_client := t, ap_clients := n \<rparr>) = same_rx h g"
  "same_rx h (g\<lparr> ap_client := t \<rparr>) = same_rx h g"
  by (simp_all add: same_rx_def wlh_rtt_report_event_def)

lemma finish_same_rx: "same_rx h (wlh_rtt_request_finish i k h)"
  unfolding wlh_rtt_request_finish_def by (auto intro!: same_rx_update simp: clear_request_def)

lemma update_mac_same_rx: "same_rx h (update_interface_mac i mac h)"
proof -
  have a: "same_rx h (update_interface i (\<lambda>f. f\<lparr> if_mac := mac \<rparr>) h)" by (rule same_rx_update) simp
  have b: "same_rx g (update_interface i (\<lambda>f. f\<lparr> if_netdev := x \<rparr>) g)" for x and g :: "('a, 'b) wlh_rtt_host_impl"
    by (rule same_rx_update) simp
  show ?thesis unfolding update_interface_mac_def Let_def
    by (auto split: option.splits intro: a same_rx_trans [OF a b])
qed

lemma scan_result_indications:
  "indications (fold (\<lambda>x. wlh_rtt_report_event i e (Some (g x))) xs h) = indications h @ map (\<lambda>x. (i, e, Some (g x))) xs"
  "interfaces (fold (\<lambda>x. wlh_rtt_report_event i e (Some (g x))) xs h) = interfaces h"
  "same_rx h' (fold (\<lambda>x. wlh_rtt_report_event i e (Some (g x))) xs h) = same_rx h' h"
  "next_generation (fold (\<lambda>x. wlh_rtt_report_event i e (Some (g x))) xs h) = next_generation h"
  by (induction xs arbitrary: h) simp_all


subsection \<open>The events, one by one\<close>

text \<open>An event that marks interface \<open>i\<close> up or down: its own fields change, then its request ends.\<close>

lemma wire_route_bound: "wire_route K w = Some i \<Longrightarrow> i < WLH_RTT_INTERFACE_COUNT"
  by (cases "wlh_rtt_route_wire_interface w (WIRE_INTERFACE_STA K) (WIRE_INTERFACE_AP K)") (auto simp: wire_route_def)

lemma finish_then:
  assumes "req_reach K n h" "same_requests h g" "i < WLH_RTT_INTERFACE_COUNT"
  shows "req_reach K n (wlh_rtt_request_finish i k g)"
  using req_reach.finish [OF same_requests_reach [OF assms(1,2)] assms(3)] .

lemma reach_report: "req_reach K n h \<Longrightarrow> req_reach K n (wlh_rtt_report_event i e d h)"
  by (erule same_requests_reach) (simp add: same_requests_report)

lemma link_up_same:
  "same_requests h (update_interface i (\<lambda>f. f\<lparr> if_active := b, stats := (stats f)\<lparr> st_active := b \<rparr> \<rparr>) h)"
  "same_requests h (update_interface i (\<lambda>f. f\<lparr> info := x \<rparr>) h)"
  "same_rx h (update_interface i (\<lambda>f. f\<lparr> if_active := b, stats := (stats f)\<lparr> st_active := b \<rparr> \<rparr>) h)"
  "same_rx h (update_interface i (\<lambda>f. f\<lparr> info := x \<rparr>) h)"
  by (intro same_requests_update same_rx_update, simp)+

lemma link_up_keeps: "same_requests h (link_up K i link h)" "same_rx h (link_up K i link h)"
proof -
  let ?a = "update_interface i (\<lambda>f. f\<lparr> info := link_to_info K link \<rparr>) h"
  let ?b = "if length (l_mac link) = 6 then update_interface_mac i (l_mac link) ?a else ?a"
  have "same_requests ?a ?b" "same_rx ?a ?b" by (simp_all add: update_mac_same update_mac_same_rx)
  note ab = same_requests_trans [OF link_up_same(2) this(1)] same_rx_trans [OF link_up_same(4) this(2)]
  show "same_requests h (link_up K i link h)" "same_rx h (link_up K i link h)"
    unfolding link_up_def Let_def
    by (rule same_requests_trans [OF ab(1) link_up_same(1)], rule same_rx_trans [OF ab(2) link_up_same(3)])
qed

lemma connected_reach:
  assumes "req_reach K n h" shows "req_reach K n (report_connected K payload h)"
  unfolding report_connected_def Let_def
  by (auto split: option.splits intro!: assms reach_report finish_then [OF assms link_up_keeps(1)] dest: wire_route_bound)

lemma disconnected_reach:
  assumes "req_reach K n h" shows "req_reach K n (report_disconnected K payload h)"
proof -
  have a: "req_reach K n (g\<lparr> ap_clients := 0 \<rparr>)" if "req_reach K n g" for g
    by (rule same_requests_reach [OF that]) (simp add: same_requests_def)
  show ?thesis unfolding report_disconnected_def Let_def
    by (auto split: option.splits
        intro!: assms reach_report a finish_then [OF assms link_up_same(1)] dest: wire_route_bound)
qed

lemma event_reach:
  assumes "req_reach K n h" shows "req_reach K n (wlh_rtt_wlan_event K event h)"
proof -
  have "req_reach K n (report_scan_result K p h)" for p
    by (rule same_requests_reach [OF assms])
      (simp add: report_scan_result_def same_requests_def scan_result_indications split: option.splits)
  moreover have "req_reach K n (report_scan_complete K p h)" for p
    by (auto simp: report_scan_complete_def assms split: option.splits
        intro!: reach_report req_reach.finish [OF assms])
  moreover have "req_reach K n (report_ap_client K p b h)" for p b
    by (rule same_requests_reach [OF assms])
      (simp add: report_ap_client_def same_requests_def case_prod_beta Let_def split: option.splits)
  moreover have "req_reach K n (wlh_rtt_wlan_rx_enqueue iid f l h)" for iid f l
    by (rule same_requests_reach [OF assms rx_enqueue_same])
  ultimately show ?thesis using connected_reach [OF assms] disconnected_reach [OF assms] assms
    by (simp add: wlh_rtt_wlan_event_def Let_def split: host_event_kind.splits)
qed

lemma connected_same_rx: "same_rx h (report_connected K payload h)"
  unfolding report_connected_def Let_def
  by (auto split: option.splits intro!: same_rx_trans [OF link_up_keeps(2) finish_same_rx])

lemma disconnected_same_rx: "same_rx h (report_disconnected K payload h)"
  unfolding report_disconnected_def Let_def
  by (auto split: option.splits intro!: same_rx_trans [OF link_up_same(3) finish_same_rx])

lemma enqueue_rx_inv:
  assumes "rx_inv h" "len = (case frame of None \<Rightarrow> 0 | Some b \<Rightarrow> length b)"
  shows "rx_inv (wlh_rtt_wlan_rx_enqueue iid frame len h)"
proof (cases frame)
  case None
  then show ?thesis using assms(1) by (simp add: wlh_rtt_wlan_rx_enqueue_def)
next
  case (Some b)
  have l: "len \<le> length b" using assms(2) Some by simp
  show ?thesis
  proof (cases "unat iid < WLH_RTT_INTERFACE_COUNT \<and> 1 \<le> len \<and> len \<le> WLH_RTT_ETHERNET_MAX_FRAME")
    case True
    then have c: "unat iid < WLH_RTT_INTERFACE_COUNT" "1 \<le> len" "len \<le> WLH_RTT_ETHERNET_MAX_FRAME" by auto
    have e: "rx_inv (update_interface (unat iid) (\<lambda>f. f\<lparr> stats := (stats f)\<lparr> rx_pool_empty := rx_pool_empty (stats f) + 1 \<rparr> \<rparr>) h)"
      by (rule same_rx_inv [OF same_rx_update assms(1)]) simp
    show ?thesis unfolding Some using enqueue_exhausted [OF assms(1) c, of b] e
        enqueue_inv_pending [OF assms(1) c l]
      by (cases "pool_free (rx_free_mask (interfaces h ! unat iid)) = {}") simp_all
  next
    case False
    then show ?thesis using assms(1) Some by (auto simp: wlh_rtt_wlan_rx_enqueue_def)
  qed
qed

lemma event_rx_inv:
  assumes "rx_inv h" shows "rx_inv (wlh_rtt_wlan_event K event h)"
proof -
  have "same_rx h (report_scan_result K p h)" "same_rx h (report_scan_complete K p h)"
    "same_rx h (report_ap_client K p b h)" for p b
    by (simp_all add: report_scan_result_def report_scan_complete_def report_ap_client_def
        scan_result_indications finish_same_rx case_prod_beta Let_def split: option.splits)
  note s = this [THEN same_rx_inv, OF assms] connected_same_rx [THEN same_rx_inv, OF assms]
    disconnected_same_rx [THEN same_rx_inv, OF assms]
  have "rx_inv (wlh_rtt_wlan_rx_enqueue iid (ev_payload event)
      (length (case ev_payload event of None \<Rightarrow> [] | Some b \<Rightarrow> b)) h)" for iid
    by (rule enqueue_rx_inv [OF assms]) (simp split: option.splits)
  then show ?thesis using s assms by (simp add: wlh_rtt_wlan_event_def Let_def split: host_event_kind.splits)
qed

subsection \<open>The client table under events\<close>

abbreviation ap_inv :: "('c, 't) wlh_rtt_host_impl \<Rightarrow> bool" where
  "ap_inv h \<equiv> ap_table_inv WLH_RTT_HOST_AP_MAX_CLIENTS (ap_client h) (ap_clients h)"

lemma report_ap_client_table:
  assumes "client_report K payload joined = Some (mac, v)"
  shows "(ap_client (report_ap_client K payload joined h), ap_clients (report_ap_client K payload joined h)) =
    snd (ap_report WLH_RTT_HOST_AP_MAX_CLIENTS (ap_client h, ap_clients h) mac joined v)"
  using assms by (cases v) (simp add: report_ap_client_def ap_report_def case_prod_beta Let_def wlh_rtt_report_event_def)

lemma finish_ap [simp]:
  "ap_client (wlh_rtt_request_finish i k h) = ap_client h" "ap_clients (wlh_rtt_request_finish i k h) = ap_clients h"
  by (simp_all add: wlh_rtt_request_finish_def)

lemma report_ap [simp]:
  "ap_client (wlh_rtt_report_event i e d h) = ap_client h" "ap_clients (wlh_rtt_report_event i e d h) = ap_clients h"
  by (simp_all add: wlh_rtt_report_event_def)

lemma report_all_ap:
  "ap_client (fold (\<lambda>x. wlh_rtt_report_event i e (g x)) xs h) = ap_client h"
  "ap_clients (fold (\<lambda>x. wlh_rtt_report_event i e (g x)) xs h) = ap_clients h"
  by (induction xs arbitrary: h) simp_all

lemma update_mac_ap [simp]:
  "ap_client (update_interface_mac i m h) = ap_client h" "ap_clients (update_interface_mac i m h) = ap_clients h"
  by (simp_all add: update_interface_mac_def Let_def split: option.splits)

lemma link_up_ap [simp]: "ap_client (link_up K i l h) = ap_client h" "ap_clients (link_up K i l h) = ap_clients h"
  by (simp_all add: link_up_def Let_def)

lemma enqueue_ap [simp]:
  "ap_client (wlh_rtt_wlan_rx_enqueue iid f l h) = ap_client h" "ap_clients (wlh_rtt_wlan_rx_enqueue iid f l h) = ap_clients h"
  by (simp_all add: wlh_rtt_wlan_rx_enqueue_def allocate_block_def free_block_def Let_def
      split: option.splits prod.splits)

lemma event_ap_unchanged:
  assumes "ev_kind event \<notin> {WIFI_AP_CLIENT_JOINED, WIFI_AP_CLIENT_LEFT, WIFI_DISCONNECTED}"
  shows "ap_client (wlh_rtt_wlan_event K event h) = ap_client h \<and> ap_clients (wlh_rtt_wlan_event K event h) = ap_clients h"
  using assms
  by (cases "ev_kind event")
    (simp_all add: wlh_rtt_wlan_event_def Let_def report_scan_result_def report_scan_complete_def report_connected_def
      report_all_ap split: option.splits)

lemma client_event_inv: "ap_inv h \<Longrightarrow> ap_inv (report_ap_client K payload joined h)"
proof (cases "client_report K payload joined")
  case (Some x)
  obtain mac v where "x = (mac, v)" by (cases x)
  moreover assume "ap_inv h"
  ultimately show ?thesis
    using report_ap_client_table [of K payload joined mac v h] Some
      ap_report_inv [of 4 "ap_client h" "ap_clients h" mac joined v]
    by (metis fst_conv snd_conv)
qed (simp add: report_ap_client_def)

lemma disconnected_ap:
  assumes "length (interfaces h) = WLH_RTT_INTERFACE_COUNT" "if_id (interfaces h ! 0) = 0" "if_id (interfaces h ! 1) = 1"
  shows "ap_client (report_disconnected K payload h) = ap_client h"
    and "ap_clients (report_disconnected K payload h) =
      (case decode_disconnected K payload of
         Some w \<Rightarrow> if wire_route K w = Some WLH_RTT_INTERFACE_AP then 0 else ap_clients h
       | None \<Rightarrow> ap_clients h)"
proof -
  have f: "if_id (interfaces (wlh_rtt_request_finish i k g) ! j) = if_id (interfaces g ! j)" for i j k and g :: "('c, 't) wlh_rtt_host_impl"
    by (cases "i < length (interfaces g)")
      (simp_all add: wlh_rtt_request_finish_def clear_request_def update_interface_def list_update_beyond)
  have b: "wire_route K w = Some i \<Longrightarrow> i = 0 \<or> i = 1" for w i using wire_route_bound [of K w i] by (simp add: less_2_cases_iff)
  show "ap_client (report_disconnected K payload h) = ap_client h"
    by (simp add: report_disconnected_def Let_def split: option.splits)
  show "ap_clients (report_disconnected K payload h) =
      (case decode_disconnected K payload of
         Some w \<Rightarrow> if wire_route K w = Some WLH_RTT_INTERFACE_AP then 0 else ap_clients h
       | None \<Rightarrow> ap_clients h)"
    using assms by (auto simp: report_disconnected_def Let_def f split: option.splits dest!: b)
qed

subsection \<open>Properties\<close>

text \<open>
  C21: Whatever event the Core delivers, with whatever payload, the request state stays reachable
  (so generations and slots keep their isolation) and the receive pools keep every block either
  free or queued exactly once.
\<close>

theorem core_events_keep_invariants:
  assumes "req_reach K n h" and "rx_inv h"
  shows "req_reach K n (wlh_rtt_wlan_event K event h) \<and> request_inv n (wlh_rtt_wlan_event K event h) \<and>
     rx_inv (wlh_rtt_wlan_event K event h)"
  using event_reach [OF assms(1)] event_rx_inv [OF assms(2)] reach_request_inv by blast

lemma rx_ready_reach: "req_reach sample_core 0 rx_ready"
proof -
  have "req_reach sample_core 0 sample_host" by (rule req_reach.init) (simp_all add: sample_host_def)
  moreover have "same_requests sample_host rx_ready"
    by (simp add: same_requests_def rx_ready_def wlh_rtt_wlan_rx_init_def Let_def rt_mq_create_def update_interface_def
        sample_host_def nth_Cons' numeral_2_eq_2 less_Suc_eq)
  ultimately show ?thesis by (rule same_requests_reach)
qed

theorem core_events_keep_invariants_witness:
  "let event = \<lparr> ev_kind = ETHERNET_STA_RX, ev_state = 0, ev_payload = Some [1, 2, 3] \<rparr> in
   req_reach sample_core 0 (wlh_rtt_wlan_event sample_core event rx_ready) \<and>
   request_inv 0 (wlh_rtt_wlan_event sample_core event rx_ready) \<and> rx_inv (wlh_rtt_wlan_event sample_core event rx_ready)"
  using core_events_keep_invariants [OF rx_ready_reach rx_ready_inv(1)] by (simp add: Let_def)





text \<open>
  C34: Every event except a disconnect of the access point keeps the client table consistent with
  its count. The disconnect of the access point sets the count to 0 and leaves the table as it is,
  so the table stays consistent exactly if no client was associated: the clients that were remain
  marked active and a client that joins again with the same address is not counted.
\<close>

theorem client_table_under_events:
  assumes "ap_inv h" and "length (interfaces h) = WLH_RTT_INTERFACE_COUNT"
    and "if_id (interfaces h ! 0) = 0" and "if_id (interfaces h ! 1) = 1"
  shows "let h' = wlh_rtt_wlan_event K event h;
       payload = (case ev_payload event of None \<Rightarrow> [] | Some b \<Rightarrow> b);
       ap_lost = (ev_kind event = WIFI_DISCONNECTED \<and>
         (\<exists>w. decode_disconnected K payload = Some w \<and> wire_route K w = Some WLH_RTT_INTERFACE_AP))
     in (if ap_lost then ap_client h' = ap_client h \<and> ap_clients h' = 0 \<and> (ap_inv h' \<longleftrightarrow> ap_clients h = 0)
         else ap_inv h')"
proof -
  define payload where "payload = (case ev_payload event of None \<Rightarrow> [] | Some b \<Rightarrow> b)"
  note dis = disconnected_ap [OF assms(2,3,4), of K payload]
  consider "ev_kind event = WIFI_DISCONNECTED" | "ev_kind event = WIFI_AP_CLIENT_JOINED" | "ev_kind event = WIFI_AP_CLIENT_LEFT"
    | "ev_kind event \<notin> {WIFI_AP_CLIENT_JOINED, WIFI_AP_CLIENT_LEFT, WIFI_DISCONNECTED}" by blast
  then show ?thesis
  proof cases
    case 1
    then have "wlh_rtt_wlan_event K event h = report_disconnected K payload h"
      by (simp add: wlh_rtt_wlan_event_def payload_def Let_def)
    moreover have "ap_table_inv 4 (ap_client h) 0 \<longleftrightarrow> ap_clients h = 0"
      using assms(1) by (auto simp: ap_table_inv_def unat_eq_zero)
    ultimately show ?thesis unfolding payload_def [symmetric] Let_def using 1 dis assms(1)
      by (auto split: option.splits)
  next
    case 2
    then show ?thesis using client_event_inv [OF assms(1)] by (simp add: wlh_rtt_wlan_event_def Let_def)
  next
    case 3
    then show ?thesis using client_event_inv [OF assms(1)] by (simp add: wlh_rtt_wlan_event_def Let_def)
  next
    case 4
    then show ?thesis using event_ap_unchanged [OF 4, of K h] assms(1) by (simp add: Let_def)
  qed
qed

text \<open>An access point with one associated station.\<close>

definition one_client :: "(unit, unit) wlh_rtt_host_impl" where
  "one_client = report_ap_client sample_core [2, 0, 0, 0, 0, 1] True
     (snd (wlh_rtt_wlan_register RT_EOK RT_EOK sample_host))"

theorem client_table_under_events_witness:
  "let h' = wlh_rtt_wlan_event sample_core \<lparr> ev_kind = WIFI_DISCONNECTED, ev_state = 0, ev_payload = Some [2] \<rparr> one_client
   in ap_clients one_client = 1 \<and> ap_clients h' = 0 \<and> ap_client h' = ap_client one_client \<and> \<not> ap_inv h'"
proof -
  let ?h = "snd (wlh_rtt_wlan_register RT_EOK RT_EOK sample_host)"
  have "ap_inv ?h" "length (interfaces ?h) = 2" "if_id (interfaces ?h ! 0) = 0" "if_id (interfaces ?h ! 1) = 1"
    using ap_clear_inv [of 4] by (simp_all add: wlh_rtt_wlan_register_def Let_def sample_host_def update_interface_def interface_zero_def)
  then have inv: "ap_inv one_client" "length (interfaces one_client) = 2" "if_id (interfaces one_client ! 0) = 0"
    "if_id (interfaces one_client ! 1) = 1"
    by (simp_all add: one_client_def client_event_inv) (simp_all add: report_ap_client_def case_prod_beta Let_def split: option.splits)
  have n: "ap_clients one_client = 1"
    by (simp add: one_client_def wlh_rtt_wlan_register_def report_ap_client_def client_report_def sample_core_def sample_host_def
        wlh_rtt_ap_client_update_def ap_client_zero_def replicate_4 Let_def wlh_rtt_report_event_def update_interface_def)
  have d: "decode_disconnected sample_core [2] = Some 2" "wire_route sample_core 2 = Some 1"
    by (simp_all add: sample_core_def wire_route_def wlh_rtt_route_wire_interface_def)
  let ?h = "wlh_rtt_wlan_event sample_core \<lparr> ev_kind = WIFI_DISCONNECTED, ev_state = 0, ev_payload = Some [2] \<rparr> one_client"
  have "ap_client ?h = ap_client one_client \<and> ap_clients ?h = 0 \<and> (ap_inv ?h \<longleftrightarrow> ap_clients one_client = 0)"
    using client_table_under_events [OF inv, of sample_core "\<lparr> ev_kind = WIFI_DISCONNECTED, ev_state = 0, ev_payload = Some [2] \<rparr>"]
    unfolding Let_def wlh_host_event.simps option.case d option.inject by (simp (no_asm_use) only: simp_thms d option.inject ex_simps if_True)
  then show ?thesis using n unfolding Let_def by (metis zero_neq_one)
qed

end
