(* ===== verification/Lifecycle.thy ===== *)
theory Lifecycle
  imports Wlan_Event
begin

text \<open>
  The host's threads and the glue to the Core, packages/wlh_rtt_host/src/wlh_rtt_lifecycle.c: the
  executor that runs Core tasks, the lifecycle thread that starts and stops the transport, the
  callbacks given to the Core, and creation and removal of queues and threads. Running a task and
  reporting the end of a transport operation change the Core (\<open>core_run_task\<close>,
  \<open>core_lifecycle_complete\<close>). Results of allocations are arguments. \<open>buffer_alloc\<close> and \<open>buffer_free\<close>
  are the heap's own functions and have no definition here.
\<close>

abbreviation (input) SIZEOF_EXECUTOR_JOB :: nat where "SIZEOF_EXECUTOR_JOB \<equiv> 8"
abbreviation (input) SIZEOF_LIFECYCLE_JOB :: nat where "SIZEOF_LIFECYCLE_JOB \<equiv> 12"

definition run_executor_job :: "'c core_api \<Rightarrow> wlh_rtt_executor_job \<Rightarrow> ('c, 't) wlh_rtt_host_impl \<Rightarrow> ('c, 't) wlh_rtt_host_impl" where
  "run_executor_job K job host =
   (case task job of
      None \<Rightarrow> host
    | Some f \<Rightarrow> host\<lparr> core := core_run_task K f (task_context job) (core host) \<rparr>)"

definition executor_main :: "'c core_api \<Rightarrow> ('c, 't) wlh_rtt_host_impl \<Rightarrow> ('c, 't) wlh_rtt_host_impl round" where
  "executor_main K host =
   (if \<not> initialized host then Ends
    else case executor_queue host of
      None \<Rightarrow> Crash
    | Some q \<Rightarrow>
        (case rt_mq_recv q SIZEOF_EXECUTOR_JOB RT_WAITING_FOREVER of
           Blocked \<Rightarrow> Suspended
         | Fault \<Rightarrow> Crash
         | Returns r job q' \<Rightarrow>
             let host = host\<lparr> executor_queue := Some q' \<rparr>
             in Round (if r = RT_EOK then run_executor_job K (the job) host else host)))"

text \<open>The part of \<open>lifecycle_main\<close> after its guard.\<close>

definition run_lifecycle_job :: "'c core_api \<Rightarrow> wlh_rtt_lifecycle_job \<Rightarrow> ('c, 't) wlh_rtt_host_impl \<Rightarrow> ('c, 't) wlh_rtt_host_impl" where
  "run_lifecycle_job K job host =
   (let ops = the (transport_ops (host_config host));
        (result, t) = the (if job_start job then ops_start ops else ops_stop ops) (transport_context host)
    in host\<lparr> transport_context := t,
             core := core_lifecycle_complete K (job_completion job) (job_context job) result (core host) \<rparr>)"

definition lifecycle_main :: "'c core_api \<Rightarrow> ('c, 't) wlh_rtt_host_impl \<Rightarrow> ('c, 't) wlh_rtt_host_impl round" where
  "lifecycle_main K host =
   (if \<not> initialized host then Ends
    else case lifecycle_queue host of
      None \<Rightarrow> Crash
    | Some q \<Rightarrow>
        (case rt_mq_recv q SIZEOF_LIFECYCLE_JOB RT_WAITING_FOREVER of
           Blocked \<Rightarrow> Suspended
         | Fault \<Rightarrow> Crash
         | Returns r job q' \<Rightarrow>
             let host = host\<lparr> lifecycle_queue := Some q' \<rparr>
             in Round (if r \<noteq> RT_EOK then host else run_lifecycle_job K (the job) host)))"

definition executor_post :: "nat option \<Rightarrow> nat \<Rightarrow> ('c, 't) wlh_rtt_host_impl option \<Rightarrow> int \<times> ('c, 't) wlh_rtt_host_impl option" where
  "executor_post fn ctx host =
   (case host of
      None \<Rightarrow> (- 1, None)
    | Some h \<Rightarrow>
        if fn = None then (- 1, Some h)
        else
          let (r, q) = rt_mq_send (the (executor_queue h)) \<lparr> task = fn, task_context = ctx \<rparr> SIZEOF_EXECUTOR_JOB
          in (if r = RT_EOK then 0 else - 1, Some (h\<lparr> executor_queue := Some q \<rparr>)))"

definition submit_lifecycle ::
  "bool \<Rightarrow> nat option \<Rightarrow> nat \<Rightarrow> ('c, 't) wlh_rtt_host_impl \<Rightarrow> int \<times> ('c, 't) wlh_rtt_host_impl" where
  "submit_lifecycle start completion ctx host =
   (case completion of
      None \<Rightarrow> (- 1, host)
    | Some f \<Rightarrow>
        let (r, q) = rt_mq_send (the (lifecycle_queue host))
              \<lparr> job_start = start, job_completion = f, job_context = ctx \<rparr> SIZEOF_LIFECYCLE_JOB
        in (if r = RT_EOK then 0 else - 1, host\<lparr> lifecycle_queue := Some q \<rparr>))"

definition core_transport_start :: "nat option \<Rightarrow> nat \<Rightarrow> ('c, 't) wlh_rtt_host_impl \<Rightarrow> int \<times> ('c, 't) wlh_rtt_host_impl" where
  "core_transport_start completion ctx host = submit_lifecycle True completion ctx host"

definition core_transport_stop :: "nat option \<Rightarrow> nat \<Rightarrow> ('c, 't) wlh_rtt_host_impl \<Rightarrow> int \<times> ('c, 't) wlh_rtt_host_impl" where
  "core_transport_stop completion ctx host = submit_lifecycle False completion ctx host"

definition core_transport_tx ::
  "u8 list \<Rightarrow> nat \<Rightarrow> nat \<Rightarrow> ('c, 't) wlh_rtt_host_impl \<Rightarrow> int \<times> ('c, 't) wlh_rtt_host_impl" where
  "core_transport_tx frame completion ctx host =
   (let (r, t) = the (ops_submit_tx (the (transport_ops (host_config host)))) frame completion ctx (transport_context host)
    in (r, host\<lparr> transport_context := t \<rparr>))"

text \<open>The results of the two \<open>rt_wlan_set_mode\<close> calls are only logged.\<close>

definition wifi_initialize_complete :: "'c core_api \<Rightarrow> int \<Rightarrow> ('c, 't) wlh_rtt_host_impl \<Rightarrow> ('c, 't) wlh_rtt_host_impl" where
  "wifi_initialize_complete K result host =
   (if result \<noteq> WLH_HOST_OK K then host
    else host\<lparr> wifi_initialized := True,
               modes := modes host @ [(sta_device_name (host_config host), RT_WLAN_STATION),
                                      (ap_device_name (host_config host), RT_WLAN_AP)] \<rparr>)"

definition host_event :: "'c core_api \<Rightarrow> wlh_host_event \<Rightarrow> ('c, 't) wlh_rtt_host_impl \<Rightarrow> ('c, 't) wlh_rtt_host_impl" where
  "host_event K event host =
   (let host = (if ev_kind event = STATE_CHANGED \<and> ev_state event = STATE_READY K \<and> \<not> wifi_initialized host
                then host\<lparr> core := snd (core_initialize_interfaces K (FLAG_STA K OR FLAG_AP K) (core host)) \<rparr>
                else host)
    in wlh_rtt_wlan_event K event host)"

definition core_config :: "'c core_api \<Rightarrow> wlh_host_config" where
  "core_config K = \<lparr> max_frame_size = 4092, rpc_timeout_ms = WLH_RTT_HOST_RPC_TIMEOUT_MS, heartbeat_timeout_ms = 5000,
     max_pending_rpc = WLH_HOST_MAX_PENDING K, core_queue_depth = WLH_RTT_HOST_TX_QUEUE_DEPTH,
     ethernet_tx_depth = WLH_RTT_HOST_TX_QUEUE_DEPTH, ethernet_tx_aggregation_limit = 4, stop_timeout_ms = 5000,
     core_task_name = ''wlh-core'', core_task_stack_size = 16384, core_task_priority = 32 - 10 \<rparr>"

text \<open>Whether the two queues (object and pool each) and the two threads could be created.\<close>

record lifecycle_alloc =
  exec_mq :: "bool \<times> bool"
  life_mq :: "bool \<times> bool"
  exec_thr :: bool
  life_thr :: bool

definition wlh_rtt_lifecycle_init ::
  "'c core_api \<Rightarrow> lifecycle_alloc \<Rightarrow> ('c, 't) wlh_rtt_host_impl \<Rightarrow> int \<times> ('c, 't) wlh_rtt_host_impl" where
  "wlh_rtt_lifecycle_init K al host =
   (let host = host\<lparr>
          executor_queue := rt_mq_create (fst (exec_mq al)) (snd (exec_mq al)) SIZEOF_EXECUTOR_JOB WLH_RTT_EXECUTOR_DEPTH,
          lifecycle_queue := rt_mq_create (fst (life_mq al)) (snd (life_mq al)) SIZEOF_LIFECYCLE_JOB WLH_RTT_LIFECYCLE_DEPTH \<rparr>
    in if executor_queue host = None \<or> lifecycle_queue host = None then (- RT_ENOMEM, host)
       else
         let host = host\<lparr> executor_thread := exec_thr al, lifecycle_thread := life_thr al \<rparr> in
         if \<not> executor_thread host \<or> \<not> lifecycle_thread host then (- RT_ENOMEM, host)
         else
           let (r, c) = core_init K (core_config K)
           in (if r = WLH_HOST_OK K then 0 else - RT_ERROR, host\<lparr> core := c \<rparr>))"

definition wlh_rtt_lifecycle_deinit :: "('c, 't) wlh_rtt_host_impl \<Rightarrow> ('c, 't) wlh_rtt_host_impl" where
  "wlh_rtt_lifecycle_deinit host =
   host\<lparr> executor_thread := False, lifecycle_thread := False, executor_queue := None, lifecycle_queue := None \<rparr>"

subsection \<open>Properties of the threads\<close>

definition lifecycle_inv :: "('c, 't) wlh_rtt_host_impl \<Rightarrow> bool" where
  "lifecycle_inv h \<longleftrightarrow>
     (\<exists>q. executor_queue h = Some q \<and> mq_inv_n SIZEOF_EXECUTOR_JOB q \<and> max_msgs q = WLH_RTT_EXECUTOR_DEPTH) \<and>
     (\<exists>q. lifecycle_queue h = Some q \<and> mq_inv_n SIZEOF_LIFECYCLE_JOB q \<and> max_msgs q = WLH_RTT_LIFECYCLE_DEPTH)"

definition exec_pending :: "('c, 't) wlh_rtt_host_impl \<Rightarrow> wlh_rtt_executor_job list" where
  "exec_pending h = mq_contents (the (executor_queue h))"

definition life_pending :: "('c, 't) wlh_rtt_host_impl \<Rightarrow> wlh_rtt_lifecycle_job list" where
  "life_pending h = mq_contents (the (lifecycle_queue h))"

lemma lifecycle_init_inv:
  assumes "wlh_rtt_lifecycle_init K al h = (RT_EOK, h')"
  shows "lifecycle_inv h' \<and> exec_pending h' = [] \<and> life_pending h' = [] \<and> executor_thread h' \<and> lifecycle_thread h'"
proof -
  obtain q1 :: "wlh_rtt_executor_job rt_messagequeue" where q1: "rt_mq_create (fst (exec_mq al)) (snd (exec_mq al)) 8 16 = Some q1"
    using assms by (auto simp: wlh_rtt_lifecycle_init_def Let_def split: if_splits)
  obtain q2 :: "wlh_rtt_lifecycle_job rt_messagequeue" where q2: "rt_mq_create (fst (life_mq al)) (snd (life_mq al)) 12 4 = Some q2"
    using assms by (auto simp: wlh_rtt_lifecycle_init_def Let_def split: if_splits)
  show ?thesis using assms q1 q2 mq_create_inv [OF q1] mq_create_inv [OF q2]
    by (auto simp: wlh_rtt_lifecycle_init_def lifecycle_inv_def exec_pending_def life_pending_def Let_def
        split: if_splits prod.splits)
qed

lemma post_outcome:
  assumes "mq_inv_n n q"
  shows "mq_inv_n n (snd (rt_mq_send q x n)) \<and> max_msgs (snd (rt_mq_send q x n)) = max_msgs q \<and>
    (if length (mq_contents q) < max_msgs q
     then fst (rt_mq_send q x n) = RT_EOK \<and> mq_contents (snd (rt_mq_send q x n)) = mq_contents q @ [x]
     else fst (rt_mq_send q x n) \<noteq> RT_EOK \<and> snd (rt_mq_send q x n) = q)"
  using mq.send_inv [OF assms, of x] mq.send_space [OF assms, of x] mq.send_full [OF assms, of x] by auto

text \<open>A host with its threads created, then with one job of each kind.\<close>

definition life_ready :: "(unit, unit) wlh_rtt_host_impl" where
  "life_ready = snd (wlh_rtt_lifecycle_init sample_core
     \<lparr> exec_mq = (True, True), life_mq = (True, True), exec_thr = True, life_thr = True \<rparr> sample_host)"

lemma life_ready_inv: "lifecycle_inv life_ready" "exec_pending life_ready = []" "life_pending life_ready = []" "initialized life_ready"
proof -
  have "wlh_rtt_lifecycle_init sample_core
      \<lparr> exec_mq = (True, True), life_mq = (True, True), exec_thr = True, life_thr = True \<rparr> sample_host = (RT_EOK, life_ready)"
    by (simp add: life_ready_def wlh_rtt_lifecycle_init_def rt_mq_create_def sample_core_def Let_def)
  from lifecycle_init_inv [OF this] show "lifecycle_inv life_ready" "exec_pending life_ready = []" "life_pending life_ready = []"
    by simp_all
  show "initialized life_ready"
    by (simp add: life_ready_def wlh_rtt_lifecycle_init_def rt_mq_create_def sample_core_def sample_host_def Let_def)
qed

lemma post_one:
  assumes "lifecycle_inv h" "exec_pending h = []" "life_pending h = []" "initialized h"
  shows "\<exists>h'. lifecycle_inv h' \<and> initialized h' \<and> exec_pending h' = [\<lparr> task = Some f, task_context = c \<rparr>] \<and>
    life_pending h' = [\<lparr> job_start = s, job_completion = g, job_context = d \<rparr>] \<and>
    h' = snd (submit_lifecycle s (Some g) d (the (snd (executor_post (Some f) c (Some h)))))"
proof -
  obtain q1 q2 where q: "executor_queue h = Some q1" "mq_inv_n 8 q1" "max_msgs q1 = 16"
    "lifecycle_queue h = Some q2" "mq_inv_n 12 q2" "max_msgs q2 = 4"
    using assms by (auto simp: lifecycle_inv_def)
  have e: "mq_contents q1 = []" "mq_contents q2 = []" using assms q by (simp_all add: exec_pending_def life_pending_def)
  show ?thesis
    using q e assms(4) post_outcome [OF q(2), of "\<lparr> task = Some f, task_context = c \<rparr>"]
      post_outcome [OF q(5), of "\<lparr> job_start = s, job_completion = g, job_context = d \<rparr>"]
    by (auto simp: executor_post_def submit_lifecycle_def lifecycle_inv_def exec_pending_def life_pending_def
        case_prod_beta Let_def)
qed

text \<open>
  Posting a task or a transport operation appends it to the queue of its thread in order, and
  fails with -1 exactly when the queue already holds its 16 tasks or 4 operations, in which case
  nothing changes; a missing function or completion is refused.
\<close>

lemma lifecycle_posting:
  assumes "lifecycle_inv h"
  shows "(case executor_post (Some f) ctx (Some h) of
       (r, h') \<Rightarrow> lifecycle_inv (the h') \<and>
         (if length (exec_pending h) < WLH_RTT_EXECUTOR_DEPTH
          then r = 0 \<and> exec_pending (the h') = exec_pending h @ [\<lparr> task = Some f, task_context = ctx \<rparr>]
          else r = - 1 \<and> the h' = h)) \<and>
     (case submit_lifecycle s (Some f) ctx h of
       (r, h') \<Rightarrow> lifecycle_inv h' \<and>
         (if length (life_pending h) < WLH_RTT_LIFECYCLE_DEPTH
          then r = 0 \<and> life_pending h' = life_pending h @ [\<lparr> job_start = s, job_completion = f, job_context = ctx \<rparr>]
          else r = - 1 \<and> h' = h)) \<and>
     executor_post None ctx (Some h) = (- 1, Some h) \<and> submit_lifecycle s None ctx h = (- 1, h)"
proof -
  obtain q1 q2 where q: "executor_queue h = Some q1" "mq_inv_n 8 q1" "max_msgs q1 = 16"
    "lifecycle_queue h = Some q2" "mq_inv_n 12 q2" "max_msgs q2 = 4"
    using assms by (auto simp: lifecycle_inv_def)
  have "h\<lparr> executor_queue := Some q1 \<rparr> = h" "h\<lparr> lifecycle_queue := Some q2 \<rparr> = h" using q by simp_all
  then show ?thesis
    using q post_outcome [OF q(2), of "\<lparr> task = Some f, task_context = ctx \<rparr>"]
      post_outcome [OF q(5), of "\<lparr> job_start = s, job_completion = f, job_context = ctx \<rparr>"]
    by (auto simp: executor_post_def submit_lifecycle_def lifecycle_inv_def exec_pending_def life_pending_def
        case_prod_beta Let_def)
qed

lemma lifecycle_posting_example:
  "case submit_lifecycle True (Some 1) 2 life_ready of
     (r, h') \<Rightarrow> r = 0 \<and> life_pending h' = [\<lparr> job_start = True, job_completion = 1, job_context = 2 \<rparr>]"
  using lifecycle_posting [OF life_ready_inv(1), of 1 2 True] life_ready_inv(3) by (simp add: case_prod_beta)

text \<open>
  As written, the executor and the lifecycle thread never run a job: both take RT_EOK for
  success, but a successful rt_mq_recv returns the message length. A round on a non-empty queue
  removes the oldest job and leaves the Core and the transport as they were, so no Core task runs
  and the transport is never started or stopped.
\<close>

theorem lifecycle_jobs_never_run:
  assumes "lifecycle_inv h" and "initialized h" and "exec_pending h = j # js" and "life_pending h = k # ks"
  shows "(\<exists>h'. executor_main K h = Round h' \<and> exec_pending h' = js \<and> core h' = core h) \<and>
     (\<exists>h'. lifecycle_main K h = Round h' \<and> life_pending h' = ks \<and> core h' = core h \<and>
        transport_context h' = transport_context h)"
proof -
  obtain q1 q2 where q: "executor_queue h = Some q1" "mq_inv_n 8 q1" "lifecycle_queue h = Some q2" "mq_inv_n 12 q2"
    using assms(1) by (auto simp: lifecycle_inv_def)
  have "mq_contents q1 = j # js" "mq_contents q2 = k # ks" using assms(3,4) q by (simp_all add: exec_pending_def life_pending_def)
  then obtain q1' q2' where "rt_mq_recv q1 8 (- 1) = Returns (int 8) (Some j) q1'" "mq_contents q1' = js"
    "rt_mq_recv q2 12 (- 1) = Returns (int 12) (Some k) q2'" "mq_contents q2' = ks"
    using q by (metis mq_recv_head)
  then show ?thesis using q assms(2)
    by (simp add: executor_main_def lifecycle_main_def exec_pending_def life_pending_def Let_def)
qed

theorem lifecycle_jobs_never_run_example:
  "\<exists>(h :: (unit, unit) wlh_rtt_host_impl) h'. life_pending h = [\<lparr> job_start = True, job_completion = 1, job_context = 2 \<rparr>] \<and>
     lifecycle_main sample_core h = Round h' \<and> life_pending h' = [] \<and> transport_context h' = transport_context h"
proof -
  obtain h :: "(unit, unit) wlh_rtt_host_impl" where h: "lifecycle_inv h" "initialized h" "exec_pending h = [\<lparr> task = Some 1, task_context = 0 \<rparr>]"
    "life_pending h = [\<lparr> job_start = True, job_completion = 1, job_context = 2 \<rparr>]"
    using post_one [OF life_ready_inv, of 1 0 True 1 2] by blast
  show ?thesis using lifecycle_jobs_never_run [OF h, of sample_core] h(4) by blast
qed

end
