(* ===== verification/Iperf2_Proto.thy ===== *)
theory Iperf2_Proto
  imports Prelude
begin

text \<open>
  The iPerf2 datagram formats of packages/wlh_rtt_host/iperf2/wlh_rtt_iperf2_proto.c. A buffer
  argument is the array it points to, or \<open>None\<close> for a null pointer; \<open>sz\<close> is the size the caller
  passes. The three out-parameters of the decoder are one result.
\<close>

abbreviation (input) WLH_IPERF2_PORT :: u16 where "WLH_IPERF2_PORT \<equiv> 5001"
abbreviation (input) WLH_IPERF2_UDP_SIZE :: nat where "WLH_IPERF2_UDP_SIZE \<equiv> 1470"
abbreviation (input) WLH_IPERF2_UDP_HEADER_SIZE :: nat where "WLH_IPERF2_UDP_HEADER_SIZE \<equiv> 12"
abbreviation (input) WLH_IPERF2_UDP_SERVER_REPORT_SIZE :: nat where
  "WLH_IPERF2_UDP_SERVER_REPORT_SIZE \<equiv> 52"

definition wlh_iperf2_udp_header_encode ::
  "u8 list option \<Rightarrow> nat \<Rightarrow> s32 \<Rightarrow> u32 \<Rightarrow> u32 \<Rightarrow> int \<times> u8 list option" where
  "wlh_iperf2_udp_header_encode buffer sz sequence seconds microseconds =
   (case buffer of
      None \<Rightarrow> (- 1, None)
    | Some b \<Rightarrow>
        if sz < WLH_IPERF2_UDP_HEADER_SIZE then (- 1, Some b)
        else (0, Some (blit b 0 (be32 sequence @ be32 seconds @ be32 microseconds))))"

definition wlh_iperf2_udp_header_decode ::
  "u8 list option \<Rightarrow> nat \<Rightarrow> bool \<Rightarrow> int \<times> (s32 \<times> u32 \<times> u32) option" where
  "wlh_iperf2_udp_header_decode buffer sz outs =
   (case buffer of
      None \<Rightarrow> (- 1, None)
    | Some b \<Rightarrow>
        if sz < WLH_IPERF2_UDP_HEADER_SIZE \<or> \<not> outs then (- 1, None)
        else (0, Some (be32_at b 0, be32_at b 4, be32_at b 8)))"

definition wlh_iperf2_udp_server_report_encode ::
  "u8 list option \<Rightarrow> nat \<Rightarrow> u64 \<Rightarrow> u32 \<Rightarrow> u32 \<Rightarrow> u32 \<Rightarrow> u32 \<Rightarrow> int \<times> u8 list option" where
  "wlh_iperf2_udp_server_report_encode buffer sz total_bytes elapsed errors out_of_order datagrams =
   (case buffer of
      None \<Rightarrow> (- 1, None)
    | Some b \<Rightarrow>
        if sz < WLH_IPERF2_UDP_SERVER_REPORT_SIZE then (- 1, Some b)
        else (0, Some (blit b WLH_IPERF2_UDP_HEADER_SIZE
               (be32 0x80000000 @ be32 (ucast (drop_bit 32 total_bytes)) @ be32 (ucast total_bytes) @
                be32 (elapsed div 1000) @ be32 ((elapsed mod 1000) * 1000) @
                be32 errors @ be32 out_of_order @ be32 datagrams @ be32 0 @ be32 0))))"

subsection \<open>Reading fields back\<close>

lemma seg_append_skip: "length a = n \<Longrightarrow> n \<le> i \<Longrightarrow> seg (a @ c) i k = seg c (i - n) k"
  by (simp add: seg_def)

lemma seg_append_hit: "length a = k \<Longrightarrow> seg (a @ c) 0 k = a"
  by (simp add: seg_def)

lemma be32_at_blit:
  assumes "i + length s \<le> length d" and "k + 4 \<le> length s" and "seg s k 4 = be32 x"
  shows "be32_at (blit d i s) (i + k) = x"
proof (rule be32_roundtrip)
  have "seg (blit d i s) (i + k) 4 = seg s k 4"
    using assms(1,2) by (auto simp: seg_def blit_def)
  then show "seg (blit d i s) (i + k) 4 = be32 x" using assms(3) by simp
next
  show "i + k + 4 \<le> length (blit d i s)" using assms by simp
qed

lemma seg_all: "length a = k \<Longrightarrow> seg a 0 k = a"
  by (simp add: seg_def)

lemmas field_reads = seg_append_skip seg_append_hit seg_all

lemma length_header_encode:
  assumes "sz \<le> length b" and "wlh_iperf2_udp_header_encode (Some b) sz q s u = (rc, Some b')"
  shows "length b' = length b"
  using assms by (auto simp: wlh_iperf2_udp_header_encode_def split: if_splits)

lemma header_decode_encode:
  assumes "12 \<le> sz" "sz \<le> length b" "12 \<le> sz'"
    and "wlh_iperf2_udp_header_encode (Some b) sz q s u = (rc, Some b')"
  shows "wlh_iperf2_udp_header_decode (Some b') sz' True = (0, Some (q, s, u))"
proof -
  let ?s = "be32 q @ be32 s @ be32 u"
  have b': "b' = blit b 0 ?s" using assms(1,4) by (auto simp: wlh_iperf2_udp_header_encode_def)
  have l: "0 + length ?s \<le> length b" using assms(1,2) by simp
  have "be32_at b' (0 + 0) = q" "be32_at b' (0 + 4) = s" "be32_at b' (0 + 8) = u"
    unfolding b' by (rule be32_at_blit [OF l]; simp add: field_reads)+
  then show ?thesis using assms(3) by (simp add: wlh_iperf2_udp_header_decode_def)
qed

subsection \<open>Properties\<close>

text \<open>
  C25: Decoding a header that was encoded into a buffer of at least 12 bytes gives back the
  sequence number and the time stamp, and encoding changes no byte after the header.
\<close>

theorem iperf2_header_roundtrip:
  assumes "WLH_IPERF2_UDP_HEADER_SIZE \<le> sz" and "sz \<le> length b"
  shows "\<exists>b'. wlh_iperf2_udp_header_encode (Some b) sz q s u = (0, Some b') \<and>
           wlh_iperf2_udp_header_decode (Some b') sz True = (0, Some (q, s, u)) \<and>
           length b' = length b \<and> drop 12 b' = drop 12 b"
proof -
  have e: "wlh_iperf2_udp_header_encode (Some b) sz q s u =
      (0, Some (blit b 0 (be32 q @ be32 s @ be32 u)))"
    using assms(1) by (simp add: wlh_iperf2_udp_header_encode_def)
  then show ?thesis
    using header_decode_encode [OF assms(1,2,1) e] length_header_encode [OF assms(2) e]
    by (simp add: blit_def)
qed

theorem iperf2_header_roundtrip_witness:
  "\<exists>b'. wlh_iperf2_udp_header_encode (Some (replicate 1470 0x5a)) 1470 (- 7) 3 250000 = (0, Some b') \<and>
     wlh_iperf2_udp_header_decode (Some b') 1470 True = (0, Some (- 7, 3, 250000)) \<and>
     length b' = length (replicate 1470 (0x5a :: u8)) \<and>
     drop 12 b' = drop 12 (replicate 1470 0x5a)"
  using iperf2_header_roundtrip [of 1470 "replicate 1470 0x5a" "- 7" 3 250000] by simp

text \<open>
  The server report leaves the received header in place and carries the flag word, the 64-bit
  byte count split into two words, the time as seconds and microseconds, and the three counters;
  the byte count is recovered from the two words.
\<close>

lemma iperf2_report_fields:
  assumes "WLH_IPERF2_UDP_SERVER_REPORT_SIZE \<le> sz" and "sz \<le> length b"
  shows "\<exists>b'. wlh_iperf2_udp_server_report_encode (Some b) sz tb ms err ooo n = (0, Some b') \<and>
           length b' = length b \<and> take 12 b' = take 12 b \<and>
           be32_at b' 12 = 0x80000000 \<and>
           push_bit 32 (ucast (be32_at b' 16)) OR ucast (be32_at b' 20) = tb \<and>
           be32_at b' 24 = ms div 1000 \<and> be32_at b' 28 = (ms mod 1000) * 1000 \<and>
           be32_at b' 32 = err \<and> be32_at b' 36 = ooo \<and> be32_at b' 40 = n"
proof -
  let ?s = "be32 0x80000000 @ be32 (ucast (drop_bit 32 tb)) @ be32 (ucast tb) @
      be32 (ms div 1000) @ be32 ((ms mod 1000) * 1000) @ be32 err @ be32 ooo @ be32 n @ be32 0 @ be32 0"
  let ?b = "blit b 12 ?s"
  have e: "wlh_iperf2_udp_server_report_encode (Some b) sz tb ms err ooo n = (0, Some ?b)"
    using assms(1) by (simp add: wlh_iperf2_udp_server_report_encode_def)
  have l: "12 + length ?s \<le> length b" using assms by simp
  have f: "be32_at ?b (12 + 0) = 0x80000000" "be32_at ?b (12 + 4) = ucast (drop_bit 32 tb)"
    "be32_at ?b (12 + 8) = ucast tb" "be32_at ?b (12 + 12) = ms div 1000"
    "be32_at ?b (12 + 16) = (ms mod 1000) * 1000" "be32_at ?b (12 + 20) = err"
    "be32_at ?b (12 + 24) = ooo" "be32_at ?b (12 + 28) = n"
    by (rule be32_at_blit [OF l]; simp add: field_reads)+
  have "push_bit 32 (ucast (ucast (drop_bit 32 tb) :: u32)) OR ucast (ucast tb :: u32) = tb"
    by (rule bit_word_eqI) (auto simp: bit_simps)
  then show ?thesis using e f l by (intro exI [of _ ?b]) (simp add: blit_def)
qed

lemma iperf2_report_fields_example:
  "\<exists>b'. wlh_iperf2_udp_server_report_encode (Some (replicate 1470 0)) 1470 0x100000002 1250 3 4 5 = (0, Some b') \<and>
     length b' = length (replicate 1470 (0 :: u8)) \<and> take 12 b' = take 12 (replicate 1470 0) \<and>
     be32_at b' 12 = 0x80000000 \<and>
     push_bit 32 (ucast (be32_at b' 16)) OR ucast (be32_at b' 20) = (0x100000002 :: u64) \<and>
     be32_at b' 24 = 1250 div 1000 \<and> be32_at b' 28 = (1250 mod 1000) * 1000 \<and>
     be32_at b' 32 = 3 \<and> be32_at b' 36 = 4 \<and> be32_at b' 40 = 5"
  using iperf2_report_fields [of 1470 "replicate 1470 0" "0x100000002" 1250 3 4 5]
  by (simp only: length_replicate)

end
