(* ===== verification/Iperf2.thy ===== *)
theory Iperf2
  imports Iperf2_Proto
begin

text \<open>
  The iPerf2 sessions of packages/wlh_rtt_host/iperf2/wlh_rtt_iperf2.c: the four traffic loops, the
  session thread and the start/stop interface.

  The socket layer and the clock are outside the repository's package. What their calls return is
  an input of the model: \<open>iperf_io\<close> holds the results of the calls made once, and \<open>iteration\<close> the
  observations of one round of a traffic loop. A loop consumes one observation per round and
  yields \<open>None\<close> while the observations given do not reach its end. \<open>wlh_rtt_iperf2_stop\<close>, which
  another thread may call at any time, takes effect before the guard of a round (\<open>it_stop\<close>).
  What a session sends, shuts down and closes is an output. \<open>inet_addr\<close> belongs to the socket
  layer and is a parameter. \<open>INADDR_NONE\<close> is 0xffffffff.
\<close>

abbreviation (input) WLH_RTT_IPERF2_TCP :: u32 where "WLH_RTT_IPERF2_TCP \<equiv> 1"
abbreviation (input) WLH_RTT_IPERF2_UDP :: u32 where "WLH_RTT_IPERF2_UDP \<equiv> 2"
abbreviation (input) WLH_RTT_IPERF2_CLIENT :: u32 where "WLH_RTT_IPERF2_CLIENT \<equiv> 1"
abbreviation (input) WLH_RTT_IPERF2_SERVER :: u32 where "WLH_RTT_IPERF2_SERVER \<equiv> 2"
abbreviation (input) RT_TICK_PER_SECOND :: u32 where "RT_TICK_PER_SECOND \<equiv> 1000"
abbreviation (input) INADDR_NONE :: u32 where "INADDR_NONE \<equiv> 0xffffffff"

record wlh_rtt_iperf2_config =
  protocol :: u32
  role :: u32
  peer_ipv4 :: "string option"
  port :: u16
  seconds :: u32
  udp_mbps :: u32

record iperf_state =
  config :: wlh_rtt_iperf2_config
  peer :: string
  thread :: bool
  running :: bool
  cancel :: bool
  socket_fd :: int
  data_fd :: int

record iteration =
  it_stop :: bool
  it_tick :: u32
  it_now :: u32
  it_rc :: int
  it_data :: "u8 list"
  it_from :: "u32 \<times> u16"

record iperf_io =
  io_start :: u32
  io_socket :: int
  io_connect :: int
  io_bind :: int
  io_listen :: int
  io_accept :: int
  io_accept_tick :: u32
  io_iterations :: "iteration list"
  io_end1 :: u32
  io_end2 :: u32

text \<open>A datagram sent: destination address and port, and contents.\<close>

type_synonym datagram = "(u32 \<times> u16) \<times> u8 list"

definition elapsed_ms :: "u32 \<Rightarrow> u32 \<Rightarrow> u32" where
  "elapsed_ms now start = (now - start) * 1000 div RT_TICK_PER_SECOND"

text \<open>The file descriptor after \<open>close_fd\<close> and what is passed to \<open>closesocket\<close>.\<close>

definition close_fd :: "int \<Rightarrow> int list \<times> int" where
  "close_fd fd = (if fd \<ge> 0 then ([fd], - 1) else ([], fd))"

text \<open>The return code, the descriptors shut down, and the state.\<close>

definition wlh_rtt_iperf2_stop :: "iperf_state \<Rightarrow> int \<times> int list \<times> iperf_state" where
  "wlh_rtt_iperf2_stop state =
   (if \<not> running state then (RT_EOK, [], state)
    else let state = state\<lparr> cancel := True \<rparr>
         in (RT_EOK,
             (if data_fd state \<ge> 0 then [data_fd state] else []) @
             (if socket_fd state \<ge> 0 then [socket_fd state] else []), state))"

definition wlh_rtt_iperf2_is_running :: "iperf_state \<Rightarrow> int" where
  "wlh_rtt_iperf2_is_running state = (if running state then 1 else 0)"

text \<open>A stop request that arrives before the guard of a round, and the guard.\<close>

definition observe_stop :: "iteration \<Rightarrow> iperf_state \<Rightarrow> iperf_state" where
  "observe_stop it state = (if it_stop it then snd (snd (wlh_rtt_iperf2_stop state)) else state)"

definition loop_guard :: "iperf_state \<Rightarrow> u32 \<Rightarrow> u32 \<Rightarrow> bool" where
  "loop_guard state start tick \<longleftrightarrow>
     \<not> cancel state \<and> elapsed_ms tick start < seconds (config state) * 1000"

text \<open>The loop of \<open>tcp_client\<close> and \<open>tcp_server\<close>: transfer until the call returns 0 or less.\<close>

fun tcp_loop :: "u32 \<Rightarrow> iperf_state \<Rightarrow> iteration list \<Rightarrow> iperf_state option" where
  "tcp_loop start state [] = None"
| "tcp_loop start state (it # its) =
   (let state = observe_stop it state in
    if \<not> loop_guard state start (it_tick it) then Some state
    else if it_rc it \<le> 0 then Some state
    else tcp_loop start state its)"

definition tcp_client :: "iperf_io \<Rightarrow> iperf_state \<Rightarrow> iperf_state option" where
  "tcp_client io state =
   (let state = state\<lparr> socket_fd := io_socket io \<rparr> in
    if socket_fd state < 0 then Some state
    else if io_connect io \<noteq> 0 then Some state
    else tcp_loop (io_start io) state (io_iterations io))"

definition tcp_server :: "iperf_io \<Rightarrow> iperf_state \<Rightarrow> iperf_state option" where
  "tcp_server io state =
   (let state = state\<lparr> socket_fd := io_socket io \<rparr> in
    if socket_fd state < 0 then Some state
    else if io_bind io \<noteq> 0 \<or> io_listen io \<noteq> 0 then Some state
    else let state = state\<lparr> data_fd := io_accept io \<rparr> in
      if data_fd state < 0 then Some state
      else tcp_loop (io_accept_tick io) state (io_iterations io))"

definition packet_budget :: "u64 \<Rightarrow> u32 \<Rightarrow> u64" where
  "packet_budget bytes_per_second now_ms =
     bytes_per_second * ucast now_ms div (of_nat WLH_IPERF2_UDP_SIZE * 1000)"

text \<open>
  The loop of \<open>udp_client\<close>; it yields the state, the sequence counter, the buffer and the
  datagrams sent. Encoding cannot fail, as the buffer has 1470 bytes.
\<close>

definition put_header :: "u8 list \<Rightarrow> s32 \<Rightarrow> u32 \<Rightarrow> u32 \<Rightarrow> u8 list" where
  "put_header buffer q s u = the (snd (wlh_iperf2_udp_header_encode (Some buffer) (length buffer) q s u))"

fun udp_client_loop ::
  "u32 \<Rightarrow> u64 \<Rightarrow> (u32 \<times> u16) \<Rightarrow> iperf_state \<Rightarrow> u32 \<Rightarrow> u8 list \<Rightarrow> iteration list
   \<Rightarrow> (iperf_state \<times> u32 \<times> u8 list \<times> datagram list) option" where
  "udp_client_loop start bps dest state sequence buffer [] = None"
| "udp_client_loop start bps dest state sequence buffer (it # its) =
   (let state = observe_stop it state in
    if \<not> loop_guard state start (it_tick it) then Some (state, sequence, buffer, [])
    else
      let now_ms = elapsed_ms (it_now it) start in
      if ucast sequence \<ge> packet_budget bps now_ms
      then udp_client_loop start bps dest state sequence buffer its
      else
        let buffer = put_header buffer sequence (now_ms div 1000) ((now_ms mod 1000) * 1000);
            sequence = sequence + 1
        in if it_rc it < 0 then Some (state, sequence, buffer, [(dest, buffer)])
           else map_option (\<lambda>(st, q, b, sent). (st, q, b, (dest, buffer) # sent))
                  (udp_client_loop start bps dest state sequence buffer its))"

definition udp_client ::
  "(string \<Rightarrow> u32) \<Rightarrow> iperf_io \<Rightarrow> iperf_state \<Rightarrow> (iperf_state \<times> datagram list) option" where
  "udp_client inet_addr io state =
   (let bytes_per_second = ucast (udp_mbps (config state)) * 125000 :: u64;
        start = io_start io;
        state = state\<lparr> socket_fd := io_socket io \<rparr>
    in if socket_fd state < 0 then Some (state, [])
       else
         let dest = (inet_addr (peer state), port (config state)) in
         case udp_client_loop start bytes_per_second dest state 0
                (replicate WLH_IPERF2_UDP_SIZE 0x5a) (io_iterations io) of
           None \<Rightarrow> None
         | Some (state, sequence, buffer, sent) \<Rightarrow>
             let buffer = put_header buffer (- sequence)
                   (elapsed_ms (io_end1 io) start div 1000)
                   ((elapsed_ms (io_end2 io) start mod 1000) * 1000)
             in Some (state, sent @ [(dest, buffer)]))"

text \<open>The counters of \<open>udp_server\<close>, and the part of its loop body after the header was decoded.\<close>

record udp_counters =
  total_bytes :: u64
  datagrams :: u32
  errors :: u32
  out_of_order :: u32
  expected_sequence :: s32

definition udp_server_count :: "udp_counters \<Rightarrow> u32 \<Rightarrow> s32 \<Rightarrow> udp_counters" where
  "udp_server_count c received sequence =
   (let c = c\<lparr> total_bytes := total_bytes c + ucast received, datagrams := datagrams c + 1 \<rparr>;
        c = (if sint sequence < sint (expected_sequence c)
             then c\<lparr> out_of_order := out_of_order c + 1 \<rparr>
             else if sint sequence > sint (expected_sequence c)
             then c\<lparr> errors := errors c + (sequence - expected_sequence c) \<rparr>
             else c)
    in if sint sequence \<ge> sint (expected_sequence c)
       then c\<lparr> expected_sequence := sequence + 1 \<rparr> else c)"

text \<open>
  \<open>recvfrom\<close> returns \<open>it_rc\<close> and, when positive, has written \<open>it_data\<close> to the start of the buffer.
\<close>

fun udp_server_loop ::
  "u32 \<Rightarrow> iperf_state \<Rightarrow> udp_counters \<Rightarrow> u8 list \<Rightarrow> iteration list
   \<Rightarrow> (iperf_state \<times> udp_counters \<times> datagram list) option" where
  "udp_server_loop start state c buffer [] = None"
| "udp_server_loop start state c buffer (it # its) =
   (let state = observe_stop it state in
    if \<not> loop_guard state start (it_tick it) then Some (state, c, [])
    else if it_rc it \<le> 0 then udp_server_loop start state c buffer its
    else
      let buffer = blit buffer 0 (it_data it) in
      case wlh_iperf2_udp_header_decode (Some buffer) (nat (it_rc it)) True of
        (_, None) \<Rightarrow> udp_server_loop start state c buffer its
      | (_, Some (sequence, _, _)) \<Rightarrow>
          if sint sequence < 0 then
            let report = the (snd (wlh_iperf2_udp_server_report_encode (Some buffer) (length buffer)
                  (total_bytes c) (elapsed_ms (it_now it) start) (errors c) (out_of_order c) (datagrams c)))
            in Some (state, c, [(it_from it, take WLH_IPERF2_UDP_SERVER_REPORT_SIZE report)])
          else udp_server_loop start state (udp_server_count c (of_int (it_rc it)) sequence) buffer its)"

definition udp_counters_zero :: udp_counters where
  "udp_counters_zero = \<lparr> total_bytes = 0, datagrams = 0, errors = 0, out_of_order = 0, expected_sequence = 0 \<rparr>"

text \<open>The buffer of \<open>udp_server\<close> is an uninitialised local array: its contents are an argument.\<close>

definition udp_server ::
  "u8 list \<Rightarrow> iperf_io \<Rightarrow> iperf_state \<Rightarrow> (iperf_state \<times> udp_counters \<times> datagram list) option" where
  "udp_server stack io state =
   (let state = state\<lparr> socket_fd := io_socket io \<rparr> in
    if socket_fd state < 0 then Some (state, udp_counters_zero, [])
    else if io_bind io \<noteq> 0 then Some (state, udp_counters_zero, [])
    else udp_server_loop (io_start io) state udp_counters_zero stack (io_iterations io))"

text \<open>The session thread: the state it leaves, the datagrams sent, the descriptors closed.\<close>

definition iperf_session ::
  "(string \<Rightarrow> u32) \<Rightarrow> u8 list \<Rightarrow> iperf_io \<Rightarrow> iperf_state \<Rightarrow> (iperf_state \<times> datagram list) option" where
  "iperf_session inet_addr stack io state =
   (if protocol (config state) = WLH_RTT_IPERF2_TCP \<and> role (config state) = WLH_RTT_IPERF2_CLIENT
    then map_option (\<lambda>st. (st, [])) (tcp_client io state)
    else if protocol (config state) = WLH_RTT_IPERF2_TCP
    then map_option (\<lambda>st. (st, [])) (tcp_server io state)
    else if role (config state) = WLH_RTT_IPERF2_CLIENT
    then udp_client inet_addr io state
    else map_option (\<lambda>(st, c, sent). (st, sent)) (udp_server stack io state))"

definition iperf_main ::
  "(string \<Rightarrow> u32) \<Rightarrow> u8 list \<Rightarrow> iperf_io \<Rightarrow> iperf_state
   \<Rightarrow> (iperf_state \<times> datagram list \<times> int list) option" where
  "iperf_main inet_addr stack io state =
   (case iperf_session inet_addr stack io state of
      None \<Rightarrow> None
    | Some (state, sent) \<Rightarrow>
        let (closed1, dfd) = close_fd (data_fd state);
            (closed2, sfd) = close_fd (socket_fd state)
        in Some (state\<lparr> data_fd := dfd, socket_fd := sfd, running := False \<rparr>, sent, closed1 @ closed2))"

text \<open>
  \<open>thread_ok\<close> says whether \<open>rt_thread_create\<close> succeeded, \<open>startup_rc\<close> is what \<open>rt_thread_startup\<close>
  returns. \<open>rt_strncpy\<close> copies at most 15 characters into the zeroed array of 16.
\<close>

definition wlh_rtt_iperf2_start ::
  "(string \<Rightarrow> u32) \<Rightarrow> bool \<Rightarrow> int \<Rightarrow> wlh_rtt_iperf2_config option \<Rightarrow> iperf_state \<Rightarrow> int \<times> iperf_state" where
  "wlh_rtt_iperf2_start inet_addr thread_ok startup_rc cfg state =
   (case cfg of
      None \<Rightarrow> (- RT_EINVAL, state)
    | Some c \<Rightarrow>
        if running state \<or>
           (protocol c \<noteq> WLH_RTT_IPERF2_TCP \<and> protocol c \<noteq> WLH_RTT_IPERF2_UDP) \<or>
           (role c \<noteq> WLH_RTT_IPERF2_CLIENT \<and> role c \<noteq> WLH_RTT_IPERF2_SERVER) \<or>
           (role c = WLH_RTT_IPERF2_CLIENT \<and>
            (case peer_ipv4 c of None \<Rightarrow> True | Some p \<Rightarrow> inet_addr p = INADDR_NONE))
        then (- RT_EINVAL, state)
        else
          let conf = c\<lparr> port := (if port c = 0 then WLH_IPERF2_PORT else port c),
                        seconds := (if seconds c = 0 then 30 else seconds c),
                        udp_mbps := (if udp_mbps c = 0 then 20 else udp_mbps c) \<rparr>;
              (pr, conf) = (case peer_ipv4 c of
                              None \<Rightarrow> ([], conf)
                            | Some p \<Rightarrow> (take 15 p, conf\<lparr> peer_ipv4 := Some (take 15 p) \<rparr>));
              st = \<lparr> config = conf, peer = pr, thread = thread_ok, running = True, cancel = False,
                     socket_fd = - 1, data_fd = - 1 \<rparr>
          in if \<not> thread_ok then (- RT_ENOMEM, st\<lparr> running := False \<rparr>)
             else (startup_rc, st))"

subsection \<open>Descriptors\<close>

lemma observe_stop_simps [simp]:
  "socket_fd (observe_stop it st) = socket_fd st" "data_fd (observe_stop it st) = data_fd st"
  "config (observe_stop it st) = config st" "running (observe_stop it st) = running st"
  "peer (observe_stop it st) = peer st"
  by (simp_all add: observe_stop_def wlh_rtt_iperf2_stop_def Let_def)

lemma observe_stop_cancel: "it_stop it \<Longrightarrow> running st \<Longrightarrow> cancel (observe_stop it st)"
  by (simp add: observe_stop_def wlh_rtt_iperf2_stop_def Let_def)

lemma cancel_guard [simp]: "cancel st \<Longrightarrow> \<not> loop_guard st start tick"
  by (simp add: loop_guard_def)

lemma tcp_loop_fds:
  "tcp_loop start st its = Some st' \<Longrightarrow> socket_fd st' = socket_fd st \<and> data_fd st' = data_fd st"
  by (induction start st its rule: tcp_loop.induct) (auto simp: Let_def split: if_splits)

lemma udp_client_loop_fds:
  "udp_client_loop start bps dest st q b its = Some (st', r) \<Longrightarrow>
   socket_fd st' = socket_fd st \<and> data_fd st' = data_fd st"
proof (induction start bps dest st q b its arbitrary: r rule: udp_client_loop.induct)
  case (1 start bps dest st q b)
  then show ?case by simp
next
  case (2 start bps dest st q b it its)
  let ?st = "observe_stop it st" and ?ms = "elapsed_ms (it_now it) start"
  from 2(3) consider "st' = ?st"
    | "loop_guard ?st start (it_tick it)" "packet_budget bps ?ms \<le> ucast q"
        "udp_client_loop start bps dest ?st q b its = Some (st', r)"
    | b' r' where "loop_guard ?st start (it_tick it)" "\<not> packet_budget bps ?ms \<le> ucast q" "\<not> it_rc it < 0"
        "b' = put_header b q (?ms div 1000) ((?ms mod 1000) * 1000)"
        "udp_client_loop start bps dest ?st (q + 1) b' its = Some (st', r')"
    by (auto simp: Let_def split: if_splits)
  then show ?case
  proof cases
    case 1
    then show ?thesis by simp
  next
    case 2
    then show ?thesis using "2.IH"(1) [OF refl _ refl _ 2(3)] by simp
  next
    case 3
    then show ?thesis using "2.IH"(2) [OF refl _ refl _ 3(4) refl _ 3(5)] by simp
  qed
qed

lemma udp_server_loop_fds:
  "udp_server_loop start st c b its = Some (st', r) \<Longrightarrow>
   socket_fd st' = socket_fd st \<and> data_fd st' = data_fd st"
proof (induction its arbitrary: st c b)
  case Nil
  then show ?case by simp
next
  case (Cons it its)
  then show ?case
    by (auto simp: Let_def split: if_splits option.splits prod.splits)
qed

subsection \<open>Stopping\<close>

lemma tcp_loop_stops:
  "running st \<Longrightarrow> \<exists>it\<in>set its. it_stop it \<Longrightarrow> tcp_loop start st its \<noteq> None"
proof (induction its arbitrary: st)
  case Nil
  then show ?case by simp
next
  case (Cons it its)
  then show ?case by (cases "it_stop it") (simp_all add: Let_def observe_stop_cancel del: not_None_eq)
qed

lemma udp_client_loop_stops:
  "running st \<Longrightarrow> \<exists>it\<in>set its. it_stop it \<Longrightarrow> udp_client_loop start bps dest st q b its \<noteq> None"
proof (induction its arbitrary: st q b)
  case Nil
  then show ?case by simp
next
  case (Cons it its)
  then show ?case by (cases "it_stop it") (simp_all add: Let_def observe_stop_cancel del: not_None_eq)
qed

lemma udp_client_returns:
  assumes "running st" and "\<exists>it\<in>set (io_iterations io). it_stop it"
  shows "\<exists>st' sent. udp_client inet_addr io st = Some (st', sent) \<and>
    socket_fd st' = io_socket io \<and> data_fd st' = data_fd st"
  using udp_client_loop_stops [of "st\<lparr> socket_fd := io_socket io \<rparr>" "io_iterations io" "io_start io"
      "ucast (udp_mbps (config st)) * 125000" "(inet_addr (peer st), port (config st))" 0
      "replicate 1470 0x5a"] assms
  by (auto simp: udp_client_def Let_def del: not_None_eq split: option.splits dest: udp_client_loop_fds)

lemma udp_server_loop_stops:
  "running st \<Longrightarrow> \<exists>it\<in>set its. it_stop it \<Longrightarrow> udp_server_loop start st c b its \<noteq> None"
proof (induction its arbitrary: st c b)
  case Nil
  then show ?case by simp
next
  case (Cons it its)
  then show ?case
    by (cases "it_stop it")
      (simp_all add: Let_def observe_stop_cancel del: not_None_eq split: option.splits prod.splits)
qed

subsection \<open>Accounting of the UDP server\<close>

definition count_all :: "udp_counters \<Rightarrow> (u32 \<times> s32) list \<Rightarrow> udp_counters" where
  "count_all c rs = foldl (\<lambda>c (r, q). udp_server_count c r q) c rs"

lemma count_all_simps [simp]:
  "count_all c [] = c" "count_all c ((r, q) # rs) = count_all (udp_server_count c r q) rs"
  by (simp_all add: count_all_def)

lemma udp_server_count_balance:
  "errors c + datagrams c = expected_sequence c + out_of_order c \<Longrightarrow>
   errors (udp_server_count c r q) + datagrams (udp_server_count c r q) =
   expected_sequence (udp_server_count c r q) + out_of_order (udp_server_count c r q)"
  by (auto simp: udp_server_count_def Let_def algebra_simps dest: signed_word_eqI)

lemma count_all_balance:
  "errors c + datagrams c = expected_sequence c + out_of_order c \<Longrightarrow>
   errors (count_all c rs) + datagrams (count_all c rs) =
   expected_sequence (count_all c rs) + out_of_order (count_all c rs)"
  by (induction rs arbitrary: c) (auto simp: udp_server_count_balance)

lemma count_all_totals:
  "datagrams (count_all c rs) = datagrams c + of_nat (length rs)"
  "total_bytes (count_all c rs) = total_bytes c + (\<Sum>r\<leftarrow>rs. ucast (fst r))"
  by (induction rs arbitrary: c) (auto simp: udp_server_count_def Let_def algebra_simps)

text \<open>The expected sequence number is one more than the greatest seen.\<close>

definition next_expected :: "nat \<Rightarrow> nat list \<Rightarrow> nat" where
  "next_expected e qs = foldl (\<lambda>e q. max e (q + 1)) e qs"

lemma count_all_expected:
  assumes "expected_sequence c = of_nat e" "e < 2 ^ 31" "\<forall>q\<in>set qs. q + 1 < 2 ^ 31"
    and "map snd rs = map of_nat qs"
  shows "expected_sequence (count_all c rs) = of_nat (next_expected e qs)"
  using assms
proof (induction qs arbitrary: c e rs)
  case Nil
  then show ?case by (simp add: next_expected_def)
next
  case (Cons q qs)
  from Cons.prems(4) obtain r rs' where rs: "rs = (r, of_nat q) # rs'" "map snd rs' = map of_nat qs"
    by (cases rs) auto
  have "sint (of_nat q :: s32) = int q" "sint (of_nat e :: s32) = int e"
    using Cons.prems(2,3) by (simp_all add: sint_small)
  then have "expected_sequence (udp_server_count c r (of_nat q)) = of_nat (max e (q + 1))"
    using Cons.prems(1) by (cases "e = Suc q") (simp_all add: udp_server_count_def Let_def max_def)
  then show ?case using Cons.IH [of "udp_server_count c r (of_nat q)" "max e (q + 1)" rs'] Cons.prems rs
    by (simp add: next_expected_def)
qed

lemma next_expected_upper: "\<forall>q\<in>set qs. q < next_expected e qs"
proof -
  have mono: "e \<le> next_expected e qs" for e qs
    by (induction qs arbitrary: e) (auto simp: next_expected_def intro: le_trans [OF max.cobounded1])
  show ?thesis
  proof (induction qs arbitrary: e)
    case (Cons q qs)
    then show ?case using mono [of "max e (q + 1)" qs] by (auto simp: next_expected_def)
  qed simp
qed

lemma next_expected_bound: "e < B \<Longrightarrow> \<forall>q\<in>set qs. q + 1 < B \<Longrightarrow> next_expected e qs < B"
  by (induction qs arbitrary: e) (auto simp: next_expected_def)

subsection \<open>Numbering and pacing of the UDP client\<close>

lemma put_header_decode:
  "12 \<le> length b \<Longrightarrow> wlh_iperf2_udp_header_decode (Some (put_header b q s u)) (length b) True = (0, Some (q, s, u)) \<and>
   length (put_header b q s u) = length b"
proof -
  assume l: "12 \<le> length b"
  have e: "wlh_iperf2_udp_header_encode (Some b) (length b) q s u = (0, Some (put_header b q s u))"
    using l by (simp add: put_header_def wlh_iperf2_udp_header_encode_def)
  show ?thesis using header_decode_encode [OF l le_refl l e] length_header_encode [OF le_refl e] by simp
qed

lemma put_header_1470:
  assumes "length b = WLH_IPERF2_UDP_SIZE"
  shows "wlh_iperf2_udp_header_decode (Some (put_header b q s u)) WLH_IPERF2_UDP_SIZE True = (0, Some (q, s, u))"
    and "length (put_header b q s u) = WLH_IPERF2_UDP_SIZE"
  using put_header_decode [of b q s u] assms by simp_all

text \<open>
  A datagram with number \<open>q\<close>, sent at a tick of \<open>ticks\<close> when a rate of \<open>mbps\<close> Mbit/s allowed it: with it, the bytes of \<open>q + 1\<close> datagrams
  are not more than the rate gives since \<open>start\<close>. The datagram carries that time.
\<close>

definition paced :: "u32 \<Rightarrow> u32 set \<Rightarrow> u32 \<Rightarrow> (u32 \<times> u16) \<Rightarrow> u32 \<Rightarrow> datagram \<Rightarrow> bool" where
  "paced start ticks mbps dest q d \<longleftrightarrow> fst d = dest \<and> length (snd d) = 1470 \<and>
     (\<exists>now\<in>ticks. let ms = (now - start) * 1000 div 1000 in
        (unat q + 1) * 1470 * 1000 \<le> unat mbps * 125000 * unat ms \<and>
        wlh_iperf2_udp_header_decode (Some (snd d)) 1470 True = (0, Some (q, ms div 1000, (ms mod 1000) * 1000)))"

lemma paced_mono: "paced start A mbps dest q d \<Longrightarrow> A \<subseteq> B \<Longrightarrow> paced start B mbps dest q d"
  by (auto simp: paced_def Let_def)

lemma budget_rate:
  assumes "\<not> packet_budget (ucast mbps * 125000) ms \<le> ucast (q :: u32)"
  shows "(unat q + 1) * 1470 * 1000 \<le> unat (mbps :: u32) * 125000 * unat ms"
proof -
  let ?b = "ucast mbps * 125000 * ucast ms :: u64"
  have m: "unat mbps < 2 ^ 32" using unsigned_less [of mbps, where ?'a = nat] by simp
  have u: "unat (ucast v :: u64) = unat v" for v :: u32
    by (simp add: unsigned_ucast_eq take_bit_nat_eq_self unsigned_less [of v, where ?'a = nat, THEN less_trans])
  have "unat ?b \<le> unat (ucast mbps * 125000 :: u64) * unat (ucast ms :: u64)" by (simp add: unat_word_ariths)
  also have "unat (ucast mbps * 125000 :: u64) \<le> unat mbps * 125000" by (simp add: unat_word_ariths u)
  finally have b: "unat ?b \<le> unat mbps * 125000 * unat ms" by (simp add: u)
  have "unat q < unat ?b div 1470000" using assms by (simp add: packet_budget_def not_le word_less_nat_alt u unat_div)
  then have "(unat q + 1) * 1470000 \<le> unat ?b" by (simp add: less_eq_div_iff_mult_less_eq flip: Suc_le_eq)
  then show ?thesis using b by simp
qed

lemma udp_client_loop_paced:
  "udp_client_loop start (ucast mbps * 125000) dest st q b its = Some (st', q', b', sent) \<Longrightarrow> length b = WLH_IPERF2_UDP_SIZE \<Longrightarrow>
   q' = q + of_nat (length sent) \<and> length b' = WLH_IPERF2_UDP_SIZE \<and>
   (\<forall>k<length sent. paced start (it_now ` set its) mbps dest (q + of_nat k) (sent ! k))"
proof (induction its arbitrary: st q b sent)
  case Nil
  then show ?case by simp
next
  case (Cons it its)
  let ?st = "observe_stop it st" and ?ms = "elapsed_ms (it_now it) start"
  let ?b = "put_header b q (?ms div 1000) ((?ms mod 1000) * 1000)"
  note h = put_header_1470(1) [OF Cons.prems(2), of q "?ms div 1000" "(?ms mod 1000) * 1000"]
  note b = put_header_1470(2) [OF Cons.prems(2), of q "?ms div 1000" "(?ms mod 1000) * 1000"]
  let ?bps = "ucast mbps * 125000 :: u64"
  have p: "paced start (it_now ` set (it # its)) mbps dest q (dest, ?b)" if "\<not> packet_budget ?bps ?ms \<le> ucast q"
    using budget_rate [OF that] h b unfolding paced_def fst_conv snd_conv Let_def
    by (intro conjI bexI [of _ "it_now it"]) (simp_all add: elapsed_ms_def)
  have sub: "it_now ` set its \<subseteq> it_now ` set (it # its)" by auto
  consider "\<not> loop_guard ?st start (it_tick it)"
    | "loop_guard ?st start (it_tick it)" "packet_budget ?bps ?ms \<le> ucast q"
    | "loop_guard ?st start (it_tick it)" "\<not> packet_budget ?bps ?ms \<le> ucast q" "it_rc it < 0"
    | "loop_guard ?st start (it_tick it)" "\<not> packet_budget ?bps ?ms \<le> ucast q" "\<not> it_rc it < 0"
    by blast
  then show ?case
  proof cases
    case 1
    then show ?thesis using Cons.prems by (simp add: Let_def)
  next
    case 2
    then have "udp_client_loop start ?bps dest ?st q b its = Some (st', q', b', sent)"
      using Cons.prems(1) by (simp add: Let_def)
    from Cons.IH [OF this Cons.prems(2)] show ?thesis using paced_mono [OF _ sub] by blast
  next
    case 3
    then have "sent = [(dest, ?b)] \<and> q' = q + 1 \<and> b' = ?b" using Cons.prems(1) by (auto simp: Let_def)
    then show ?thesis using b p [OF 3(2)] by simp
  next
    case 4
    then obtain sent' where s: "sent = (dest, ?b) # sent'"
      and r: "udp_client_loop start ?bps dest ?st (q + 1) ?b its = Some (st', q', b', sent')"
      using Cons.prems(1) by (auto simp: Let_def)
    have "paced start (it_now ` set (it # its)) mbps dest (q + of_nat k) (sent ! k)" if "k < length sent" for k
      using Cons.IH [OF r b] paced_mono [OF _ sub] p [OF 4(2)] s that by (cases k) (auto simp: add.assoc)
    then show ?thesis using Cons.IH [OF r b] s by (simp add: add.assoc)
  qed
qed

subsection \<open>Properties\<close>

text \<open>
  C12: For data datagrams with distinct sequence numbers below 2^31 - 1, in any order and with any
  losses, the server has counted every datagram and every byte, and its errors less its
  out-of-order arrivals are exactly the number of datagrams lost: the sequence numbers below the
  greatest one seen that never arrived.
\<close>

theorem udp_server_loss_count:
  assumes "distinct qs" and "\<forall>q\<in>set qs. q + 1 < 2 ^ 31" and "map snd rs = map of_nat qs"
  shows "let c = count_all udp_counters_zero rs in
     datagrams c = of_nat (length qs) \<and> total_bytes c = (\<Sum>r\<leftarrow>rs. ucast (fst r)) \<and>
     errors c - out_of_order c = of_nat (card ({..<next_expected 0 qs} - set qs))"
proof -
  let ?c = "count_all udp_counters_zero rs"
  have l: "length rs = length qs" using assms(3) by (metis length_map)
  have n: "datagrams ?c = of_nat (length qs)" "total_bytes ?c = (\<Sum>r\<leftarrow>rs. ucast (fst r))"
    by (simp_all add: count_all_totals udp_counters_zero_def l)
  have e: "expected_sequence ?c = of_nat (next_expected 0 qs)"
    using count_all_expected [of udp_counters_zero 0 qs rs] assms(2,3) by (simp add: udp_counters_zero_def)
  have "errors ?c + datagrams ?c = expected_sequence ?c + out_of_order ?c"
    by (rule count_all_balance) (simp add: udp_counters_zero_def)
  then have d: "errors ?c - out_of_order ?c = of_nat (next_expected 0 qs) - of_nat (length qs)"
    using n e by (simp add: algebra_simps)
  have sub: "set qs \<subseteq> {..<next_expected 0 qs}" using next_expected_upper by auto
  have "card ({..<next_expected 0 qs} - set qs) = next_expected 0 qs - length qs"
    using sub distinct_card [OF assms(1)] by (simp add: card_Diff_subset)
  moreover have "length qs \<le> next_expected 0 qs"
    using card_mono [OF _ sub] distinct_card [OF assms(1)] by simp
  ultimately show ?thesis using n d by (simp add: Let_def of_nat_diff)
qed

theorem udp_server_loss_count_witness:
  "let c = count_all udp_counters_zero [(1470, 0), (1470, 3), (1470, 2)] in
     datagrams c = of_nat (length [0, 3, 2 :: nat]) \<and>
     total_bytes c = (\<Sum>r\<leftarrow>[(1470 :: u32, 0 :: s32), (1470, 3), (1470, 2)]. ucast (fst r)) \<and>
     errors c - out_of_order c = of_nat (card ({..<next_expected 0 [0, 3, 2]} - set [0, 3, 2]))"
  by (rule udp_server_loss_count) simp_all

text \<open>
  What a session has opened when its traffic loop ends: a TCP server that got as far as \<open>accept\<close> has two descriptors, every other session its socket.
\<close>

definition opened :: "wlh_rtt_iperf2_config \<Rightarrow> iperf_io \<Rightarrow> int list" where
  "opened cfg io =
   (if io_socket io < 0 then []
    else if protocol cfg = WLH_RTT_IPERF2_TCP \<and> role cfg \<noteq> WLH_RTT_IPERF2_CLIENT \<and> io_bind io = 0 \<and> io_listen io = 0 \<and> 0 \<le> io_accept io
    then [io_accept io, io_socket io] else [io_socket io])"

lemma session_stops:
  assumes "running st" and "socket_fd st = - 1" and "data_fd st = - 1"
    and "\<exists>it\<in>set (io_iterations io). it_stop it"
  shows "\<exists>st' sent. iperf_session inet_addr stack io st = Some (st', sent) \<and>
    fst (close_fd (data_fd st')) @ fst (close_fd (socket_fd st')) = opened (config st) io"
proof -
  have tc: "\<exists>st'. tcp_client io st = Some st' \<and> socket_fd st' = io_socket io \<and> data_fd st' = - 1"
    using tcp_loop_stops [of "st\<lparr> socket_fd := io_socket io \<rparr>" "io_iterations io" "io_start io"]
      tcp_loop_fds [of "io_start io" "st\<lparr> socket_fd := io_socket io \<rparr>" "io_iterations io"] assms
    by (auto simp: tcp_client_def Let_def)
  have ts: "\<exists>st'. tcp_server io st = Some st' \<and> socket_fd st' = io_socket io \<and>
      data_fd st' = (if 0 \<le> io_socket io \<and> io_bind io = 0 \<and> io_listen io = 0 then io_accept io else - 1)"
    using tcp_loop_stops [of "st\<lparr> socket_fd := io_socket io, data_fd := io_accept io \<rparr>"
        "io_iterations io" "io_accept_tick io"]
      tcp_loop_fds [of "io_accept_tick io" "st\<lparr> socket_fd := io_socket io, data_fd := io_accept io \<rparr>"
        "io_iterations io"] assms
    by (auto simp: tcp_server_def Let_def)
  have uc: "\<exists>st' sent. udp_client inet_addr io st = Some (st', sent) \<and> socket_fd st' = io_socket io \<and> data_fd st' = - 1"
    using udp_client_returns [OF assms(1,4), of inet_addr] assms(3) by auto
  have us: "\<exists>st' c sent. udp_server stack io st = Some (st', c, sent) \<and> socket_fd st' = io_socket io \<and> data_fd st' = - 1"
    using udp_server_loop_stops [of "st\<lparr> socket_fd := io_socket io \<rparr>" "io_iterations io" "io_start io"
        udp_counters_zero stack]
      udp_server_loop_fds [of "io_start io" "st\<lparr> socket_fd := io_socket io \<rparr>" udp_counters_zero stack
        "io_iterations io"] assms
    by (auto simp: udp_server_def Let_def)
  consider "protocol (config st) = WLH_RTT_IPERF2_TCP" "role (config st) = WLH_RTT_IPERF2_CLIENT"
    | "protocol (config st) = WLH_RTT_IPERF2_TCP" "role (config st) \<noteq> WLH_RTT_IPERF2_CLIENT"
    | "protocol (config st) \<noteq> WLH_RTT_IPERF2_TCP" "role (config st) = WLH_RTT_IPERF2_CLIENT"
    | "protocol (config st) \<noteq> WLH_RTT_IPERF2_TCP" "role (config st) \<noteq> WLH_RTT_IPERF2_CLIENT"
    by blast
  then obtain st' sent where "iperf_session inet_addr stack io st = Some (st', sent)" "socket_fd st' = io_socket io"
    "data_fd st' = (if protocol (config st) = WLH_RTT_IPERF2_TCP \<and> role (config st) \<noteq> WLH_RTT_IPERF2_CLIENT \<and> 0 \<le> io_socket io \<and> io_bind io = 0 \<and> io_listen io = 0
       then io_accept io else - 1)"
  proof cases
    case 1
    then show ?thesis using tc that by (auto simp: iperf_session_def)
  next
    case 2
    then show ?thesis using ts that by (auto simp: iperf_session_def)
  next
    case 3
    then show ?thesis using uc that by (auto simp: iperf_session_def)
  next
    case 4
    then show ?thesis using us that by (auto simp: iperf_session_def)
  qed
  then show ?thesis by (intro exI [of _ st'] exI [of _ sent]) (auto simp: opened_def close_fd_def)
qed

text \<open>
  C26: A stop request ends a running session whatever its protocol and role and wherever its
  traffic loop is, and the session thread closes exactly the descriptors it opened, each once: the accepted connection of a TCP server, if
  there is one, and then the socket, if it could be opened. Both are reset to a negative value and the session is marked as not running.
\<close>

theorem iperf2_stop_ends_session:
  assumes "running st" and "socket_fd st = - 1" and "data_fd st = - 1"
    and "\<exists>it\<in>set (io_iterations io). it_stop it"
  shows "\<exists>st' sent. iperf_main inet_addr stack io st = Some (st', sent, opened (config st) io) \<and>
     \<not> running st' \<and> wlh_rtt_iperf2_is_running st' = 0 \<and> socket_fd st' < 0 \<and> data_fd st' < 0"
proof -
  obtain st' sent where r: "iperf_session inet_addr stack io st = Some (st', sent)"
    "fst (close_fd (data_fd st')) @ fst (close_fd (socket_fd st')) = opened (config st) io" using session_stops [OF assms] by blast
  have neg: "snd (close_fd fd) < 0" for fd by (simp add: close_fd_def)
  show ?thesis using r neg by (simp add: iperf_main_def case_prod_beta wlh_rtt_iperf2_is_running_def)
qed

theorem iperf2_stop_ends_session_witness:
  "\<exists>st' sent.
     iperf_main (\<lambda>_. 0x0100000a) [] \<lparr> io_start = 0, io_socket = 4, io_connect = 0, io_bind = 0, io_listen = 0,
         io_accept = 5, io_accept_tick = 3,
         io_iterations = [\<lparr> it_stop = True, it_tick = 9, it_now = 9, it_rc = 100, it_data = [], it_from = (0, 0) \<rparr>],
         io_end1 = 9, io_end2 = 9 \<rparr>
       (snd (wlh_rtt_iperf2_start (\<lambda>_. 0x0100000a) True 0
         (Some \<lparr> protocol = 1, role = 2, peer_ipv4 = None, port = 0, seconds = 5, udp_mbps = 0 \<rparr>)
         \<lparr> config = \<lparr> protocol = 0, role = 0, peer_ipv4 = None, port = 0, seconds = 0, udp_mbps = 0 \<rparr>,
           peer = [], thread = False, running = False, cancel = False, socket_fd = - 1, data_fd = - 1 \<rparr>))
       = Some (st', sent, [5, 4]) \<and> \<not> running st' \<and> socket_fd st' < 0 \<and> data_fd st' < 0"
  using iperf2_stop_ends_session [of "snd (wlh_rtt_iperf2_start (\<lambda>_. 0x0100000a) True 0
         (Some \<lparr> protocol = 1, role = 2, peer_ipv4 = None, port = 0, seconds = 5, udp_mbps = 0 \<rparr>)
         \<lparr> config = \<lparr> protocol = 0, role = 0, peer_ipv4 = None, port = 0, seconds = 0, udp_mbps = 0 \<rparr>,
           peer = [], thread = False, running = False, cancel = False, socket_fd = - 1, data_fd = - 1 \<rparr>)"
      "\<lparr> io_start = 0, io_socket = 4, io_connect = 0, io_bind = 0, io_listen = 0,
         io_accept = 5, io_accept_tick = 3,
         io_iterations = [\<lparr> it_stop = True, it_tick = 9, it_now = 9, it_rc = 100, it_data = [], it_from = (0, 0) \<rparr>],
         io_end1 = 9, io_end2 = 9 \<rparr>" "\<lambda>_. 0x0100000a" "[]"]
  by (auto simp: wlh_rtt_iperf2_start_def opened_def Let_def)

text \<open>
  C27: A UDP client session sends its data datagrams to the configured peer, each of 1470 bytes, numbered 0, 1, 2, ... modulo \<open>2 ^ 32\<close>, and keeps to the configured
  rate: when datagram \<open>k\<close> is sent, \<open>ms\<close> milliseconds after the start, \<open>k + 1\<close> datagrams are at most what the rate in Mbit/s gives in that time. Each carries
  its number and that time. The session ends with one datagram whose sequence number is minus their count, which is what makes the server answer with its report.
\<close>

theorem udp_client_numbering:
  assumes "udp_client inet_addr io st = Some (st', sent)" and "0 \<le> io_socket io"
  shows "\<exists>data fin. sent = data @ [((inet_addr (peer st), port (config st)), fin)] \<and>
     (\<forall>k<length data. paced (io_start io) (it_now ` set (io_iterations io)) (udp_mbps (config st))
        (inet_addr (peer st), port (config st)) (of_nat k) (data ! k)) \<and>
     wlh_iperf2_udp_header_decode (Some fin) 1470 True =
       (0, Some (- of_nat (length data), (io_end1 io - io_start io) * 1000 div 1000 div 1000,
          ((io_end2 io - io_start io) * 1000 div 1000 mod 1000) * 1000))"
proof -
  let ?dest = "(inet_addr (peer st), port (config st))"
  obtain st1 q b data where l: "udp_client_loop (io_start io) (ucast (udp_mbps (config st)) * 125000) ?dest
      (st\<lparr> socket_fd := io_socket io \<rparr>) 0 (replicate 1470 0x5a) (io_iterations io) = Some (st1, q, b, data)"
    and s: "sent = data @ [(?dest, put_header b (- q) (elapsed_ms (io_end1 io) (io_start io) div 1000)
      ((elapsed_ms (io_end2 io) (io_start io) mod 1000) * 1000))]"
    using assms by (auto simp: udp_client_def Let_def split: option.splits)
  have p: "q = of_nat (length data)" "length b = 1470"
    "\<forall>k<length data. paced (io_start io) (it_now ` set (io_iterations io)) (udp_mbps (config st)) ?dest (of_nat k) (data ! k)"
    using udp_client_loop_paced [OF l] by simp_all
  show ?thesis
    by (rule exI [of _ data], intro exI conjI, rule s, rule p(3), unfold p(1) [symmetric] elapsed_ms_def,
        rule put_header_1470(1) [OF p(2)])
qed

text \<open>A session of two rounds: one datagram after 100 ms, then a stop.\<close>

definition sample_udp_io :: iperf_io where
  "sample_udp_io = \<lparr> io_start = 0, io_socket = 4, io_connect = 0, io_bind = 0, io_listen = 0, io_accept = 5, io_accept_tick = 3,
     io_iterations = [\<lparr> it_stop = False, it_tick = 99, it_now = 100, it_rc = 1470, it_data = [], it_from = (0, 0) \<rparr>,
       \<lparr> it_stop = True, it_tick = 101, it_now = 101, it_rc = 0, it_data = [], it_from = (0, 0) \<rparr>],
     io_end1 = 102, io_end2 = 103 \<rparr>"

definition sample_udp_state :: iperf_state where
  "sample_udp_state = \<lparr> config = \<lparr> protocol = 2, role = 1, peer_ipv4 = Some ''10.0.0.1'', port = 5001, seconds = 5, udp_mbps = 20 \<rparr>,
     peer = ''10.0.0.1'', thread = True, running = True, cancel = False, socket_fd = - 1, data_fd = - 1 \<rparr>"

theorem udp_client_numbering_witness:
  "\<exists>st' d fin. udp_client (\<lambda>_. 0x0100000a) sample_udp_io sample_udp_state = Some (st', [((0x0100000a, 5001), d), ((0x0100000a, 5001), fin)]) \<and>
     (\<exists>us\<in>{100000, 101000}. wlh_iperf2_udp_header_decode (Some d) 1470 True = (0, Some (0, 0, us))) \<and>
     wlh_iperf2_udp_header_decode (Some fin) 1470 True = (0, Some (- 1, 0, 103000))"
proof -
  have "\<exists>st' d fin. udp_client (\<lambda>_. 0x0100000a) sample_udp_io sample_udp_state = Some (st', [((0x0100000a, 5001), d), ((0x0100000a, 5001), fin)])"
    by (simp add: udp_client_def sample_udp_io_def sample_udp_state_def Let_def observe_stop_def wlh_rtt_iperf2_stop_def loop_guard_def elapsed_ms_def packet_budget_def)
  then obtain st' d fin where r: "udp_client (\<lambda>_. 0x0100000a) sample_udp_io sample_udp_state = Some (st', [((0x0100000a, 5001), d), ((0x0100000a, 5001), fin)])"
    by blast
  have f: "peer sample_udp_state = ''10.0.0.1''" "port (config sample_udp_state) = 5001" "udp_mbps (config sample_udp_state) = 20"
    "io_start sample_udp_io = 0" "io_end1 sample_udp_io = 102" "io_end2 sample_udp_io = 103" "0 \<le> io_socket sample_udp_io"
    "it_now ` set (io_iterations sample_udp_io) = {100, 101}"
    by (simp_all add: sample_udp_io_def sample_udp_state_def)
  obtain data fin' where t: "[((0x0100000a, 5001), d), ((0x0100000a, 5001), fin)] = data @ [((0x0100000a, 5001), fin')]"
    "\<forall>k<length data. paced 0 {100, 101} 20 (0x0100000a, 5001) (of_nat k) (data ! k)"
    "wlh_iperf2_udp_header_decode (Some fin') 1470 True = (0, Some (- of_nat (length data), 0, 103000))"
    using udp_client_numbering [OF r f(7)] unfolding f by auto
  have data: "data = [((0x0100000a, 5001), d)]" "fin' = fin" using t(1) by (cases data; auto simp: Cons_eq_append_conv)+
  have "paced 0 {100, 101} 20 (0x0100000a, 5001) 0 ((0x0100000a, 5001), d)" using t(2) data by simp
  then have "\<exists>us\<in>{100000, 101000}. wlh_iperf2_udp_header_decode (Some d) 1470 True = (0, Some (0, 0, us))" by (auto simp: paced_def Let_def)
  then show ?thesis using r t(3) data by auto
qed

end
