(* ===== verification/Host.thy ===== *)
theory Host
  imports Lifecycle Iperf2
begin

text \<open>
  The public operations of the package, packages/wlh_rtt_host/src/wlh_rtt_host.c: initialisation,
  start, stop, recovery, frame input, link events and statistics. The host structure is passed as
  an option, \<open>None\<close> for a null pointer. \<open>wlh_rtt_impl\<close> is a cast. The results of the allocations
  and of the two device registrations are the record \<open>init_env\<close>. The recovery also stops the
  iPerf2 session, whose state is passed along.
\<close>

record init_env =
  lock_created :: bool
  rx_mq :: "bool \<times> bool"
  rx_mem :: "u8 list option \<times> u8 list option"
  rx_thr :: bool
  rx_startup :: int
  reg_sta :: int
  reg_ap :: int
  life_alloc :: lifecycle_alloc

text \<open>
  \<open>rt_memset (public_host, 0, sizeof *public_host)\<close>, with the configuration stored; \<open>c\<close> stands for
  the zeroed Core structure. The logs are not part of the structure and go on.
\<close>

definition host_zero :: "'c \<Rightarrow> 't wlh_rtt_host_config \<Rightarrow> 't \<Rightarrow> ('c, 't) wlh_rtt_host_impl \<Rightarrow> ('c, 't) wlh_rtt_host_impl" where
  "host_zero c cfg tctx h = \<lparr> magic = WLH_RTT_MAGIC, host_config = cfg, transport_context = tctx, core = c, lock = False,
     executor_queue = None, lifecycle_queue = None, rx_queue = None, executor_thread = False, lifecycle_thread = False,
     rx_thread = False, interfaces = [interface_zero, interface_zero], next_generation = 0, recoveries = 0, ap_clients = 0,
     ap_client = replicate WLH_RTT_HOST_AP_MAX_CLIENTS ap_client_zero, initialized = False, started = False,
     wifi_initialized = False, recovering = False, indications = indications h, reported = reported h, modes = modes h,
     fatal = fatal h \<rparr>"

definition config_ok :: "'t wlh_rtt_host_config \<Rightarrow> bool" where
  "config_ok cfg \<longleftrightarrow> sta_device_name cfg \<noteq> None \<and> ap_device_name cfg \<noteq> None \<and>
     (case transport_ops cfg of
        None \<Rightarrow> False
      | Some ops \<Rightarrow> ops_start ops \<noteq> None \<and> ops_stop ops \<noteq> None \<and> ops_submit_tx ops \<noteq> None)"

definition init_parts :: "'c core_api \<Rightarrow> init_env \<Rightarrow> ('c, 't) wlh_rtt_host_impl \<Rightarrow> bool \<times> ('c, 't) wlh_rtt_host_impl" where
  "init_parts K env host =
   (case wlh_rtt_wlan_rx_init (rx_mq env) (rx_mem env) (rx_thr env) (rx_startup env) host of
      (r1, host) \<Rightarrow>
        if r1 \<noteq> RT_EOK then (False, host)
        else case wlh_rtt_wlan_register (reg_sta env) (reg_ap env) host of
          (r2, host) \<Rightarrow>
            if r2 \<noteq> RT_EOK then (False, host)
            else case wlh_rtt_lifecycle_init K (life_alloc env) host of
              (r3, host) \<Rightarrow> (r3 = RT_EOK, host))"

definition wlh_rtt_host_init ::
  "'c core_api \<Rightarrow> 'c \<Rightarrow> init_env \<Rightarrow> ('t wlh_rtt_host_config \<times> 't) option \<Rightarrow> ('c, 't) wlh_rtt_host_impl option \<Rightarrow>
   int \<times> ('c, 't) wlh_rtt_host_impl option" where
  "wlh_rtt_host_init K c0 env cfg_arg public_host =
   (case (public_host, cfg_arg) of
      (Some h, Some (cfg, tctx)) \<Rightarrow>
        if \<not> config_ok cfg then (- RT_EINVAL, Some h)
        else
          let host = (host_zero c0 cfg tctx h)\<lparr> lock := lock_created env \<rparr> in
          if \<not> lock host then (- RT_ENOMEM, Some host)
          else
            let host = host\<lparr> initialized := True \<rparr> in
            case init_parts K env host of
              (True, host) \<Rightarrow> (RT_EOK, Some host)
            | (False, host) \<Rightarrow>
                let host = host\<lparr> initialized := False \<rparr>;
                    host = wlh_rtt_wlan_rx_deinit (wlh_rtt_lifecycle_deinit host)
                in (- RT_ERROR, Some (host\<lparr> lock := False \<rparr>))
    | _ \<Rightarrow> (- RT_EINVAL, public_host))"

definition wlh_rtt_host_start :: "'c core_api \<Rightarrow> ('c, 't) wlh_rtt_host_impl option \<Rightarrow> int \<times> ('c, 't) wlh_rtt_host_impl option" where
  "wlh_rtt_host_start K public_host =
   (case public_host of
      None \<Rightarrow> (- RT_EINVAL, None)
    | Some host \<Rightarrow>
        if magic host \<noteq> WLH_RTT_MAGIC \<or> \<not> initialized host then (- RT_EINVAL, Some host)
        else if started host then (- RT_EBUSY, Some host)
        else
          let host = host\<lparr> wifi_initialized := False \<rparr>;
              (r, c) = core_start K (core host);
              host = host\<lparr> core := c \<rparr>
          in if r \<noteq> WLH_HOST_OK K then (- RT_ERROR, Some host)
             else (RT_EOK, Some (host\<lparr> started := True \<rparr>)))"

definition wlh_rtt_host_stop :: "'c core_api \<Rightarrow> ('c, 't) wlh_rtt_host_impl option \<Rightarrow> int \<times> ('c, 't) wlh_rtt_host_impl option" where
  "wlh_rtt_host_stop K public_host =
   (case public_host of
      None \<Rightarrow> (- RT_EINVAL, None)
    | Some host \<Rightarrow>
        if magic host \<noteq> WLH_RTT_MAGIC \<or> \<not> started host then (- RT_EINVAL, Some host)
        else
          let host = (wlh_rtt_wlan_reset host)\<lparr> wifi_initialized := False \<rparr>;
              (r, c) = core_stop K (core host);
              host = host\<lparr> core := c \<rparr>
          in if r \<noteq> WLH_HOST_OK K then (- RT_ERROR, Some host)
             else (RT_EOK, Some (host\<lparr> started := False \<rparr>)))"

text \<open>The part of \<open>wlh_rtt_host_recover\<close> after \<open>recovering\<close> was set.\<close>

definition recover_body :: "'c core_api \<Rightarrow> ('c, 't) wlh_rtt_host_impl \<Rightarrow> int \<times> ('c, 't) wlh_rtt_host_impl" where
  "recover_body K host =
   (let host = wlh_rtt_wlan_reset host;
        (r, c) = core_stop K (core host);
        host = host\<lparr> core := c \<rparr>;
        result = (if r = WLH_HOST_OK K then RT_EOK else - RT_ERROR);
        (result, host) =
          (if result = RT_EOK
           then (case ops_soft_reset (the (transport_ops (host_config host))) of
                   None \<Rightarrow> (result, host)
                 | Some soft_reset \<Rightarrow>
                     let (r, t) = soft_reset (transport_context host) in (r, host\<lparr> transport_context := t \<rparr>))
           else (result, host));
        host = host\<lparr> wifi_initialized := False \<rparr>;
        (result, host) =
          (if result = RT_EOK
           then (let (r, c) = core_start K (core host)
                 in (if r \<noteq> WLH_HOST_OK K then - RT_ERROR else result, host\<lparr> core := c \<rparr>))
           else (result, host));
        host = (if result = RT_EOK then host\<lparr> recoveries := recoveries host + 1 \<rparr>
                else if board_fatal (host_config host) then host\<lparr> fatal := fatal host @ [result] \<rparr>
                else host)
    in (result, host\<lparr> recovering := False \<rparr>))"

definition wlh_rtt_host_recover ::
  "'c core_api \<Rightarrow> ('c, 't) wlh_rtt_host_impl option \<Rightarrow> iperf_state \<Rightarrow> int \<times> ('c, 't) wlh_rtt_host_impl option \<times> iperf_state" where
  "wlh_rtt_host_recover K public_host ip =
   (case public_host of
      None \<Rightarrow> (- RT_EINVAL, None, ip)
    | Some host \<Rightarrow>
        if magic host \<noteq> WLH_RTT_MAGIC \<or> \<not> started host then (- RT_EINVAL, Some host, ip)
        else if recovering host then (- RT_EBUSY, Some host, ip)
        else
          let (result, host) = recover_body K (host\<lparr> recovering := True \<rparr>)
          in (result, Some host, snd (snd (wlh_rtt_iperf2_stop ip))))"

definition wlh_rtt_host_input ::
  "'c core_api \<Rightarrow> ('c, 't) wlh_rtt_host_impl option \<Rightarrow> u8 list option \<Rightarrow> nat \<Rightarrow> int \<times> ('c, 't) wlh_rtt_host_impl option" where
  "wlh_rtt_host_input K public_host frame len =
   (case (public_host, frame) of
      (Some host, Some f) \<Rightarrow>
        if magic host \<noteq> WLH_RTT_MAGIC then (- RT_EINVAL, Some host)
        else (let (r, c) = core_on_frame K (take len f) (core host) in (r, Some (host\<lparr> core := c \<rparr>)))
    | _ \<Rightarrow> (- RT_EINVAL, public_host))"

datatype wlh_rtt_link_event = WLH_RTT_LINK_AVAILABLE | WLH_RTT_LINK_LOST

definition wlh_rtt_host_link_event ::
  "'c core_api \<Rightarrow> wlh_rtt_link_event \<Rightarrow> ('c, 't) wlh_rtt_host_impl option \<Rightarrow> ('c, 't) wlh_rtt_host_impl option" where
  "wlh_rtt_host_link_event K event public_host =
   (case public_host of
      None \<Rightarrow> None
    | Some host \<Rightarrow>
        if magic host \<noteq> WLH_RTT_MAGIC then Some host
        else if event = WLH_RTT_LINK_LOST then Some (host\<lparr> core := core_transport_lost K (core host) \<rparr>)
        else Some host)"

record wlh_rtt_stats =
  s_host_state :: u32
  s_session_id :: u32
  s_recoveries :: u32
  s_ap_clients :: u32
  s_transport :: wlh_rtt_transport_stats
  s_sta :: wlh_rtt_interface_stats
  s_ap :: wlh_rtt_interface_stats
  s_ap_client :: "wlh_rtt_ap_client_stats list"

abbreviation (input) WLH_RTT_STATS_MAX_AP_CLIENTS :: nat where "WLH_RTT_STATS_MAX_AP_CLIENTS \<equiv> 16"

definition transport_stats_zero :: wlh_rtt_transport_stats where
  "transport_stats_zero = \<lparr> ts_tx_frames = 0, ts_tx_errors = 0, ts_tx_queue_full = 0, ts_rx_frames = 0, ts_rx_errors = 0,
     ts_rx_invalid_length = 0, ts_bus_resets = 0 \<rparr>"

definition wlh_rtt_host_get_stats ::
  "'c core_api \<Rightarrow> ('c, 't) wlh_rtt_host_impl option \<Rightarrow> bool \<Rightarrow> int \<times> wlh_rtt_stats option" where
  "wlh_rtt_host_get_stats K public_host out =
   (case public_host of
      None \<Rightarrow> (- RT_EINVAL, None)
    | Some host \<Rightarrow>
        if magic host \<noteq> WLH_RTT_MAGIC \<or> \<not> out then (- RT_EINVAL, None)
        else (RT_EOK, Some
          \<lparr> s_host_state = core_state K (core host), s_session_id = core_session_id K (core host),
            s_recoveries = recoveries host, s_ap_clients = ap_clients host,
            s_transport = (case ops_get_stats (the (transport_ops (host_config host))) of
                             None \<Rightarrow> transport_stats_zero
                           | Some get_stats \<Rightarrow> get_stats (transport_context host)),
            s_sta = stats (interfaces host ! WLH_RTT_INTERFACE_STA), s_ap = stats (interfaces host ! WLH_RTT_INTERFACE_AP),
            s_ap_client = blit (replicate WLH_RTT_STATS_MAX_AP_CLIENTS ap_client_zero) 0 (ap_client host) \<rparr>))"

text \<open>
  \<open>create\<close> is the result of \<open>wlh_rtt_sdio_transport_create\<close> with the operations and context it
  yields; \<open>board\<close> says whether the board supplies a fatal recovery.
\<close>

definition wlh_rtt_host_default_start ::
  "'c core_api \<Rightarrow> 'c \<Rightarrow> init_env \<Rightarrow> int \<times> 't wlh_rtt_transport_ops \<times> 't \<Rightarrow> bool \<Rightarrow> ('c, 't) wlh_rtt_host_impl \<Rightarrow>
   int \<times> ('c, 't) wlh_rtt_host_impl option" where
  "wlh_rtt_host_default_start K c0 env create board default_host =
   (case create of (result, ops, tctx) \<Rightarrow>
      if result \<noteq> RT_EOK then (result, Some default_host)
      else
        let conf = \<lparr> sta_device_name = Some ''wlan0'', ap_device_name = Some ''wlan1'', transport_ops = Some ops, board_fatal = board \<rparr>;
            (result, host) = wlh_rtt_host_init K c0 env (Some (conf, tctx)) (Some default_host)
        in if result = RT_EOK then wlh_rtt_host_start K host else (result, host))"

subsection \<open>Initialisation\<close>

text \<open>What the three parts of the initialisation leave alone.\<close>

definition control :: "('c, 't) wlh_rtt_host_impl \<Rightarrow> _" where
  "control h = (magic h, host_config h, initialized h, started h, recovering h, wifi_initialized h, lock h, ap_clients h, ap_client h)"

lemma control_update [simp]:
  "control (update_interface i f h) = control h" "control (h\<lparr> rx_queue := q \<rparr>) = control h" "control (h\<lparr> rx_thread := b \<rparr>) = control h"
  "control (h\<lparr> executor_queue := q1 \<rparr>) = control h" "control (h\<lparr> lifecycle_queue := q2 \<rparr>) = control h"
  "control (h\<lparr> executor_thread := b \<rparr>) = control h" "control (h\<lparr> lifecycle_thread := b \<rparr>) = control h" "control (h\<lparr> core := c \<rparr>) = control h"
  by (simp_all add: control_def update_interface_def)

lemma rx_init_frame:
  "same_requests h (snd (wlh_rtt_wlan_rx_init mq mem thr rc h))" "control (snd (wlh_rtt_wlan_rx_init mq mem thr rc h)) = control h"
proof -
  have q: "same_requests g (g'\<lparr> rx_queue := x \<rparr>) = same_requests g g'" "same_requests g (g'\<lparr> rx_thread := b \<rparr>) = same_requests g g'"
    for x b and g g' :: "('a, 'b) wlh_rtt_host_impl" by (simp_all add: same_requests_def)
  have u: "same_requests h g \<Longrightarrow> (\<And>f. request (u f) = request f \<and> completions (u f) = completions f) \<Longrightarrow>
      same_requests h (update_interface i u g)" for g :: "('a, 'b) wlh_rtt_host_impl" and u i
    using same_requests_trans same_requests_update by blast
  show "same_requests h (snd (wlh_rtt_wlan_rx_init mq mem thr rc h))"
    unfolding wlh_rtt_wlan_rx_init_def Let_def by (auto simp: q Let_def split: prod.splits intro!: u)
  show "control (snd (wlh_rtt_wlan_rx_init mq mem thr rc h)) = control h"
    unfolding wlh_rtt_wlan_rx_init_def Let_def by (auto simp: Let_def)
qed

lemma register_frame:
  "same_requests h (snd (wlh_rtt_wlan_register a b h))" "same_rx h (snd (wlh_rtt_wlan_register a b h))"
  "control (snd (wlh_rtt_wlan_register a b h)) = control h"
proof -
  have u: "same_requests h g \<Longrightarrow> (\<And>f. request (u f) = request f \<and> completions (u f) = completions f) \<Longrightarrow>
      same_requests h (update_interface i u g)" for g :: "('a, 'b) wlh_rtt_host_impl" and u i
    using same_requests_trans same_requests_update by blast
  have v: "same_rx h g \<Longrightarrow> (\<And>f. rx_storage (u f) = rx_storage f \<and> rx_free_mask (u f) = rx_free_mask f) \<Longrightarrow>
      same_rx h (update_interface i u g)" for g :: "('a, 'b) wlh_rtt_host_impl" and u i
    using same_rx_trans same_rx_update by blast
  show "same_requests h (snd (wlh_rtt_wlan_register a b h))" "same_rx h (snd (wlh_rtt_wlan_register a b h))"
    "control (snd (wlh_rtt_wlan_register a b h)) = control h"
    unfolding wlh_rtt_wlan_register_def Let_def by (auto intro!: u v)
qed

lemma lifecycle_init_frame:
  "interfaces (snd (wlh_rtt_lifecycle_init K al h)) = interfaces h" "rx_queue (snd (wlh_rtt_lifecycle_init K al h)) = rx_queue h"
  "next_generation (snd (wlh_rtt_lifecycle_init K al h)) = next_generation h"
  "rx_thread (snd (wlh_rtt_lifecycle_init K al h)) = rx_thread h"
  "control (snd (wlh_rtt_lifecycle_init K al h)) = control h"
  by (auto simp: wlh_rtt_lifecycle_init_def Let_def split: prod.splits)

lemma init_parts_ok:
  assumes "init_parts K env h = (True, h')" and "length (interfaces h) = WLH_RTT_INTERFACE_COUNT"
    and "\<forall>m\<in>{fst (rx_mem env), snd (rx_mem env)}. \<forall>s. m = Some s \<longrightarrow> length s = RX_STORAGE"
  shows "rx_inv h' \<and> rx_pending h' = [] \<and> lifecycle_inv h' \<and> exec_pending h' = [] \<and> life_pending h' = [] \<and>
    executor_thread h' \<and> lifecycle_thread h' \<and> same_requests h h' \<and> control h' = control h \<and>
    (\<forall>i<WLH_RTT_INTERFACE_COUNT. if_id (interfaces h' ! i) = i \<and> registered (interfaces h' ! i))"
proof -
  obtain h1 where h1: "wlh_rtt_wlan_rx_init (rx_mq env) (rx_mem env) (rx_thr env) (rx_startup env) h = (RT_EOK, h1)"
    using assms(1) by (auto simp: init_parts_def split: prod.splits if_splits)
  obtain h2 where h2: "wlh_rtt_wlan_register (reg_sta env) (reg_ap env) h1 = (RT_EOK, h2)"
    using assms(1) h1 by (auto simp: init_parts_def split: prod.splits if_splits)
  have h3: "wlh_rtt_lifecycle_init K (life_alloc env) h2 = (RT_EOK, h')"
    using assms(1) h1 h2 by (auto simp: init_parts_def split: prod.splits if_splits)
  note f1 = rx_init_frame [where h = h and mq = "rx_mq env" and mem = "rx_mem env" and thr = "rx_thr env" and rc = "rx_startup env", unfolded h1, simplified]
  note f2 = register_frame [where h = h1 and a = "reg_sta env" and b = "reg_ap env", unfolded h2, simplified]
  note f3 = lifecycle_init_frame [of K "life_alloc env" h2, unfolded h3, simplified]
  have rx: "rx_inv h1" "rx_pending h1 = []" using rx_init_inv [OF h1 assms(2,3)] by auto
  have same: "same_rx h1 h'" "same_requests h1 h'" using f2 f3 by (simp_all add: same_rx_def same_requests_def)
  have pend: "rx_pending h' = []" using rx(2) same by (simp add: rx_pending_def rx_jobs_def same_rx_def)
  have len: "length (interfaces h1) = 2" using f1(1) assms(2) by (simp add: same_requests_def)
  have ids: "\<forall>i<2. if_id (interfaces h2 ! i) = i \<and> registered (interfaces h2 ! i)"
    using h2 len by (auto simp: wlh_rtt_wlan_register_def Let_def less_2_cases_iff split: if_splits)
  show ?thesis using same_rx_inv [OF same(1) rx(1)] pend lifecycle_init_inv [OF h3] same_requests_trans [OF f1(1) same(2)]
      f1(2) f2(3) f3(5) ids f3(1) by simp
qed

text \<open>Everything the initialisation allocates is released.\<close>

definition released :: "('c, 't) wlh_rtt_host_impl \<Rightarrow> bool" where
  "released h \<longleftrightarrow> \<not> initialized h \<and> \<not> started h \<and> \<not> lock h \<and> executor_queue h = None \<and> lifecycle_queue h = None \<and>
     rx_queue h = None \<and> \<not> executor_thread h \<and> \<not> lifecycle_thread h \<and> \<not> rx_thread h \<and>
     (\<forall>i<WLH_RTT_INTERFACE_COUNT. rx_storage (interfaces h ! i) = None)"

lemma deinit_released:
  assumes "length (interfaces h) = WLH_RTT_INTERFACE_COUNT" "\<not> initialized h" "\<not> started h"
  shows "released ((wlh_rtt_wlan_rx_deinit (wlh_rtt_lifecycle_deinit h))\<lparr> lock := False \<rparr>)"
proof -
  have "[0..<2] = [0, 1 :: nat]" by (simp add: numeral_2_eq_2)
  then show ?thesis using assms
    by (auto simp: released_def wlh_rtt_wlan_rx_deinit_def wlh_rtt_lifecycle_deinit_def update_interface_def Let_def less_2_cases_iff)
qed

lemma init_parts_frame: "same_requests h (snd (init_parts K env h)) \<and> control (snd (init_parts K env h)) = control h"
proof -
  have l: "same_requests g (snd (wlh_rtt_lifecycle_init K al g))" for g :: "('a, 'b) wlh_rtt_host_impl" and al
    by (simp add: same_requests_def lifecycle_init_frame)
  obtain r1 h1 where h1: "wlh_rtt_wlan_rx_init (rx_mq env) (rx_mem env) (rx_thr env) (rx_startup env) h = (r1, h1)" by fastforce
  obtain r2 h2 where h2: "wlh_rtt_wlan_register (reg_sta env) (reg_ap env) h1 = (r2, h2)" by fastforce
  note f1 = rx_init_frame [where h = h and mq = "rx_mq env" and mem = "rx_mem env" and thr = "rx_thr env" and rc = "rx_startup env", unfolded h1, simplified]
  note f2 = register_frame [where h = h1 and a = "reg_sta env" and b = "reg_ap env", unfolded h2, simplified]
  have c2: "same_requests h h2" "control h2 = control h" using f1 f2 same_requests_trans by auto
  have c3: "same_requests h (snd (wlh_rtt_lifecycle_init K (life_alloc env) h2))"
    "control (snd (wlh_rtt_lifecycle_init K (life_alloc env) h2)) = control h"
    using c2 l same_requests_trans lifecycle_init_frame(5) by metis+
  show ?thesis using f1 c2 c3 by (simp add: init_parts_def h1 h2 case_prod_beta)
qed

lemma host_init_cases:
  assumes mem: "\<forall>m\<in>{fst (rx_mem env), snd (rx_mem env)}. \<forall>s. m = Some s \<longrightarrow> length s = RX_STORAGE"
    and init: "wlh_rtt_host_init K c0 env cfg (Some h) = (r, Some h')"
  shows "if r = RT_EOK
     then magic h' = WLH_RTT_MAGIC \<and> initialized h' \<and> \<not> started h' \<and> \<not> recovering h' \<and> lock h' \<and> req_reach K 0 h' \<and>
          rx_inv h' \<and> rx_pending h' = [] \<and> lifecycle_inv h' \<and> exec_pending h' = [] \<and> life_pending h' = [] \<and> ap_clients h' = 0 \<and>
          (\<forall>i<WLH_RTT_INTERFACE_COUNT. if_id (interfaces h' ! i) = i \<and> registered (interfaces h' ! i))
     else if r = - RT_EINVAL then h' = h
     else released h' \<and> fst (wlh_rtt_host_start K (Some h')) = - RT_EINVAL"
proof (cases "\<exists>cf t. cfg = Some (cf, t) \<and> config_ok cf \<and> lock_created env")
  case False
  then show ?thesis using init
    by (auto simp: wlh_rtt_host_init_def released_def wlh_rtt_host_start_def host_zero_def interface_zero_def less_2_cases_iff Let_def
        split: option.splits if_splits)
next
  case True
  then obtain cf t where cf: "cfg = Some (cf, t)" "config_ok cf" "lock_created env" by blast
  define z where "z = (host_zero c0 cf t h)\<lparr> lock := True, initialized := True \<rparr>"
  obtain b p where p: "init_parts K env z = (b, p)" by fastforce
  have z: "interfaces z = [interface_zero, interface_zero]" "next_generation z = 0" by (simp_all add: z_def host_zero_def)
  have lock: "lock (host_zero c0 cf t h\<lparr> lock := lock_created env \<rparr>)" using cf by simp
  have fr: "same_requests z p" "control p = control z" using init_parts_frame [of z K env] p by simp_all
  have i: "(r, h') = (if b then (RT_EOK, p) else (- RT_ERROR,
      (wlh_rtt_wlan_rx_deinit (wlh_rtt_lifecycle_deinit (p\<lparr> initialized := False \<rparr>)))\<lparr> lock := False \<rparr>))"
    using init cf p by (simp add: wlh_rtt_host_init_def Let_def z_def split: bool.splits)
  show ?thesis
  proof (cases b)
    case True
    then have "r = RT_EOK" "h' = p" using i by simp_all
    moreover have "req_reach K 0 z" using z by (intro req_reach.init) simp_all
    then have "req_reach K 0 p" using fr(1) by (rule same_requests_reach)
    moreover have "control p = control z" by (rule fr)
    ultimately show ?thesis using init_parts_ok [of K env z p] p True mem z
      by (simp add: control_def z_def host_zero_def)
  next
    case False
    then have rel: "released h'" "r = - RT_ERROR"
      using i fr z deinit_released [of "p\<lparr> initialized := False \<rparr>"] by (simp_all add: same_requests_def control_def z_def host_zero_def)
    then show ?thesis by (simp add: released_def wlh_rtt_host_start_def)
  qed
qed

lemmas host_init_ok = host_init_cases [where r = RT_EOK, simplified if_True simp_thms]

text \<open>
  C19: Initialisation is all or nothing. Refused arguments leave the structure as it was. If it
  succeeds, the host is marked initialised and not started, no request was made, the receive path
  is ready with all blocks free, both job queues are empty with their threads created, and both
  devices are registered under their interface numbers. If anything else fails, every queue,
  thread, pool and the lock is released and the host stays unusable: starting it is refused.
\<close>

theorem host_init_all_or_nothing:
  assumes mem: "\<forall>m\<in>{fst (rx_mem env), snd (rx_mem env)}. \<forall>s. m = Some s \<longrightarrow> length s = RX_STORAGE"
    and init: "wlh_rtt_host_init K c0 env cfg (Some h) = (r, Some h')"
  shows "if r = RT_EOK
     then magic h' = WLH_RTT_MAGIC \<and> initialized h' \<and> \<not> started h' \<and> \<not> recovering h' \<and> lock h' \<and> req_reach K 0 h' \<and>
          rx_inv h' \<and> rx_pending h' = [] \<and> lifecycle_inv h' \<and> exec_pending h' = [] \<and> life_pending h' = [] \<and> ap_clients h' = 0 \<and>
          (\<forall>i<WLH_RTT_INTERFACE_COUNT. if_id (interfaces h' ! i) = i \<and> registered (interfaces h' ! i))
     else if r = - RT_EINVAL then h' = h
     else released h' \<and> fst (wlh_rtt_host_start K (Some h')) = - RT_EINVAL"
  using host_init_cases [OF assms] .

text \<open>A transport without soft reset, and allocations that all succeed.\<close>

definition sample_ops :: "unit wlh_rtt_transport_ops" where
  "sample_ops = \<lparr> ops_start = Some (\<lambda>t. (0, t)), ops_stop = Some (\<lambda>t. (0, t)), ops_submit_tx = Some (\<lambda>_ _ _ t. (0, t)),
     ops_soft_reset = None, ops_get_stats = None \<rparr>"

definition sample_config :: "unit wlh_rtt_host_config" where
  "sample_config = \<lparr> sta_device_name = Some ''wlan0'', ap_device_name = Some ''wlan1'', transport_ops = Some sample_ops, board_fatal = True \<rparr>"

definition sample_env :: init_env where
  "sample_env = \<lparr> lock_created = True, rx_mq = (True, True),
     rx_mem = (Some (replicate RX_STORAGE 0), Some (replicate RX_STORAGE 0)), rx_thr = True, rx_startup = RT_EOK, reg_sta = RT_EOK,
     reg_ap = RT_EOK, life_alloc = \<lparr> exec_mq = (True, True), life_mq = (True, True), exec_thr = True, life_thr = True \<rparr> \<rparr>"

lemma sample_init_ok:
  "\<exists>h'. wlh_rtt_host_init sample_core () sample_env (Some (sample_config, ())) (Some sample_host) = (RT_EOK, Some h')"
  by (simp add: wlh_rtt_host_init_def config_ok_def sample_config_def sample_ops_def sample_env_def init_parts_def
      wlh_rtt_wlan_rx_init_def wlh_rtt_wlan_register_def wlh_rtt_lifecycle_init_def rt_mq_create_def sample_core_def Let_def)

theorem host_init_all_or_nothing_witness:
  "\<exists>h'. wlh_rtt_host_init sample_core () sample_env (Some (sample_config, ())) (Some sample_host) = (RT_EOK, Some h') \<and>
     initialized h' \<and> rx_inv h' \<and> lifecycle_inv h'"
proof -
  obtain h' where h': "wlh_rtt_host_init sample_core () sample_env (Some (sample_config, ())) (Some sample_host) = (RT_EOK, Some h')"
    using sample_init_ok by blast
  show ?thesis using host_init_all_or_nothing [OF _ h'] h' by (simp add: sample_env_def)
qed

subsection \<open>Recovery\<close>

text \<open>The steps of a recovery that may fail: the Core stops, the transport resets, the Core starts.\<close>

definition recovery_result :: "'c core_api \<Rightarrow> ('c, 't) wlh_rtt_host_impl \<Rightarrow> int" where
  "recovery_result K h =
   (let (r1, c1) = core_stop K (core h);
        r2 = (case ops_soft_reset (the (transport_ops (host_config h))) of
                None \<Rightarrow> RT_EOK | Some reset \<Rightarrow> fst (reset (transport_context h)))
    in if r1 \<noteq> WLH_HOST_OK K then - RT_ERROR
       else if r2 \<noteq> RT_EOK then r2
       else if fst (core_start K c1) \<noteq> WLH_HOST_OK K then - RT_ERROR
       else RT_EOK)"

lemma wlan_reset_frame [simp]:
  "core (wlh_rtt_wlan_reset h) = core h" "host_config (wlh_rtt_wlan_reset h) = host_config h"
  "transport_context (wlh_rtt_wlan_reset h) = transport_context h" "recoveries (wlh_rtt_wlan_reset h) = recoveries h"
  "fatal (wlh_rtt_wlan_reset h) = fatal h" "started (wlh_rtt_wlan_reset h) = started h"
  "magic (wlh_rtt_wlan_reset h) = magic h" "initialized (wlh_rtt_wlan_reset h) = initialized h"
  "executor_queue (wlh_rtt_wlan_reset h) = executor_queue h" "lifecycle_queue (wlh_rtt_wlan_reset h) = lifecycle_queue h"
  "rx_queue (wlh_rtt_wlan_reset h) = rx_queue h"
  by (simp_all add: wlh_rtt_wlan_reset_def reset_interface_def update_interface_def wlh_rtt_report_event_def Let_def
      numeral_2_eq_2 case_prod_beta)

lemma recover_body_fields:
  fixes h :: "('c, 't) wlh_rtt_host_impl"
  shows "fst (recover_body K h) = recovery_result K h"
    and "\<not> recovering (snd (recover_body K h))" "\<not> wifi_initialized (snd (recover_body K h))"
    and "interfaces (snd (recover_body K h)) = interfaces (wlh_rtt_wlan_reset h)"
    and "indications (snd (recover_body K h)) = indications (wlh_rtt_wlan_reset h)"
    and "ap_clients (snd (recover_body K h)) = ap_clients (wlh_rtt_wlan_reset h)"
    and "started (snd (recover_body K h)) = started h"
    and "recoveries (snd (recover_body K h)) = (if recovery_result K h = RT_EOK then recoveries h + 1 else recoveries h)"
    and "fatal (snd (recover_body K h)) =
      (if recovery_result K h \<noteq> RT_EOK \<and> board_fatal (host_config h) then fatal h @ [recovery_result K h] else fatal h)"
    and "magic (snd (recover_body K h)) = magic h" "initialized (snd (recover_body K h)) = initialized h"
    and "executor_queue (snd (recover_body K h)) = executor_queue h" "lifecycle_queue (snd (recover_body K h)) = lifecycle_queue h"
    and "rx_queue (snd (recover_body K h)) = rx_queue h"
    and "next_generation (snd (recover_body K h)) = next_generation (wlh_rtt_wlan_reset h)"
    and "fst (core_stop K (core h)) \<noteq> WLH_HOST_OK K \<Longrightarrow> transport_context (snd (recover_body K h)) = transport_context h"
  by (auto simp: recover_body_def recovery_result_def Let_def split: prod.splits option.splits)

text \<open>
  C20: A recovery of a started host always ends with the flag recovering cleared, every request and
  link of both interfaces ended and reported to the WLAN layer, no SoftAP client counted and a
  running iPerf2 session cancelled. It succeeds exactly if the Core stops, the transport's soft
  reset (if it has one) succeeds and the Core starts again; then it is counted, otherwise the first
  error is returned and handed to the board's fatal handler, if any. So the handler is called when any one of the steps fails, and if the Core does not stop, the
  soft reset is not tried; the package's README says that the handler is invoked after both the Core's recovery and the soft reset fail. A recovery that is already
  going on, or a host that was not started, is refused and nothing changes.
\<close>

theorem host_recover_outcome:
  assumes "length (interfaces h) = WLH_RTT_INTERFACE_COUNT"
  shows "if magic h \<noteq> WLH_RTT_MAGIC \<or> \<not> started h then wlh_rtt_host_recover K (Some h) ip = (- RT_EINVAL, Some h, ip)
     else if recovering h then wlh_rtt_host_recover K (Some h) ip = (- RT_EBUSY, Some h, ip)
     else \<exists>h' ip'. wlh_rtt_host_recover K (Some h) ip = (recovery_result K h, Some h', ip') \<and>
       started h' \<and> \<not> recovering h' \<and> \<not> wifi_initialized h' \<and> (running ip \<longrightarrow> cancel ip') \<and>
       (\<forall>i<WLH_RTT_INTERFACE_COUNT. \<not> req_active (request_at h' i) \<and> \<not> if_active (interfaces h' ! i)) \<and>
       ap_clients h' = 0 \<and> indications h' = indications h @ reset_events h 0 @ reset_events h 1 \<and>
       (fst (core_stop K (core h)) \<noteq> WLH_HOST_OK K \<longrightarrow> transport_context h' = transport_context h) \<and>
       (if recovery_result K h = RT_EOK then recoveries h' = recoveries h + 1 \<and> fatal h' = fatal h
        else recoveries h' = recoveries h \<and>
             fatal h' = (if board_fatal (host_config h) then fatal h @ [recovery_result K h] else fatal h))"
proof -
  let ?h = "h\<lparr> recovering := True \<rparr>"
  have [simp]: "recovery_result K ?h = recovery_result K h" "reset_events ?h = reset_events h"
    by (auto simp: recovery_result_def reset_events_def fun_eq_iff split: option.split)
  have ip: "running ip \<longrightarrow> cancel (snd (snd (wlh_rtt_iperf2_stop ip)))" by (simp add: wlh_rtt_iperf2_stop_def Let_def)
  note W = wlan_reset_fields [of ?h, simplified, OF assms]
  show ?thesis using ip
    by (auto simp: wlh_rtt_host_recover_def case_prod_beta recover_body_fields W request_at_def clear_request_def)
qed

definition sample_session :: iperf_state where
  "sample_session = \<lparr> config = \<lparr> protocol = WLH_RTT_IPERF2_UDP, role = WLH_RTT_IPERF2_SERVER, peer_ipv4 = None, port = 5001, seconds = 10,
     udp_mbps = 1 \<rparr>, peer = [], thread = True, running = True, cancel = False, socket_fd = 3, data_fd = - 1 \<rparr>"

theorem host_recover_outcome_witness:
  "\<exists>h' ip'. wlh_rtt_host_recover sample_core (Some (sample_host\<lparr> host_config := sample_config, started := True \<rparr>)) sample_session =
     (RT_EOK, Some h', ip') \<and> recoveries h' = 1 \<and> cancel ip'"
  using host_recover_outcome [of "sample_host\<lparr> host_config := sample_config, started := True \<rparr>" sample_core sample_session]
  by (auto simp: sample_host_def recovery_result_def sample_core_def sample_config_def sample_ops_def sample_session_def)

end
