(* ===== verification/Host_Machine.thy ===== *)
theory Host_Machine
  imports Host
begin

text \<open>
  The host as a state machine: every entry point of the package, in any order, from a successful
  initialisation on. Public operations (wlh_rtt_host.c), events and completions of the Core, the
  WLAN device operations, posts of jobs, and rounds of the three threads.
\<close>

text \<open>Steps that begin no request.\<close>

inductive host_step :: "'c core_api \<Rightarrow> ('c, 't) wlh_rtt_host_impl \<Rightarrow> ('c, 't) wlh_rtt_host_impl \<Rightarrow> bool" for K where
  start: "wlh_rtt_host_start K (Some h) = (r, Some h') \<Longrightarrow> host_step K h h'"
| stop: "wlh_rtt_host_stop K (Some h) = (r, Some h') \<Longrightarrow> host_step K h h'"
| recover: "wlh_rtt_host_recover K (Some h) ip = (r, Some h', ip') \<Longrightarrow> host_step K h h'"
| input: "wlh_rtt_host_input K (Some h) frame len = (r, Some h') \<Longrightarrow> host_step K h h'"
| link: "wlh_rtt_host_link_event K ev (Some h) = Some h' \<Longrightarrow> host_step K h h'"
| event: "host_step K h (host_event K e h)"
| wifi_ready: "host_step K h (wifi_initialize_complete K result h)"
| completion: "valid_slot c \<Longrightarrow> host_step K h (wlh_rtt_request_complete K (Some c) result h)"
| scan_stop: "i < WLH_RTT_INTERFACE_COUNT \<Longrightarrow> host_step K h (snd (wlan_scan_stop (Some (Some i)) h))"
| send: "host_step K h (snd (wlan_send K (Some (Some i)) buffer len h))"
| post: "executor_post fn ctx (Some h) = (r, Some h') \<Longrightarrow> host_step K h h'"
| transport: "host_step K h (snd (submit_lifecycle b fn ctx h))"
| tx: "host_step K h (snd (core_transport_tx frame f ctx h))"
| executor: "executor_main K h = Round h' \<Longrightarrow> host_step K h h'"
| lifecycle: "lifecycle_main K h = Round h' \<Longrightarrow> host_step K h h'"
| rx: "rx_main rc h = Round h' \<Longrightarrow> host_step K h h'"

text \<open>The request operations of the WLAN devices.\<close>

definition device_request ::
  "'c core_api \<Rightarrow> nat \<Rightarrow> ('c, 't) wlh_rtt_host_impl \<Rightarrow> ('c, 't) wlh_rtt_host_impl \<Rightarrow> bool" where
  "device_request K i h h' \<longleftrightarrow> (\<exists>s. h' = snd (wlan_scan K (Some (Some i)) s h)) \<or> (\<exists>s. h' = snd (wlan_join K (Some (Some i)) s h)) \<or>
     h' = snd (wlan_disconnect K (Some (Some i)) h) \<or> (\<exists>a. h' = snd (wlan_softap K (Some (Some i)) a h)) \<or>
     h' = snd (wlan_ap_stop K (Some (Some i)) h)"

text \<open>\<open>host_reach K n h\<close>: reached with \<open>n\<close> requests begun, which shows in the generation counter.\<close>

inductive host_reach :: "'c core_api \<Rightarrow> nat \<Rightarrow> ('c, 't) wlh_rtt_host_impl \<Rightarrow> bool" for K where
  initial: "\<forall>m\<in>{fst (rx_mem env), snd (rx_mem env)}. \<forall>s. m = Some s \<longrightarrow> length s = RX_STORAGE \<Longrightarrow>
    wlh_rtt_host_init K c0 env cfg (Some h0) = (RT_EOK, Some h) \<Longrightarrow> host_reach K 0 h"
| step: "host_reach K n h \<Longrightarrow> host_step K h h' \<Longrightarrow> host_reach K n h'"
| request: "host_reach K n h \<Longrightarrow> n + 1 < 2 ^ 32 - 1 \<Longrightarrow> i < WLH_RTT_INTERFACE_COUNT \<Longrightarrow> device_request K i h h' \<Longrightarrow>
    host_reach K (if next_generation h' = next_generation h then n else Suc n) h'"

subsection \<open>What the steps leave alone\<close>

text \<open>The job queues and the flags that keep the threads going.\<close>

definition rx_shape :: "('c, 't) wlh_rtt_host_impl \<Rightarrow> bool" where
  "rx_shape h \<longleftrightarrow> (\<exists>q. rx_queue h = Some q \<and> mq_inv_n SIZEOF_RX_JOB q)"

definition threads_ok :: "('c, 't) wlh_rtt_host_impl \<Rightarrow> bool" where
  "threads_ok h \<longleftrightarrow> magic h = WLH_RTT_MAGIC \<and> initialized h \<and> lifecycle_inv h \<and> rx_shape h"

lemma threads_ok_simps [simp]:
  "threads_ok (update_interface i f h) = threads_ok h" "threads_ok (wlh_rtt_report_event i e d h) = threads_ok h"
  "threads_ok (h\<lparr> core := c \<rparr>) = threads_ok h" "threads_ok (h\<lparr> wifi_initialized := b \<rparr>) = threads_ok h"
  "threads_ok (h\<lparr> started := b \<rparr>) = threads_ok h" "threads_ok (h\<lparr> ap_clients := n \<rparr>) = threads_ok h"
  "threads_ok (h\<lparr> ap_client := t \<rparr>) = threads_ok h" "threads_ok (h\<lparr> next_generation := g \<rparr>) = threads_ok h"
  "threads_ok (h\<lparr> transport_context := x \<rparr>) = threads_ok h" "threads_ok (h\<lparr> reported := y \<rparr>) = threads_ok h"
  "threads_ok (h\<lparr> indications := z \<rparr>) = threads_ok h"
  "threads_ok (h\<lparr> modes := w \<rparr>) = threads_ok h" "threads_ok (h\<lparr> recovering := b \<rparr>) = threads_ok h"
  by (simp_all add: threads_ok_def lifecycle_inv_def rx_shape_def update_interface_def wlh_rtt_report_event_def)

lemma reset_threads_ok [simp]: "threads_ok (wlh_rtt_wlan_reset h) = threads_ok h"
  by (simp add: threads_ok_def lifecycle_inv_def rx_shape_def)

lemma recover_threads_ok: "threads_ok (snd (recover_body K h)) = threads_ok h"
  by (simp add: threads_ok_def lifecycle_inv_def rx_shape_def recover_body_fields)

lemma enqueue_threads_ok: "threads_ok h \<Longrightarrow> threads_ok (wlh_rtt_wlan_rx_enqueue iid frame len h)"
  by (auto simp: wlh_rtt_wlan_rx_enqueue_def allocate_block_def free_block_def threads_ok_def lifecycle_inv_def rx_shape_def
      Let_def mq.send_inv update_interface_def case_prod_beta split: option.splits)

lemma request_threads_ok [simp]:
  "threads_ok (wlh_rtt_request_finish i k h) = threads_ok h" "threads_ok (wlh_rtt_request_complete K c r h) = threads_ok h"
  "threads_ok (wlh_rtt_request_abort c h) = threads_ok h" "threads_ok (snd (snd (wlh_rtt_request_begin h i kind b))) = threads_ok h"
  by (simp_all add: wlh_rtt_request_finish_def wlh_rtt_request_complete_def wlh_rtt_request_abort_def wlh_rtt_request_begin_def
      release_slot_def Let_def split: option.split)

lemma reports_threads_ok [simp]: "threads_ok (fold (\<lambda>x. wlh_rtt_report_event i e (d x)) xs h) = threads_ok h"
  by (induction xs arbitrary: h) simp_all

lemma event_threads_ok: "threads_ok h \<Longrightarrow> threads_ok (wlh_rtt_wlan_event K e h)"
proof -
  assume h: "threads_ok h"
  have "threads_ok (report_scan_result K p h)" "threads_ok (report_scan_complete K p h)" "threads_ok (report_ap_client K p b h)"
    "threads_ok (report_connected K p h)" "threads_ok (report_disconnected K p h)" for p b
    using h by (simp_all add: report_scan_result_def report_scan_complete_def report_ap_client_def report_connected_def
        report_disconnected_def scan_result_indications link_up_def update_interface_mac_def case_prod_beta Let_def split: option.splits)
  then show ?thesis using h enqueue_threads_ok [OF h]
    by (simp add: wlh_rtt_wlan_event_def Let_def split: host_event_kind.splits)
qed

lemma host_event_threads_ok: "threads_ok h \<Longrightarrow> threads_ok (host_event K e h)"
  by (simp add: host_event_def Let_def event_threads_ok)

lemma post_threads_ok:
  assumes "threads_ok h"
  shows "threads_ok (the (snd (executor_post fn ctx (Some h))))" "threads_ok (snd (submit_lifecycle b fn ctx h))"
  using assms
  by (auto simp: executor_post_def submit_lifecycle_def threads_ok_def lifecycle_inv_def rx_shape_def Let_def
      mq.send_inv case_prod_beta split: option.splits)

text \<open>Waiting on a queue suspends or takes the oldest job; the result is never RT_EOK.\<close>

lemma recv_forever:
  assumes "mq_inv_n n q"
  shows "rt_mq_recv q n (- 1) = Blocked \<or>
    (\<exists>x q'. rt_mq_recv q n (- 1) = Returns (int n) (Some x) q' \<and> mq_inv_n n q' \<and> max_msgs q' = max_msgs q)"
proof (cases "mq_contents q")
  case Nil
  then show ?thesis using assms mq_recv_empty [of q n "- 1"] by simp
next
  case (Cons x xs)
  then show ?thesis using mq_recv_head [OF assms Cons] by metis
qed

definition same_core :: "('c, 't) wlh_rtt_host_impl \<Rightarrow> ('c, 't) wlh_rtt_host_impl \<Rightarrow> bool" where
  "same_core h h' \<longleftrightarrow> interfaces h' = interfaces h \<and> next_generation h' = next_generation h \<and> core h' = core h"

lemma same_core_requests: "same_core h h' \<Longrightarrow> same_requests h h'"
  by (simp add: same_core_def same_requests_def)

text \<open>A round of any thread suspends, or takes one job and changes nothing but its queue.\<close>

lemma rounds_ok:
  assumes "threads_ok h"
  shows "executor_main K h = Suspended \<or> (\<exists>h'. executor_main K h = Round h' \<and> threads_ok h' \<and> same_core h h')"
    and "lifecycle_main K h = Suspended \<or> (\<exists>h'. lifecycle_main K h = Round h' \<and> threads_ok h' \<and> same_core h h')"
    and "rx_main rc h = Suspended \<or> (\<exists>h'. rx_main rc h = Round h' \<and> threads_ok h' \<and> same_core h h')"
proof -
  obtain q1 q2 q3 where q: "executor_queue h = Some q1" "mq_inv_n 8 q1" "max_msgs q1 = 16"
    "lifecycle_queue h = Some q2" "mq_inv_n 12 q2" "max_msgs q2 = 4" "rx_queue h = Some q3" "mq_inv_n 4 q3"
    and i: "initialized h" "magic h = WLH_RTT_MAGIC"
    using assms by (auto simp: threads_ok_def lifecycle_inv_def rx_shape_def)
  show "executor_main K h = Suspended \<or> (\<exists>h'. executor_main K h = Round h' \<and> threads_ok h' \<and> same_core h h')"
    using recv_forever [OF q(2)] q i
    by (auto simp: executor_main_def threads_ok_def lifecycle_inv_def rx_shape_def same_core_def Let_def)
  show "lifecycle_main K h = Suspended \<or> (\<exists>h'. lifecycle_main K h = Round h' \<and> threads_ok h' \<and> same_core h h')"
    using recv_forever [OF q(5)] q i
    by (auto simp: lifecycle_main_def threads_ok_def lifecycle_inv_def rx_shape_def same_core_def Let_def)
  show "rx_main rc h = Suspended \<or> (\<exists>h'. rx_main rc h = Round h' \<and> threads_ok h' \<and> same_core h h')"
    using recv_forever [OF q(8)] q i
    by (auto simp: rx_main_def threads_ok_def lifecycle_inv_def rx_shape_def same_core_def Let_def)
qed

subsection \<open>Requests along the steps\<close>

lemma reach_core:
  "req_reach K n h \<Longrightarrow> req_reach K n (h\<lparr> core := c \<rparr>)" "req_reach K n h \<Longrightarrow> req_reach K n (h\<lparr> wifi_initialized := b \<rparr>)"
  "req_reach K n h \<Longrightarrow> req_reach K n (h\<lparr> started := b \<rparr>)" "req_reach K n h \<Longrightarrow> req_reach K n (h\<lparr> recovering := b \<rparr>)"
  "req_reach K n h \<Longrightarrow> req_reach K n (h\<lparr> modes := m \<rparr>)"
  by (erule same_requests_reach, simp add: same_requests_def)+

lemma reset_reach:
  assumes "req_reach K n h" shows "req_reach K n (wlh_rtt_wlan_reset h)"
proof -
  have i: "req_reach K n (reset_interface i g)" if "req_reach K n g" "i < 2" for i and g :: "('a, 'b) wlh_rtt_host_impl"
  proof -
    let ?f = "\<lambda>f. f\<lparr> if_active := False, stats := (stats f)\<lparr> st_active := False \<rparr> \<rparr>"
    have "req_reach K n (update_interface i ?f g)"
      by (rule same_requests_reach [OF that(1) same_requests_update]) simp
    from req_reach.reset [OF this that(2)]
    have "req_reach K n (update_interface i (\<lambda>f. clear_request (?f f)) g)"
      using request_invD(1) [OF reach_request_inv [OF that(1)]] that(2) by (simp add: update_interface_def request_shape_def)
    then show ?thesis by (auto simp: reset_interface_def Let_def intro!: reach_report)
  qed
  have "req_reach K n (reset_interface 1 (reset_interface 0 h))" by (intro i assms) simp_all
  then show ?thesis
    by (rule same_requests_reach) (simp add: wlh_rtt_wlan_reset_def numeral_2_eq_2 case_prod_beta Let_def same_requests_def)
qed

lemma recover_reach:
  assumes "req_reach K n h" shows "req_reach K n (snd (recover_body K h))"
  using reset_reach [OF assms] by (rule same_requests_reach) (simp add: same_requests_def recover_body_fields)

lemma host_event_reach: "req_reach K n h \<Longrightarrow> req_reach K n (host_event K e h)"
  by (auto simp: host_event_def Let_def intro!: event_reach reach_core)

lemma send_same: "same_requests h (snd (wlan_send K d buffer len h))"
proof -
  have u: "same_requests h (update_interface i count_dropped (h\<lparr> core := c \<rparr>))"
    "same_requests h (update_interface i count_sent (h\<lparr> core := c \<rparr>))" "same_requests h (update_interface i count_dropped h)" for i c
    by (auto simp: same_requests_def update_interface_def count_dropped_def count_sent_def nth_list_update)
  show ?thesis by (simp add: wlan_send_def Let_def u split: option.split prod.split)
qed

lemma send_threads_ok: "threads_ok (snd (wlan_send K d buffer len h)) = threads_ok h"
  by (simp add: wlan_send_def Let_def split: option.split prod.split)

lemma host_step_ok:
  assumes "host_step K h h'" "req_reach K n h" "threads_ok h"
  shows "req_reach K n h' \<and> threads_ok h'"
  using assms
proof (cases rule: host_step.cases)
  case (start r)
  then show ?thesis using assms(2,3)
    by (auto simp: wlh_rtt_host_start_def Let_def split: if_splits prod.splits intro!: reach_core)
next
  case (stop r)
  then show ?thesis using assms(2,3)
    by (auto simp: wlh_rtt_host_stop_def Let_def split: if_splits prod.splits intro!: reach_core reset_reach)
next
  case (recover ip r ip')
  then show ?thesis using assms(2,3) recover_reach [of K n "h\<lparr> recovering := True \<rparr>"] recover_threads_ok [of K "h\<lparr> recovering := True \<rparr>"]
    by (auto simp: wlh_rtt_host_recover_def Let_def case_prod_beta reach_core split: if_splits)
next
  case (scan_stop i)
  then show ?thesis using assms(2,3)
    by (auto simp: wlan_scan_stop_def interface_from_device_def intro!: reach_report req_reach.finish)
next
  case (send i buffer len)
  then show ?thesis using assms(2,3) same_requests_reach [OF assms(2) send_same] by (simp add: send_threads_ok)
next
  case (post fn ctx r)
  then have "h' = the (snd (executor_post fn ctx (Some h)))" by simp
  moreover have "same_requests h h'" using post
    by (auto simp: executor_post_def same_requests_def Let_def split: if_splits prod.splits)
  ultimately show ?thesis using assms(2,3) post_threads_ok(1) same_requests_reach by blast
next
  case (transport b fn ctx)
  moreover have "same_requests h h'" unfolding transport
    by (auto simp: submit_lifecycle_def same_requests_def Let_def split: option.splits prod.splits)
  ultimately show ?thesis using assms(2,3) post_threads_ok(2) same_requests_reach by blast
next
  case (tx frame f ctx)
  moreover have "same_requests h h'" unfolding tx by (simp add: core_transport_tx_def same_requests_def case_prod_beta)
  ultimately show ?thesis using assms(2,3) same_requests_reach by (fastforce simp: core_transport_tx_def case_prod_beta)
next
  case executor
  then show ?thesis using rounds_ok(1) [OF assms(3), of K] assms(2) same_core_requests same_requests_reach by fastforce
next
  case lifecycle
  then show ?thesis using rounds_ok(2) [OF assms(3), of K] assms(2) same_core_requests same_requests_reach by fastforce
next
  case (rx rc)
  then show ?thesis using rounds_ok(3) [OF assms(3), of rc] assms(2) same_core_requests same_requests_reach by fastforce
qed (auto simp: wlh_rtt_host_input_def wlh_rtt_host_link_event_def wifi_initialize_complete_def host_event_threads_ok Let_def
    split: if_splits option.splits prod.splits intro!: reach_core host_event_reach req_reach.complete)

text \<open>A request operation is refused, or begins a request and passes it to the Core.\<close>

definition begins ::
  "'c core_api \<Rightarrow> nat \<Rightarrow> ('c, 't) wlh_rtt_host_impl \<Rightarrow> ('c, 't) wlh_rtt_host_impl \<Rightarrow> bool" where
  "begins K i h h' \<longleftrightarrow> h' = h \<or> (\<exists>kind call. kind \<noteq> WLH_RTT_REQUEST_NONE \<and>
     (case wlh_rtt_request_begin h i kind True of (g, c, h1) \<Rightarrow>
        h' = (if g = 0 then h1 else snd (core_request K c (call g c) h1))))"

lemma begins_request:
  assumes "kind \<noteq> WLH_RTT_REQUEST_NONE"
    and "r = (case wlh_rtt_request_begin h i kind True of (g, c, h1) \<Rightarrow>
       if g = 0 then (- RT_EBUSY, h1) else core_request K c (call g c) h1)"
  shows "begins K i h (snd r)"
  unfolding begins_def using assms by (auto split: prod.splits if_splits intro!: exI [of _ kind] exI [of _ call])

lemma device_request_begins:
  assumes "device_request K i h h'"
  shows "begins K i h h'"
proof -
  have r: "begins K i h h" by (simp add: begins_def)
  have "begins K i h (snd (wlan_scan K (Some (Some i)) s h))" for s
  proof (cases "if_id (interfaces h ! i) = 0")
    case True
    then show ?thesis
      by (intro begins_request [where kind = WLH_RTT_REQUEST_SCAN and call = "\<lambda>g c. core_wifi_scan K \<lparr> sp_scan_id = g,
            sp_max_results = RT_WLAN_SCAN_CACHE_NUM, sp_ssid = (case s of Some (len, val) \<Rightarrow> if len \<noteq> 0 then Some (take (unat len) val) else None
            | None \<Rightarrow> None) \<rparr> (the c)"]) (simp_all add: wlan_scan_def interface_from_device_def)
  qed (simp add: wlan_scan_def interface_from_device_def r)
  moreover have "begins K i h (snd (wlan_disconnect K (Some (Some i)) h))"
    by (rule begins_request [where kind = WLH_RTT_REQUEST_DISCONNECT and call = "\<lambda>g c. core_wifi_disconnect K (the c)"])
      (simp_all add: wlan_disconnect_def interface_from_device_def)
  moreover have "begins K i h (snd (wlan_ap_stop K (Some (Some i)) h))"
    by (rule begins_request [where kind = WLH_RTT_REQUEST_AP_STOP and call = "\<lambda>g c. core_wifi_stop_ap K (the c)"])
      (simp_all add: wlan_ap_stop_def interface_from_device_def)
  moreover have "begins K i h (snd (wlan_join K (Some (Some i)) s h))" for s
  proof -
    have "begins K i h (snd (case wlh_rtt_request_begin h i WLH_RTT_REQUEST_CONNECT True of (g, c, h1) \<Rightarrow>
        if g = 0 then (- RT_EBUSY, h1) else core_request K c (core_wifi_connect K ps (the c)) h1))" for ps
      by (rule begins_request [where kind = WLH_RTT_REQUEST_CONNECT and call = "\<lambda>g c. core_wifi_connect K ps (the c)"]) simp_all
    then show ?thesis by (simp add: wlan_join_def interface_from_device_def Let_def r split: option.split)
  qed
  moreover have "begins K i h (snd (wlan_softap K (Some (Some i)) a h))" for a
  proof -
    have "begins K i h (snd (case wlh_rtt_request_begin h i WLH_RTT_REQUEST_AP_START True of (g, c, h1) \<Rightarrow>
        if g = 0 then (- RT_EBUSY, h1) else core_request K c (core_wifi_start_ap K ps (the c)) h1))" for ps
      by (rule begins_request [where kind = WLH_RTT_REQUEST_AP_START and call = "\<lambda>g c. core_wifi_start_ap K ps (the c)"]) simp_all
    then show ?thesis by (simp add: wlan_softap_def interface_from_device_def Let_def r split: option.split)
  qed
  ultimately show ?thesis using assms unfolding device_request_def by blast
qed

lemma begins_ok:
  assumes "begins K i h h'" "req_reach K n h" "threads_ok h" "n + 1 < 2 ^ 32 - 1" "i < WLH_RTT_INTERFACE_COUNT"
  shows "req_reach K (if next_generation h' = next_generation h then n else Suc n) h' \<and> threads_ok h'"
proof (cases "h' = h")
  case True
  then show ?thesis using assms by simp
next
  case False
  obtain kind call where kc: "kind \<noteq> WLH_RTT_REQUEST_NONE"
    "case wlh_rtt_request_begin h i kind True of (g, c, h1) \<Rightarrow> h' = (if g = 0 then h1 else snd (core_request K c (call g c) h1))"
    using assms(1) [unfolded begins_def] False by (elim disjE exE conjE) (simp, erule (1) that)
  then obtain g c h1 where k: "kind \<noteq> WLH_RTT_REQUEST_NONE" "wlh_rtt_request_begin h i kind True = (g, c, h1)"
    "h' = (if g = 0 then h1 else snd (core_request K c (call g c) h1))"
    by (cases "wlh_rtt_request_begin h i kind True") auto
  have inv: "request_inv n h" by (rule reach_request_inv [OF assms(2)])
  have t1: "threads_ok h1" using request_threads_ok(4) [of h i kind True] k(2) assms(3) by simp
  from inv assms(5,4) show ?thesis
  proof (cases rule: request_begin_cases [where kind = kind])
    case busy
    then show ?thesis using k False by simp
  next
    case (begun k' h2)
    have gc: "g = of_nat (Suc n)" "c = Some (i, k')" "h2 = h1" using begun(1) k(2) by simp_all
    have g0: "g \<noteq> 0" using next_gen_of_nat(2) [OF assms(4)] gc(1) by (metis nat.distinct(1) unsigned_0)
    have h': "h' = snd (core_request K c (call g c) h1)" using k(3) g0 by simp
    have ng: "next_generation h' = of_nat (Suc n)"
      using begun(6) gc(3) unfolding h' core_request_def
      by (auto simp: Let_def wlh_rtt_request_abort_def release_slot_def split: prod.splits option.splits)
    have "next_generation h = of_nat n" by (rule request_invD(3) [OF inv])
    moreover have "(of_nat (Suc n) :: u32) \<noteq> of_nat n" by simp
    ultimately have ne: "next_generation h' \<noteq> next_generation h" using ng by metis
    have "req_reach K (Suc n) h1" using req_reach.begin_req [OF assms(2,5,4) k(1,2)] gc(2) by simp
    then have "req_reach K (Suc n) h'" using begun(3) gc(2) unfolding h' core_request_def
      by (auto simp: Let_def split: prod.splits intro!: req_reach.abort reach_core)
    moreover have "threads_ok h'" using t1 unfolding h' core_request_def by (auto simp: Let_def split: prod.splits)
    ultimately show ?thesis using ne by simp
  qed
qed

lemma init_threads_ok:
  assumes "\<forall>m\<in>{fst (rx_mem env), snd (rx_mem env)}. \<forall>s. m = Some s \<longrightarrow> length s = RX_STORAGE"
    and "wlh_rtt_host_init K c0 env cfg (Some h0) = (RT_EOK, Some h)"
  shows "req_reach K 0 h \<and> threads_ok h \<and> rx_inv h"
  using host_init_ok [OF assms] by (auto simp: threads_ok_def rx_shape_def rx_inv_def)

lemma host_reach_ok: "host_reach K n h \<Longrightarrow> req_reach K n h \<and> threads_ok h"
proof (induction rule: host_reach.induct)
  case (request n h i h')
  then show ?case using begins_ok [OF device_request_begins] by blast
next
  case (initial env c0 cfg h0 h)
  then show ?case using init_threads_ok [OF initial] by simp
next
  case (step n h h')
  then show ?case using host_step_ok by blast
qed

text \<open>
  C1: Whatever is called in whatever order after a successful initialisation (start, stop, recovery,
  input, link events, Core events, completions, also late and repeated ones, device operations,
  posts and rounds of the three threads), the host stays valid: request generations and slots keep
  their isolation, both job queues stay well formed, and no thread ever meets a missing queue or
  ends; starting is never refused as invalid.
\<close>

theorem host_stays_valid:
  assumes "host_reach K n h"
  shows "magic h = WLH_RTT_MAGIC \<and> initialized h \<and> request_inv n h \<and> lifecycle_inv h \<and>
     executor_main K h \<notin> {Crash, Ends} \<and> lifecycle_main K h \<notin> {Crash, Ends} \<and> rx_main rc h \<notin> {Crash, Ends} \<and>
     wlh_rtt_host_start K (Some h) \<noteq> (- RT_EINVAL, Some h)"
proof -
  have h: "req_reach K n h" "threads_ok h" using host_reach_ok [OF assms] by auto
  note R = rounds_ok [OF h(2)]
  have "executor_main K h \<notin> {Crash, Ends}" using R(1) [of K] by auto
  moreover have "lifecycle_main K h \<notin> {Crash, Ends}" using R(2) [of K] by auto
  moreover have "rx_main rc h \<notin> {Crash, Ends}" using R(3) [of rc] by auto
  ultimately show ?thesis using h reach_request_inv [OF h(1)]
    by (auto simp: threads_ok_def wlh_rtt_host_start_def Let_def split: if_splits prod.splits)
qed

theorem host_stays_valid_witness:
  "\<exists>h :: (unit, unit) wlh_rtt_host_impl. host_reach sample_core 1 h \<and> request_inv 1 h \<and> rx_main 0 h \<noteq> Crash"
proof -
  obtain h where h: "wlh_rtt_host_init sample_core () sample_env (Some (sample_config, ())) (Some sample_host) = (RT_EOK, Some h)"
    using sample_init_ok by blast
  have m: "\<forall>m\<in>{fst (rx_mem sample_env), snd (rx_mem sample_env)}. \<forall>s. m = Some s \<longrightarrow> length s = RX_STORAGE"
    by (simp add: sample_env_def)
  let ?h = "snd (wlan_disconnect sample_core (Some (Some 0)) h)"
  have a: "host_reach sample_core 0 h" by (rule host_reach.initial [OF m h])
  have "device_request sample_core 0 h ?h" by (simp add: device_request_def)
  then have b: "host_reach sample_core (if next_generation ?h = next_generation h then 0 else Suc 0) ?h"
    by (intro host_reach.request [OF a]) simp_all
  have "next_generation h = 0 \<and> next_generation ?h = 1"
    using h
    by (auto simp: wlh_rtt_host_init_def config_ok_def sample_config_def sample_ops_def sample_env_def init_parts_def
        wlh_rtt_wlan_rx_init_def wlh_rtt_wlan_register_def wlh_rtt_lifecycle_init_def rt_mq_create_def sample_core_def Let_def
        host_zero_def update_interface_def interface_zero_def wlan_disconnect_def interface_from_device_def wlh_rtt_request_begin_def
        core_request_def wlh_rtt_next_generation_def request_completion_zero_def replicate_4)
  then have c: "host_reach sample_core 1 ?h" using b by simp
  then show ?thesis using host_stays_valid [OF c, of 0] by blast
qed

end
