(* ===== verification/Xpi_Flash.thy ===== *)
theory Xpi_Flash
  imports Prelude
begin

text \<open>
  The flash device of the bootloader, bootloader/port/fal/fal_flash_port.c: probing, reading,
  programming and erasing the XPI NOR flash through the ROM API, which is code outside the
  repository and a parameter here (\<open>nor_rom\<close>; \<open>rom_ok\<close> states its documented behaviour). Cache
  maintenance and interrupt masking have no effect on the values and are left out: \<open>xip\<close> is what the
  memory-mapped flash holds. \<open>long\<close> offsets are 32-bit words read as signed where the code compares
  them with 0.

  The contract of a flash device is the locale \<open>flash_device\<close>, interpreted on this port at the end.
\<close>

abbreviation (input) FLASH_BASE :: u32 where "FLASH_BASE \<equiv> 0x80000000"
abbreviation (input) status_success :: int where "status_success \<equiv> 0"

record 's nor_rom =
  auto_config :: "'s \<Rightarrow> int \<times> 's"
  sector_size :: "'s \<Rightarrow> u32"
  block_size :: "'s \<Rightarrow> u32"
  page_size :: "'s \<Rightarrow> u32"
  total_size :: "'s \<Rightarrow> u32"
  rom_program :: "u32 \<Rightarrow> u8 list \<Rightarrow> 's \<Rightarrow> int \<times> 's"
  rom_erase_block :: "u32 \<Rightarrow> 's \<Rightarrow> int \<times> 's"
  rom_erase_sector :: "u32 \<Rightarrow> 's \<Rightarrow> int \<times> 's"
  xip :: "'s \<Rightarrow> u32 \<Rightarrow> u8"

text \<open>The static variables of the file, with the chip behind the ROM API.\<close>

record 's onchip_flash =
  flash_ready :: bool
  flash_addr :: u32
  flash_len :: u32
  blk_size :: u32
  chip :: 's

definition xpi_init :: "'s nor_rom \<Rightarrow> 's onchip_flash \<Rightarrow> int \<times> 's onchip_flash" where
  "xpi_init R f =
   (let (status, s) = auto_config R (chip f); f = f\<lparr> chip := s \<rparr> in
    if status \<noteq> status_success then (- 1, f)
    else if sector_size R s = 0 \<or> total_size R s = 0 then (- 1, f)
    else (0, f\<lparr> flash_addr := FLASH_BASE, blk_size := sector_size R s, flash_len := total_size R s, flash_ready := True \<rparr>))"

definition out_of_range :: "u32 \<Rightarrow> u32 \<Rightarrow> 's onchip_flash \<Rightarrow> bool" where
  "out_of_range offset len f \<longleftrightarrow> \<not> flash_ready f \<or> sint offset < 0 \<or> offset + len > flash_len f"

definition xpi_read :: "'s nor_rom \<Rightarrow> u32 \<Rightarrow> u32 \<Rightarrow> 's onchip_flash \<Rightarrow> int \<times> u8 list option" where
  "xpi_read R offset len f =
   (if out_of_range offset len f then (- 1, None)
    else let addr = flash_addr f + offset
         in (sint len, Some (map (\<lambda>i. xip R (chip f) (addr + of_nat i)) [0..<unat len])))"

definition write_unaligned_page_data :: "'s nor_rom \<Rightarrow> u32 \<Rightarrow> u8 list \<Rightarrow> u32 \<Rightarrow> 's onchip_flash \<Rightarrow> int \<times> 's onchip_flash" where
  "write_unaligned_page_data R offset buf len f =
   (let (status, s) = rom_program R offset (take (unat len) buf) (chip f)
    in (if status \<noteq> status_success then - 1 else sint len, f\<lparr> chip := s \<rparr>))"

text \<open>The loop of \<open>write\<close> on the data that remain, in pieces of the 256-byte buffer.\<close>

function write_loop :: "'s nor_rom \<Rightarrow> u32 \<Rightarrow> u8 list \<Rightarrow> 's onchip_flash \<Rightarrow> bool \<times> 's onchip_flash" where
  "write_loop R offset data f =
   (if data = [] then (True, f)
    else
      let n = min (length data) 256;
          (status, s) = rom_program R offset (take n data) (chip f)
      in if status \<noteq> status_success then (False, f\<lparr> chip := s \<rparr>)
         else write_loop R (offset + of_nat n) (drop n data) (f\<lparr> chip := s \<rparr>))"
  by auto
termination by (relation "measure (\<lambda>(R, offset, data, f). length data)") auto

declare write_loop.simps [simp del]

text \<open>
  \<open>None\<close> stands for overrunning the 256-byte buffer of the first piece. The result of
  \<open>write_unaligned_page_data\<close> is stored in a \<open>uint32_t\<close> before it is compared with 0.
\<close>

definition xpi_write :: "'s nor_rom \<Rightarrow> u32 \<Rightarrow> u8 list \<Rightarrow> u32 \<Rightarrow> 's onchip_flash \<Rightarrow> (int \<times> 's onchip_flash) option" where
  "xpi_write R offset buf len f =
   (if out_of_range offset len f \<or> len = 0 then Some (- 1, f)
    else
      let page = page_size R (chip f);
          offset_in_page = offset mod page;
          data = take (unat len) buf;
          finish = (\<lambda>offset data f. let (ok, f) = write_loop R offset data f in (if ok then sint len else - 1, f))
      in if offset_in_page \<noteq> 0
         then
           let write_page_size = min (page - offset_in_page) len in
           if write_page_size > 256 then None
           else
             let (r, f) = write_unaligned_page_data R offset data write_page_size f;
                 write_size = of_int r :: u32
             in if write_size < 0 then Some (- 1, f)
                else Some (finish (offset + write_page_size) (drop (unat write_page_size) data) f)
         else Some (finish offset data f))"

text \<open>The loop of \<open>erase\<close>; it may go on for ever, which is the value \<open>None\<close>.\<close>

partial_function (option) erase_loop ::
  "'s nor_rom \<Rightarrow> u32 \<Rightarrow> u32 \<Rightarrow> u32 \<Rightarrow> u32 \<Rightarrow> 's onchip_flash \<Rightarrow> (bool \<times> 's onchip_flash) option" where
  "erase_loop R sector block offset aligned_size f =
   (if aligned_size = 0 then Some (True, f)
    else
      let big = (offset mod block = 0 \<and> aligned_size \<ge> block);
          erase_unit = (if big then block else sector);
          res = (if big then rom_erase_block R offset (chip f) else rom_erase_sector R offset (chip f));
          f' = f\<lparr> chip := snd res \<rparr>
      in if fst res \<noteq> status_success then Some (False, f')
         else erase_loop R sector block (offset + erase_unit) (aligned_size - erase_unit) f')"

definition xpi_erase :: "'s nor_rom \<Rightarrow> u32 \<Rightarrow> u32 \<Rightarrow> 's onchip_flash \<Rightarrow> (int \<times> 's onchip_flash) option" where
  "xpi_erase R offset len f =
   (if out_of_range offset len f \<or> len = 0 then Some (- 1, f)
    else
      let aligned_size = (len + blk_size f - 1) AND NOT (blk_size f - 1)
      in map_option (\<lambda>(ok, f). (if ok then sint len else - 1, f))
           (erase_loop R (sector_size R (chip f)) (block_size R (chip f)) offset aligned_size f))"

subsection \<open>What a NOR flash does\<close>

text \<open>Nothing outside \<open>n\<close> bytes from \<open>a\<close> differs.\<close>

definition outside :: "nat \<Rightarrow> nat \<Rightarrow> 'a list \<Rightarrow> 'a list \<Rightarrow> bool" where
  "outside a n xs ys \<longleftrightarrow> length ys = length xs \<and> (\<forall>i<length xs. i < a \<or> a + n \<le> i \<longrightarrow> ys ! i = xs ! i)"

text \<open>Programming can only clear bits; erasing sets them.\<close>

definition nor_program :: "u8 list \<Rightarrow> nat \<Rightarrow> u8 list \<Rightarrow> u8 list" where
  "nor_program img a data = blit img a (map2 (AND) (seg img a (length data)) data)"

definition nor_erase :: "u8 list \<Rightarrow> nat \<Rightarrow> nat \<Rightarrow> u8 list" where
  "nor_erase img a n = blit img a (replicate n 0xff)"

definition chip_image :: "'s nor_rom \<Rightarrow> 's \<Rightarrow> u8 list" where
  "chip_image R s = map (\<lambda>i. xip R s (FLASH_BASE + of_nat i)) [0..<unat (total_size R s)]"

definition same_geometry :: "'s nor_rom \<Rightarrow> 's \<Rightarrow> 's \<Rightarrow> bool" where
  "same_geometry R s s' \<longleftrightarrow> sector_size R s' = sector_size R s \<and> block_size R s' = block_size R s \<and>
     page_size R s' = page_size R s \<and> total_size R s' = total_size R s"

definition geometry_ok :: "'s nor_rom \<Rightarrow> 's \<Rightarrow> bool" where
  "geometry_ok R s \<longleftrightarrow> (\<exists>k<31. sector_size R s = 2 ^ k) \<and> unat (sector_size R s) dvd unat (block_size R s) \<and>
     unat (block_size R s) dvd unat (total_size R s) \<and> 0 < total_size R s \<and> total_size R s < 2 ^ 31 \<and>
     0 < page_size R s \<and> page_size R s \<le> 256"

definition program_ok :: "'s nor_rom \<Rightarrow> bool" where
  "program_ok R \<longleftrightarrow> (\<forall>s off data. unat off + length data \<le> unat (total_size R s) \<longrightarrow>
     (case rom_program R off data s of (st, s') \<Rightarrow>
        same_geometry R s s' \<and> outside (unat off) (length data) (chip_image R s) (chip_image R s') \<and>
        (st = status_success \<longrightarrow> chip_image R s' = nor_program (chip_image R s) (unat off) data)))"

definition erase_ok :: "('s \<Rightarrow> u32) \<Rightarrow> (u32 \<Rightarrow> 's \<Rightarrow> int \<times> 's) \<Rightarrow> 's nor_rom \<Rightarrow> bool" where
  "erase_ok unit erase R \<longleftrightarrow> (\<forall>s off. unat off < unat (total_size R s) \<longrightarrow>
     (case erase off s of (st, s') \<Rightarrow>
        let n = unat (unit s); a = unat off div n * n in
        same_geometry R s s' \<and> outside a n (chip_image R s) (chip_image R s') \<and>
        (st = status_success \<longrightarrow> chip_image R s' = nor_erase (chip_image R s) a n)))"

definition rom_ok :: "'s nor_rom \<Rightarrow> bool" where
  "rom_ok R \<longleftrightarrow> program_ok R \<and> erase_ok (sector_size R) (rom_erase_sector R) R \<and> erase_ok (block_size R) (rom_erase_block R) R"

subsection \<open>Images\<close>

lemma outside_refl [simp]: "outside a n xs xs"
  by (simp add: outside_def)

lemma outside_trans: "outside a n xs ys \<Longrightarrow> outside a n ys zs \<Longrightarrow> outside a n xs zs"
  by (simp add: outside_def)

lemma outside_widen: "outside a n xs ys \<Longrightarrow> b \<le> a \<Longrightarrow> a + n \<le> b + m \<Longrightarrow> outside b m xs ys"
  by (auto simp: outside_def)

lemma length_chip_image [simp]: "length (chip_image R s) = unat (total_size R s)"
  by (simp add: chip_image_def)

lemma length_nor [simp]:
  "a + length data \<le> length img \<Longrightarrow> length (nor_program img a data) = length img"
  "a + n \<le> length img \<Longrightarrow> length (nor_erase img a n) = length img"
  by (simp_all add: nor_program_def nor_erase_def)

lemma nth_nor_program:
  "a + length data \<le> length img \<Longrightarrow> i < length img \<Longrightarrow>
   nor_program img a data ! i = (if a \<le> i \<and> i < a + length data then img ! i AND data ! (i - a) else img ! i)"
  by (auto simp: nor_program_def nth_blit seg_def)

lemma nth_nor_erase:
  "a + n \<le> length img \<Longrightarrow> i < length img \<Longrightarrow> nor_erase img a n ! i = (if a \<le> i \<and> i < a + n then 0xff else img ! i)"
  by (auto simp: nor_erase_def nth_blit)

lemma nor_program_append:
  assumes "a + length d + length e \<le> length img"
  shows "nor_program (nor_program img a d) (a + length d) e = nor_program img a (d @ e)"
  using assms by (intro nth_equalityI) (auto simp: nth_nor_program nth_append)

lemma nor_erase_append:
  assumes "a + n + m \<le> length img"
  shows "nor_erase (nor_erase img a n) (a + n) m = nor_erase img a (n + m)"
  using assms by (intro nth_equalityI) (auto simp: nth_nor_erase)

text \<open>Programming an erased range stores the data.\<close>

lemma program_erased:
  assumes "a + n \<le> length img" "length data \<le> n"
  shows "seg (nor_program (nor_erase img a n) a data) a (length data) = data"
proof (rule nth_equalityI)
  show "length (seg (nor_program (nor_erase img a n) a data) a (length data)) = length data" using assms by simp
  fix i assume "i < length (seg (nor_program (nor_erase img a n) a data) a (length data))"
  then have "i < length data" using assms by simp
  moreover have "(255 :: u8) AND x = x" for x
  proof -
    have "(255 :: u8) = - 1" by simp
    then show ?thesis by (metis and.left_neutral)
  qed
  ultimately show "seg (nor_program (nor_erase img a n) a data) a (length data) ! i = data ! i"
    using assms by (simp add: seg_def nth_nor_program nth_nor_erase)
qed

lemma program_outside: "a + length data \<le> length img \<Longrightarrow> outside a (length data) img (nor_program img a data)"
  by (auto simp: outside_def nth_nor_program)

lemma erase_outside: "a + n \<le> length img \<Longrightarrow> outside a n img (nor_erase img a n)"
  by (auto simp: outside_def nth_nor_erase)

subsection \<open>The port\<close>

definition flash_inv :: "'s nor_rom \<Rightarrow> 's onchip_flash \<Rightarrow> bool" where
  "flash_inv R f \<longleftrightarrow> flash_ready f \<and> flash_addr f = FLASH_BASE \<and> flash_len f = total_size R (chip f) \<and>
     blk_size f = sector_size R (chip f) \<and> geometry_ok R (chip f) \<and> rom_ok R"

definition flash_image :: "'s nor_rom \<Rightarrow> 's onchip_flash \<Rightarrow> u8 list" where
  "flash_image R f = chip_image R (chip f)"

abbreviation same_units :: "'s nor_rom \<Rightarrow> 's onchip_flash \<Rightarrow> 's onchip_flash \<Rightarrow> bool" where
  "same_units R f f' \<equiv> page_size R (chip f') = page_size R (chip f) \<and> sector_size R (chip f') = sector_size R (chip f)"

lemma flash_inv_init:
  assumes "xpi_init R f = (0, f')" "geometry_ok R (chip f')" "rom_ok R"
  shows "flash_inv R f'"
  using assms by (auto simp: xpi_init_def flash_inv_def Let_def split: prod.splits if_splits)

lemma same_geometry_inv: "flash_inv R f \<Longrightarrow> same_geometry R (chip f) s \<Longrightarrow> flash_inv R (f\<lparr> chip := s \<rparr>)"
  by (auto simp: flash_inv_def same_geometry_def geometry_ok_def)

lemma geometryD:
  assumes "geometry_ok R s"
  obtains k where "k < 31" "unat (sector_size R s) = 2 ^ k" "sector_size R s = 2 ^ k" "2 ^ k dvd unat (block_size R s)"
    "2 ^ k dvd unat (total_size R s)" "unat (total_size R s) < 2 ^ 31" "0 < unat (block_size R s)"
proof -
  obtain k where k: "k < 31" "sector_size R s = 2 ^ k" using assms by (auto simp: geometry_ok_def)
  have u: "unat (2 ^ k :: u32) = 2 ^ k"
  proof -
    have "(2 :: nat) ^ k < 2 ^ 32" using k(1) by (intro power_strict_increasing) auto
    moreover have "(2 ^ k :: u32) = of_nat (2 ^ k)" by simp
    moreover have "unat (of_nat (2 ^ k) :: u32) = 2 ^ k" using calculation(1) k(1)
      by (subst unsigned_of_nat) (simp add: take_bit_nat_eq_self)
    ultimately show ?thesis by metis
  qed
  have t: "0 < unat (total_size R s)" "unat (total_size R s) < 2 ^ 31"
    using assms by (auto simp: geometry_ok_def word_less_nat_alt)
  have d: "2 ^ k dvd unat (block_size R s)" "unat (block_size R s) dvd unat (total_size R s)"
    using assms k u by (auto simp: geometry_ok_def)
  have "unat (block_size R s) \<noteq> 0" using d(2) t(1) by auto
  then show ?thesis using that [OF k(1)] k u d t(2) dvd_trans [OF d] by simp
qed

lemma not_out_of_range:
  assumes "flash_inv R f" "unat off + unat n \<le> length (flash_image R f)"
  shows "\<not> out_of_range off n f" "unat off < 2 ^ 31" "unat n < 2 ^ 31" "sint n = int (unat n)"
proof -
  obtain t: "unat (total_size R (chip f)) < 2 ^ 31" using assms(1) geometryD by (metis flash_inv_def)
  have l: "unat off + unat n \<le> unat (total_size R (chip f))" using assms(2) by (simp add: flash_image_def)
  then show b: "unat off < 2 ^ 31" "unat n < 2 ^ 31" using t by linarith+
  have s: "sint x = int (unat x)" if "unat x < 2 ^ 31" for x :: u32
    using sint_small [OF that] by simp
  show "sint n = int (unat n)" by (rule s [OF b(2)])
  have "unat (off + n) = unat off + unat n" by (rule unat_plus_no_wrap) (use b in simp)
  then show "\<not> out_of_range off n f" using assms(1) l s [OF b(1)]
    by (simp add: out_of_range_def flash_inv_def word_less_nat_alt)
qed

lemma read_in:
  assumes "flash_inv R f" "unat off + unat n \<le> length (flash_image R f)"
  shows "xpi_read R off n f = (int (unat n), Some (seg (flash_image R f) (unat off) (unat n)))"
proof -
  note b = not_out_of_range [OF assms]
  have "map (\<lambda>i. xip R (chip f) (FLASH_BASE + off + of_nat i)) [0..<unat n] = seg (flash_image R f) (unat off) (unat n)"
    using assms(2) by (intro nth_equalityI) (auto simp: flash_image_def chip_image_def seg_def add.assoc)
  then show ?thesis using b assms(1) by (simp add: xpi_read_def flash_inv_def)
qed

lemma range_errors:
  assumes "flash_inv R f" "length (flash_image R f) < unat off + unat n" "unat off + unat n < 2 ^ 32"
  shows "out_of_range off n f"
proof -
  have "unat (off + n) = unat off + unat n" by (rule unat_plus_no_wrap [OF assms(3)])
  then show ?thesis using assms by (simp add: out_of_range_def flash_inv_def flash_image_def word_less_nat_alt)
qed

lemma write_loop_ok:
  assumes "write_loop R off data f = (ok, f')" "flash_inv R f" "unat off + length data \<le> length (flash_image R f)"
  shows "flash_inv R f' \<and> same_units R f f' \<and> outside (unat off) (length data) (flash_image R f) (flash_image R f') \<and>
    (ok \<longrightarrow> flash_image R f' = nor_program (flash_image R f) (unat off) data)"
  using assms
proof (induction R off data f arbitrary: f' rule: write_loop.induct)
  case (1 R off data f)
  show ?case
  proof (cases "data = []")
    case True
    then have "f' = f" "ok" using "1.prems"(1) by (simp_all add: write_loop.simps)
    then show ?thesis using True "1.prems"(2) by (simp add: nor_program_def blit_def)
  next
    case False
    let ?n = "min (length data) 256"
    obtain st s where ps: "rom_program R off (take ?n data) (chip f) = (st, s)" by fastforce
    let ?f = "f\<lparr> chip := s \<rparr>"
    have n: "unat off + ?n \<le> unat (total_size R (chip f))" "?n \<le> length data" "0 < ?n"
      using "1.prems"(3) False by (auto simp: flash_image_def)
    have p: "same_geometry R (chip f) s" "outside (unat off) ?n (flash_image R f) (flash_image R ?f)"
      "st = 0 \<longrightarrow> flash_image R ?f = nor_program (flash_image R f) (unat off) (take ?n data)"
      using "1.prems"(2) n ps unfolding flash_inv_def rom_ok_def program_ok_def flash_image_def
      by (auto dest!: spec [of _ "chip f"] spec [of _ off] spec [of _ "take ?n data"])
    have inv: "flash_inv R ?f" by (rule same_geometry_inv [OF "1.prems"(2) p(1)])
    have pg: "same_units R f ?f" "length (flash_image R ?f) = length (flash_image R f)"
      using p(1) by (simp_all add: same_geometry_def flash_image_def)
    show ?thesis
    proof (cases "st = 0")
      case False
      then have "f' = ?f" "\<not> ok" using "1.prems"(1) ps \<open>data \<noteq> []\<close> by (simp_all add: write_loop.simps [of R off])
      then show ?thesis using inv pg outside_widen [OF p(2), of "unat off" "length data"] n by simp
    next
      case True
      have t31: "unat (total_size R (chip f)) < 2 ^ 31" using "1.prems"(2) geometryD by (metis flash_inv_def)
      have "unat (of_nat ?n :: u32) = ?n" using n t31 by (simp add: unsigned_of_nat take_bit_nat_eq_self)
      then have o: "unat (off + of_nat ?n) = unat off + ?n"
        using unat_plus_no_wrap [of off "of_nat ?n"] n t31 by simp
      have w: "write_loop R (off + of_nat ?n) (drop ?n data) ?f = (ok, f')"
        using "1.prems"(1) ps True \<open>data \<noteq> []\<close> by (simp add: write_loop.simps [of R off] Let_def)
      have l: "unat (off + of_nat ?n) + length (drop ?n data) \<le> length (flash_image R ?f)"
        using "1.prems"(3) n pg unfolding o by simp
      have IH: "flash_inv R f'" "same_units R ?f f'"
        "outside (unat off + ?n) (length (drop ?n data)) (flash_image R ?f) (flash_image R f')"
        "ok \<Longrightarrow> flash_image R f' = nor_program (flash_image R ?f) (unat off + ?n) (drop ?n data)"
        using "1.IH" [OF False refl ps [symmetric] refl _ w inv l] True o by auto
      have out: "outside (unat off) (length data) (flash_image R f) (flash_image R f')"
        using outside_trans [OF outside_widen [OF p(2), of "unat off" "length data"]
            outside_widen [OF IH(3), of "unat off" "length data"]] n by simp
      have "flash_image R f' = nor_program (flash_image R f) (unat off) data" if ok
        using IH(4) [OF that] p(3) True nor_program_append [of "unat off" "take ?n data" "drop ?n data" "flash_image R f"]
          "1.prems"(3) n by (simp add: min_absorb2)
      then show ?thesis using IH(1,2) pg out by simp
    qed
  qed
qed

lemma write_in:
  assumes inv: "flash_inv R f" and range: "unat off + unat n \<le> length (flash_image R f)" and n: "0 < unat n" "unat n \<le> length buf"
  shows "\<exists>r f'. xpi_write R off buf n f = Some (r, f') \<and> flash_inv R f' \<and> same_units R f f' \<and>
    outside (unat off) (unat n) (flash_image R f) (flash_image R f') \<and> (r = int (unat n) \<or> r = - 1) \<and>
    (off mod page_size R (chip f) = 0 \<longrightarrow> r \<noteq> - 1 \<longrightarrow> flash_image R f' = nor_program (flash_image R f) (unat off) (take (unat n) buf))"
proof -
  note b = not_out_of_range [OF inv range]
  let ?p = "page_size R (chip f)" and ?d = "take (unat n) buf"
  have g: "\<not> (out_of_range off n f \<or> n = 0)" using b n by auto
  have ld: "length ?d = unat n" using n by simp
  show ?thesis
  proof (cases "off mod ?p = 0")
    case True
    obtain ok f' where w: "write_loop R off ?d f = (ok, f')" by fastforce
    have "xpi_write R off buf n f = Some (if ok then int (unat n) else - 1, f')"
      using g True w b(4) by (simp add: xpi_write_def Let_def)
    then show ?thesis using write_loop_ok [OF w inv] range ld by auto
  next
    case False
    define m where "m = min (?p - off mod ?p) n"
    have p0: "0 < ?p" "?p \<le> 256" using inv by (auto simp: flash_inv_def geometry_ok_def)
    have "off mod ?p < ?p" using p0(1) by (simp add: word_less_nat_alt unat_mod)
    then have "?p - off mod ?p \<le> ?p" by (intro word_sub_le) simp
    then have m: "m \<le> 256" "unat m \<le> unat n" using p0(2) unfolding m_def by (auto simp: min_def word_le_nat_alt)
    obtain st s where ps: "rom_program R off (take (unat m) ?d) (chip f) = (st, s)" by fastforce
    let ?f = "f\<lparr> chip := s \<rparr>"
    have lm: "length (take (unat m) ?d) = unat m" using m(2) ld by simp
    have l: "unat off + length (take (unat m) ?d) \<le> unat (total_size R (chip f))"
      unfolding lm using range m(2) by (simp add: flash_image_def)
    have pg: "same_geometry R (chip f) s" "outside (unat off) (unat m) (flash_image R f) (flash_image R ?f)"
      using inv l lm ps unfolding flash_inv_def rom_ok_def program_ok_def flash_image_def
      by (auto dest!: spec [of _ "chip f"] spec [of _ off] spec [of _ "take (unat m) ?d"])
    have inv': "flash_inv R ?f" by (rule same_geometry_inv [OF inv pg(1)])
    have o: "unat (off + m) = unat off + unat m" by (rule unat_plus_no_wrap) (use b(2,3) m(2) in simp)
    obtain ok f' where w: "write_loop R (off + m) (drop (unat m) ?d) ?f = (ok, f')" by fastforce
    have li: "length (flash_image R ?f) = length (flash_image R f)" using pg(2) by (simp add: outside_def)
    have r: "unat (off + m) + length (drop (unat m) ?d) \<le> length (flash_image R ?f)" unfolding o li using range m(2) ld by simp
    note W = write_loop_ok [OF w inv' r]
    have "outside (unat off) (unat n) (flash_image R f) (flash_image R f')"
      using outside_trans [OF outside_widen [OF pg(2), of "unat off" "unat n"]
          outside_widen [OF W [THEN conjunct2, THEN conjunct2, THEN conjunct1], of "unat off" "unat n"]] o m(2) ld by simp
    moreover have "xpi_write R off buf n f = Some (if ok then int (unat n) else - 1, f')"
      using g False w b(4) ps m(1) unfolding m_def
      by (simp add: xpi_write_def write_unaligned_page_data_def Let_def not_less case_prod_beta min_le_iff_disj)
    moreover have "same_units R f ?f" using pg(1) by (simp add: same_geometry_def)
    ultimately show ?thesis using W False by auto
  qed
qed

text \<open>The erase loop terminates and erases whole sectors from the one that holds the offset.\<close>

lemma erase_loop_ok:
  assumes "flash_inv R f" "sector = sector_size R (chip f)" "block = block_size R (chip f)"
    and "unat sector dvd unat al" "unat off div unat sector * unat sector + unat al \<le> length (flash_image R f)"
  shows "\<exists>ok f'. erase_loop R sector block off al f = Some (ok, f') \<and> flash_inv R f' \<and> same_units R f f' \<and>
    outside (unat off div unat sector * unat sector) (unat al) (flash_image R f) (flash_image R f') \<and>
    (ok \<longrightarrow> flash_image R f' = nor_erase (flash_image R f) (unat off div unat sector * unat sector) (unat al))"
  using assms
proof (induction "unat al" arbitrary: al off f rule: less_induct)
  case less
  obtain k where k: "unat sector = 2 ^ k" "unat sector dvd unat block" "unat sector dvd unat (total_size R (chip f))"
    "unat (total_size R (chip f)) < 2 ^ 31" "0 < unat block"
    using less.prems(1-3) geometryD [of R "chip f"] unfolding flash_inv_def by metis
  define sz where "sz = unat sector"
  define a where "a = unat off div sz * sz"
  have sz: "0 < sz" using k(1) by (simp add: sz_def)
  show ?case
  proof (cases "al = 0")
    case True
    then show ?thesis using less.prems(1) by (auto simp: erase_loop.simps nor_erase_def blit_def)
  next
    case False
    have al: "sz \<le> unat al" using False less.prems(4) sz by (simp add: sz_def dvd_imp_le unat_gt_0)
    have rng: "a + unat al \<le> unat (total_size R (chip f))" using less.prems(5) by (simp add: a_def sz_def flash_image_def)
    have off: "unat off < a + sz" "a \<le> unat off"
      using sz dividend_less_div_times [of sz "unat off"] by (simp_all add: a_def add.commute)
    have offt: "unat off < unat (total_size R (chip f))" using off al rng by linarith
    define big where "big \<longleftrightarrow> off mod block = 0 \<and> block \<le> al"
    define u where "u = (if big then unat block else sz)"
    define res where "res = (if big then rom_erase_block R off (chip f) else rom_erase_sector R off (chip f))"
    let ?f = "f\<lparr> chip := snd res \<rparr>" and ?unit = "if big then block else sector"
    have uu: "unat ?unit = u" "u \<le> unat al" "sz dvd u" "0 < u"
      using al k sz by (auto simp: u_def big_def sz_def word_le_nat_alt)
    have start: "unat off div u * u = a"
    proof (cases big)
      case True
      then have "unat (off mod block) = 0" by (simp add: big_def)
      then have "unat block dvd unat off" by (simp only: unat_mod mod_eq_0_iff_dvd)
      then show ?thesis using True k(2) by (simp add: u_def a_def sz_def dvd_trans)
    qed (simp add: u_def a_def)
    have er: "same_geometry R (chip f) (snd res)" "outside a u (flash_image R f) (flash_image R ?f)"
      "fst res = 0 \<longrightarrow> flash_image R ?f = nor_erase (flash_image R f) a u"
      using less.prems(1-3) offt start unfolding flash_inv_def rom_ok_def erase_ok_def flash_image_def res_def u_def sz_def
      by (auto simp: Let_def case_prod_beta split: if_splits)
    have inv: "flash_inv R ?f" by (rule same_geometry_inv [OF less.prems(1) er(1)])
    have geo: "sector = sector_size R (chip ?f)" "block = block_size R (chip ?f)" "same_units R f ?f"
      "length (flash_image R ?f) = length (flash_image R f)"
      using er(1) less.prems(2,3) by (simp_all add: same_geometry_def flash_image_def)
    have step: "erase_loop R sector block off al f = (if fst res \<noteq> 0 then Some (False, ?f)
        else erase_loop R sector block (off + ?unit) (al - ?unit) ?f)"
      using False by (subst erase_loop.simps) (simp add: Let_def big_def res_def)
    show ?thesis
    proof (cases "fst res = 0")
      case False
      then show ?thesis using step inv geo(3) outside_widen [OF er(2), of a "unat al"] uu(2) by (auto simp: a_def sz_def)
    next
      case True
      have al': "unat (al - ?unit) = unat al - u" using unat_sub [of ?unit al] uu by (simp add: word_le_nat_alt)
      have o': "unat (off + ?unit) = unat off + u"
        using unat_plus_no_wrap [of off ?unit] uu off rng k(4) sz al unfolding uu(1) by simp
      have d': "(unat off + u) div sz * sz = a + u" using uu(3) sz by (auto simp: a_def algebra_simps elim!: dvdE)
      have *: "\<exists>ok f'. erase_loop R sector block (off + ?unit) (al - ?unit) ?f = Some (ok, f') \<and> flash_inv R f' \<and>
          same_units R ?f f' \<and> outside (a + u) (unat al - u) (flash_image R ?f) (flash_image R f') \<and>
          (ok \<longrightarrow> flash_image R f' = nor_erase (flash_image R ?f) (a + u) (unat al - u))"
        using less.hyps [OF _ inv geo(1,2), of "al - ?unit" "off + ?unit"] less.prems(4) rng uu geo(4)
        unfolding al' o' sz_def [symmetric] d' by (simp add: flash_image_def)
      then obtain ok f' where f': "erase_loop R sector block (off + ?unit) (al - ?unit) ?f = Some (ok, f')" "flash_inv R f'"
        "same_units R ?f f'" "outside (a + u) (unat al - u) (flash_image R ?f) (flash_image R f')"
        "ok \<longrightarrow> flash_image R f' = nor_erase (flash_image R ?f) (a + u) (unat al - u)" by blast
      have "outside a (unat al) (flash_image R f) (flash_image R f')"
        using outside_trans [OF outside_widen [OF er(2), of a "unat al"] outside_widen [OF f'(4), of a "unat al"]] uu(2) by simp
      moreover have "flash_image R f' = nor_erase (flash_image R f) a (unat al)" if ok
        using f'(5) that er(3) True nor_erase_append [of a u "unat al - u" "flash_image R f"] rng uu(2) by (simp add: flash_image_def)
      ultimately show ?thesis using step True f'(1-3) geo(3) by (simp add: a_def sz_def)
    qed
  qed
qed

text \<open>The number of bytes erased for a request of \<open>n\<close> bytes.\<close>

definition whole_sectors :: "'s nor_rom \<Rightarrow> 's onchip_flash \<Rightarrow> nat \<Rightarrow> nat" where
  "whole_sectors R f n = (let s = unat (sector_size R (chip f)) in (n + s - 1) div s * s)"

lemma round_up:
  assumes "0 < (s :: nat)"
  shows "n \<le> (n + s - 1) div s * s" "(n + s - 1) div s * s < n + s" "s dvd (n + s - 1) div s * s"
proof -
  have "n + s - 1 < s + (n + s - 1) div s * s" "(n + s - 1) div s * s \<le> n + s - 1"
    using dividend_less_div_times [OF assms, of "n + s - 1"] div_times_less_eq_dividend [of "n + s - 1" s] by simp_all
  then show "n \<le> (n + s - 1) div s * s" "(n + s - 1) div s * s < n + s" using assms by linarith+
qed simp

lemma round_up_range:
  assumes "0 < (s :: nat)" "s dvd t" "a + n \<le> t"
  shows "a div s * s + (n + s - 1) div s * s \<le> t"
proof -
  obtain m where m: "t = m * s" using assms(2) by (metis dvdE mult.commute)
  have "a div s * s \<le> a" by (rule div_times_less_eq_dividend)
  then have "a div s * s + (n + s - 1) div s * s < m * s + s" using round_up(2) [OF assms(1), of n] assms(3) m by linarith
  then have "(a div s + (n + s - 1) div s) * s < (m + 1) * s" by (simp only: add_mult_distrib mult_1)
  then have "a div s + (n + s - 1) div s < m + 1" by (simp only: mult_less_cancel2)
  then have "(a div s + (n + s - 1) div s) * s \<le> m * s" by (intro mult_le_mono1) simp
  then show ?thesis by (simp add: m algebra_simps)
qed

lemma aligned_size:
  assumes "unat (n :: u32) < 2 ^ 31" "k < 31"
  shows "unat ((n + 2 ^ k - 1) AND NOT (2 ^ k - 1)) = (unat n + 2 ^ k - 1) div 2 ^ k * 2 ^ k"
proof -
  have p: "(2 :: nat) ^ k \<le> 2 ^ 30" using assms(2) by (intro power_increasing) auto
  have "unat (of_nat (unat n + (2 ^ k - 1)) :: u32) = unat n + (2 ^ k - 1)"
    using assms(1) p by (subst unsigned_of_nat) (simp add: take_bit_nat_eq_self)
  moreover have "(of_nat (2 ^ k - 1) :: u32) = 2 ^ k - 1" by (subst of_nat_diff) simp_all
  then have "(of_nat (unat n + (2 ^ k - 1)) :: u32) = n + 2 ^ k - 1" by (simp only: of_nat_add) simp
  ultimately have "unat (n + 2 ^ k - 1) = unat n + 2 ^ k - 1" by simp
  then show ?thesis using unat_and_not_mask [of "n + 2 ^ k - 1" k] by (simp add: mask_eq_exp_minus_1)
qed

lemma erase_in:
  assumes inv: "flash_inv R f" and range: "unat off + unat n \<le> length (flash_image R f)" and n: "0 < unat n"
  shows "let s = unat (sector_size R (chip f)); a = unat off div s * s in
    \<exists>r f'. xpi_erase R off n f = Some (r, f') \<and> flash_inv R f' \<and> same_units R f f' \<and>
      (r = int (unat n) \<or> r = - 1) \<and> a + whole_sectors R f (unat n) \<le> length (flash_image R f) \<and>
      outside a (whole_sectors R f (unat n)) (flash_image R f) (flash_image R f') \<and>
      (r \<noteq> - 1 \<longrightarrow> flash_image R f' = nor_erase (flash_image R f) a (whole_sectors R f (unat n)))"
proof -
  note b = not_out_of_range [OF inv range]
  let ?s = "unat (sector_size R (chip f))"
  obtain k where k: "k < 31" "?s = 2 ^ k" "sector_size R (chip f) = 2 ^ k" "?s dvd unat (total_size R (chip f))"
    using inv geometryD [of R "chip f"] unfolding flash_inv_def by metis
  define al where "al = (n + blk_size f - 1) AND NOT (blk_size f - 1)"
  have al: "unat al = whole_sectors R f (unat n)"
    using aligned_size [OF b(3) k(1)] inv k(3) unfolding al_def whole_sectors_def Let_def k(2) by (simp add: flash_inv_def)
  have s0: "0 < ?s" using k(2) by simp
  have d: "?s dvd unat al" unfolding al whole_sectors_def Let_def by simp
  have rg: "unat off div ?s * ?s + unat al \<le> length (flash_image R f)"
    unfolding al whole_sectors_def Let_def using round_up_range [OF s0 k(4)] range by (simp add: flash_image_def)
  obtain ok f' where e: "erase_loop R (sector_size R (chip f)) (block_size R (chip f)) off al f = Some (ok, f')" "flash_inv R f'"
    "same_units R f f'" "outside (unat off div ?s * ?s) (unat al) (flash_image R f) (flash_image R f')"
    "ok \<longrightarrow> flash_image R f' = nor_erase (flash_image R f) (unat off div ?s * ?s) (unat al)"
    using erase_loop_ok [OF inv refl refl d rg] by blast
  have "xpi_erase R off n f = Some (if ok then int (unat n) else - 1, f')"
    using b e(1) n unfolding xpi_erase_def al_def by auto
  then show ?thesis using e rg al by (auto simp: Let_def)
qed

subsection \<open>The contract of a flash device\<close>

text \<open>
  What the partition layer relies on: reads give the contents, writes and erases always return and
  change nothing outside their range, report success as the number of bytes, and after success
  the range was programmed or erased; requests beyond the end are refused.
\<close>

locale flash_device =
  fixes rd :: "u32 \<Rightarrow> u32 \<Rightarrow> 'f \<Rightarrow> int \<times> u8 list option"
    and wr :: "u32 \<Rightarrow> u8 list \<Rightarrow> u32 \<Rightarrow> 'f \<Rightarrow> (int \<times> 'f) option"
    and er :: "u32 \<Rightarrow> u32 \<Rightarrow> 'f \<Rightarrow> (int \<times> 'f) option"
    and content :: "'f \<Rightarrow> u8 list"
    and eunit :: "'f \<Rightarrow> nat"
    and wunit :: "'f \<Rightarrow> nat"
    and inv :: "'f \<Rightarrow> bool"
  assumes capacity: "inv f \<Longrightarrow> length (content f) < 2 ^ 31 \<and> 0 < eunit f \<and> 0 < wunit f \<and> eunit f dvd length (content f)"
    and read_law: "inv f \<Longrightarrow> unat off + unat n \<le> length (content f) \<Longrightarrow>
          rd off n f = (int (unat n), Some (seg (content f) (unat off) (unat n)))"
    and read_refused: "inv f \<Longrightarrow> length (content f) < unat off + unat n \<Longrightarrow> unat off + unat n < 2 ^ 32 \<Longrightarrow> rd off n f = (- 1, None)"
    and write_law: "inv f \<Longrightarrow> unat off + unat n \<le> length (content f) \<Longrightarrow> 0 < unat n \<Longrightarrow> unat n \<le> length buf \<Longrightarrow>
          \<exists>r f'. wr off buf n f = Some (r, f') \<and> inv f' \<and> eunit f' = eunit f \<and> wunit f' = wunit f \<and>
            outside (unat off) (unat n) (content f) (content f') \<and> (r = int (unat n) \<or> r = - 1) \<and>
            (wunit f dvd unat off \<longrightarrow> r \<noteq> - 1 \<longrightarrow> content f' = nor_program (content f) (unat off) (take (unat n) buf))"
    and erase_law: "inv f \<Longrightarrow> unat off + unat n \<le> length (content f) \<Longrightarrow> 0 < unat n \<Longrightarrow>
          \<exists>r f'. er off n f = Some (r, f') \<and> inv f' \<and> eunit f' = eunit f \<and> wunit f' = wunit f \<and> (r = int (unat n) \<or> r = - 1) \<and>
            outside (unat off div eunit f * eunit f) ((unat n + eunit f - 1) div eunit f * eunit f) (content f) (content f') \<and>
            (r \<noteq> - 1 \<longrightarrow> content f' = nor_erase (content f) (unat off div eunit f * eunit f) ((unat n + eunit f - 1) div eunit f * eunit f))"
    and change_refused: "inv f \<Longrightarrow> length (content f) < unat off + unat n \<or> n = 0 \<Longrightarrow> unat off + unat n < 2 ^ 32 \<Longrightarrow>
          wr off buf n f = Some (- 1, f) \<and> er off n f = Some (- 1, f)"
begin

text \<open>Erasing aligned space and writing it stores the data, which then reads back.\<close>

lemma erase_write:
  assumes inv: "inv f" and al: "eunit f dvd unat off" "wunit f dvd unat off"
    and range: "unat off + unat n \<le> length (content f)" and n: "0 < unat n" "unat n \<le> length buf"
  shows "\<exists>r1 f1. er off n f = Some (r1, f1) \<and> inv f1 \<and> (r1 = int (unat n) \<or> r1 = - 1) \<and>
    outside (unat off) ((unat n + eunit f - 1) div eunit f * eunit f) (content f) (content f1) \<and>
    (r1 \<noteq> - 1 \<longrightarrow> (\<exists>r2 f2. wr off buf n f1 = Some (r2, f2) \<and> inv f2 \<and> (r2 = int (unat n) \<or> r2 = - 1) \<and>
       outside (unat off) ((unat n + eunit f - 1) div eunit f * eunit f) (content f) (content f2) \<and>
       (r2 \<noteq> - 1 \<longrightarrow> rd off n f2 = (int (unat n), Some (take (unat n) buf)))))"
proof -
  let ?m = "(unat n + eunit f - 1) div eunit f * eunit f"
  have e0: "0 < eunit f" and dv: "eunit f dvd length (content f)" using capacity [OF inv] by auto
  have a: "unat off div eunit f * eunit f = unat off" using al(1) by simp
  note nm = round_up [OF e0, of "unat n"]
  obtain r1 f1 where f1: "er off n f = Some (r1, f1)" "inv f1" "eunit f1 = eunit f" "wunit f1 = wunit f" "r1 = int (unat n) \<or> r1 = - 1"
    "outside (unat off) ?m (content f) (content f1)" "r1 \<noteq> - 1 \<longrightarrow> content f1 = nor_erase (content f) (unat off) ?m"
    using erase_law [OF inv range n(1)] unfolding a by blast
  have mr: "unat off + ?m \<le> length (content f)" using round_up_range [OF e0 dv range] unfolding a .
  have l1: "length (content f1) = length (content f)" using f1(6) by (simp add: outside_def)
  obtain r2 f2 where f2: "wr off buf n f1 = Some (r2, f2)" "inv f2" "r2 = int (unat n) \<or> r2 = - 1"
    "outside (unat off) (unat n) (content f1) (content f2)"
    "r2 \<noteq> - 1 \<longrightarrow> content f2 = nor_program (content f1) (unat off) (take (unat n) buf)"
    using write_law [OF f1(2), of off n buf] range n al(2) f1(4) l1 by auto
  have out: "outside (unat off) ?m (content f) (content f2)"
    using outside_trans [OF f1(6) outside_widen [OF f2(4), of "unat off" ?m]] nm(1) by simp
  have "rd off n f2 = (int (unat n), Some (take (unat n) buf))" if "r1 \<noteq> - 1" "r2 \<noteq> - 1"
  proof -
    have "content f2 = nor_program (nor_erase (content f) (unat off) ?m) (unat off) (take (unat n) buf)" using f1(7) f2(5) that by simp
    moreover have "length (take (unat n) buf) = unat n" using n(2) by simp
    ultimately have "seg (content f2) (unat off) (unat n) = take (unat n) buf"
      using program_erased [OF mr, of "take (unat n) buf"] nm(1) by simp
    moreover have "length (content f2) = length (content f)" using out by (simp add: outside_def)
    ultimately show ?thesis using read_law [OF f2(2), of off n] range by simp
  qed
  then show ?thesis using f1 f2 out by blast
qed

end

interpretation onchip: flash_device "xpi_read R" "xpi_write R" "xpi_erase R" "flash_image R"
  "\<lambda>f. unat (sector_size R (chip f))" "\<lambda>f. unat (page_size R (chip f))" "flash_inv R"
  for R
proof (unfold_locales, goal_cases)
  case (1 f)
  then show ?case
    by (auto simp: flash_inv_def flash_image_def geometry_ok_def unat_gt_0 word_less_nat_alt elim!: geometryD)
next
  case (2 f off n)
  then show ?case by (rule read_in)
next
  case (3 f off n)
  then show ?case using range_errors by (simp add: xpi_read_def)
next
  case (4 f off n buf)
  from write_in [OF this] obtain r f' where g': "xpi_write R off buf n f = Some (r, f')" "flash_inv R f'" "same_units R f f'"
    "outside (unat off) (unat n) (flash_image R f) (flash_image R f')" "r = int (unat n) \<or> r = - 1"
    "off mod page_size R (chip f) = 0 \<longrightarrow> r \<noteq> - 1 \<longrightarrow> flash_image R f' = nor_program (flash_image R f) (unat off) (take (unat n) buf)"
    by blast
  have "unat (page_size R (chip f)) dvd unat off \<longleftrightarrow> off mod page_size R (chip f) = 0"
    by (simp add: unat_mod dvd_eq_mod_eq_0 flip: unat_eq_0)
  then show ?case using g' by auto
next
  case (5 f off n)
  from erase_in [OF this] show ?case by (auto simp: Let_def whole_sectors_def)
next
  case (6 f off n buf)
  then show ?case using range_errors by (auto simp: xpi_write_def xpi_erase_def)
qed

subsection \<open>A simulated chip\<close>

text \<open>A ROM whose chip does what it is told, of any geometry, and a chip of 64 bytes: concrete inputs of the examples.\<close>

definition sim_nor :: "u32 \<Rightarrow> u32 \<Rightarrow> u32 \<Rightarrow> u32 \<Rightarrow> (nat \<Rightarrow> u8) nor_rom" where
  "sim_nor sector block page total_len = \<lparr> auto_config = (\<lambda>s. (0, s)), sector_size = (\<lambda>_. sector), block_size = (\<lambda>_. block),
     page_size = (\<lambda>_. page), total_size = (\<lambda>_. total_len),
     rom_program = (\<lambda>off data s. (0, \<lambda>i. if unat off \<le> i \<and> i < unat off + length data then s i AND data ! (i - unat off) else s i)),
     rom_erase_block = (\<lambda>off s. (0, \<lambda>i. if i div unat block = unat off div unat block then 0xff else s i)),
     rom_erase_sector = (\<lambda>off s. (0, \<lambda>i. if i div unat sector = unat off div unat sector then 0xff else s i)),
     xip = (\<lambda>s a. s (unat (a - FLASH_BASE))) \<rparr>"

definition power_on :: "'s \<Rightarrow> 's onchip_flash" where
  "power_on s = \<lparr> flash_ready = False, flash_addr = 0, flash_len = 0, blk_size = 4096, chip = s \<rparr>"

definition sim_rom :: "(nat \<Rightarrow> u8) nor_rom" where
  "sim_rom = sim_nor (2 ^ 3) 16 8 64"

definition sim_flash :: "(nat \<Rightarrow> u8) onchip_flash" where
  "sim_flash = snd (xpi_init sim_rom (power_on (\<lambda>_. 0)))"

lemma sim_image: "chip_image (sim_nor a b p n) s = map s [0..<unat n]"
proof -
  have "unat (of_nat i :: u32) = i" if "i < unat n" for i
    using that unat_u32_bound [of n] by (simp add: unsigned_of_nat take_bit_nat_eq_self)
  then show ?thesis by (simp add: chip_image_def sim_nor_def)
qed

lemma div_range: "0 < (n :: nat) \<Longrightarrow> i div n = q \<longleftrightarrow> q * n \<le> i \<and> i < q * n + n"
  by (metis add.commute div_less_iff_less_mult div_nat_eqI dividend_less_div_times div_times_less_eq_dividend mult.commute mult_Suc)

lemma sim_rom_ok:
  assumes "0 < unat a" "0 < unat b" "unat a dvd unat n" "unat b dvd unat n"
  shows "rom_ok (sim_nor a b p n)"
proof -
  let ?R = "sim_nor a b p n"
  have pr: "program_ok ?R" unfolding program_ok_def sim_image
    by (auto simp: sim_nor_def same_geometry_def outside_def nth_nor_program intro!: nth_equalityI)
  have e: "erase_ok unit erase ?R"
    if "unit = (\<lambda>_. c)" "0 < unat c" "unat c dvd unat n" "erase = (\<lambda>off s. (0, \<lambda>i. if i div unat c = unat off div unat c then 0xff else s i))"
    for unit erase and c :: u32
  proof -
    have "unat off div unat c * unat c + unat c \<le> unat n" if "unat off < unat n" for off :: u32
    proof -
      obtain m where m: "unat n = unat c * m" using \<open>unat c dvd unat n\<close> ..
      then have "unat off div unat c < m" using that \<open>0 < unat c\<close> by (simp add: div_less_iff_less_mult mult.commute)
      then have "(unat off div unat c + 1) * unat c \<le> m * unat c" by (intro mult_le_mono1) simp
      then show ?thesis using m by (simp add: algebra_simps)
    qed
    then show ?thesis unfolding erase_ok_def sim_image that(1,4)
      using that(2) by (auto simp: sim_nor_def same_geometry_def outside_def nth_nor_erase Let_def div_range intro!: nth_equalityI)
  qed
  show ?thesis unfolding rom_ok_def using pr assms e [of "sector_size ?R" a "rom_erase_sector ?R"]
      e [of "block_size ?R" b "rom_erase_block ?R"]
    by (simp add: sim_nor_def)
qed

lemma sim_flash_inv: "flash_inv sim_rom sim_flash" "length (flash_image sim_rom sim_flash) = 64"
proof -
  have "rom_ok sim_rom" unfolding sim_rom_def by (rule sim_rom_ok) simp_all
  then show "flash_inv sim_rom sim_flash"
    by (auto simp: flash_inv_def sim_flash_def xpi_init_def sim_rom_def sim_nor_def geometry_ok_def intro!: exI [of _ 3])
  show "length (flash_image sim_rom sim_flash) = 64" by (simp add: flash_image_def sim_rom_def sim_image)
qed

subsection \<open>Properties\<close>

text \<open>The loop ends for every offset and every remainder that is a multiple of the sector size.\<close>

lemma erase_loop_returns:
  assumes "0 < unat sector" "0 < unat block" "unat sector dvd unat block"
  shows "unat sector dvd unat al \<Longrightarrow> erase_loop R sector block off al f \<noteq> None"
proof (induction "unat al" arbitrary: al off f rule: less_induct)
  case less
  show ?case
  proof (cases "al = 0")
    case False
    define unit where "unit = (if off mod block = 0 \<and> al \<ge> block then block else sector)"
    have "unat sector \<le> unat al" using less.prems False by (intro dvd_imp_le) (simp_all add: unat_gt_0)
    then have u: "unat unit \<le> unat al" "0 < unat unit" "unat sector dvd unat unit" using assms by (auto simp: unit_def word_le_nat_alt)
    then have d: "unat (al - unit) = unat al - unat unit" by (simp add: unat_sub word_le_nat_alt)
    have "unat (al - unit) < unat al" "unat sector dvd unat (al - unit)" using u less.prems unfolding d by (auto intro: dvd_diff_nat)
    then have "erase_loop R sector block (off + unit) (al - unit) g \<noteq> None" for g using less.hyps by blast
    then show ?thesis using False by (subst erase_loop.simps) (simp add: Let_def unit_def del: not_None_eq)
  qed (simp add: erase_loop.simps)
qed

lemma erase_returns:
  assumes "flash_inv R f"
  shows "xpi_erase R off n f \<noteq> None"
proof -
  obtain k where k: "unat (sector_size R (chip f)) = 2 ^ k" "sector_size R (chip f) = 2 ^ k" "2 ^ k dvd unat (block_size R (chip f))" "0 < unat (block_size R (chip f))"
    using assms geometryD [of R "chip f"] unfolding flash_inv_def by metis
  have "blk_size f = 2 ^ k" using assms k(2) by (simp add: flash_inv_def)
  then have "2 ^ k dvd unat ((n + blk_size f - 1) AND NOT (blk_size f - 1))"
    using unat_and_not_mask [of "n + blk_size f - 1" k] by (simp add: mask_eq_exp_minus_1)
  then have "erase_loop R (sector_size R (chip f)) (block_size R (chip f)) off ((n + blk_size f - 1) AND NOT (blk_size f - 1)) f \<noteq> None"
    using k by (intro erase_loop_returns) simp_all
  then show ?thesis by (simp add: xpi_erase_def Let_def del: not_None_eq)
qed

lemma erase_refused:
  assumes "flash_inv R f" "unat n = 0 \<or> length (flash_image R f) < unat off + unat n" "unat off + unat n < 2 ^ 32"
  shows "xpi_erase R off n f = Some (- 1, f)"
proof -
  have "unat (off + n) = unat off + unat n" by (rule unat_plus_no_wrap) (use assms(3) in simp)
  moreover have "length (flash_image R f) = unat (flash_len f)" using assms(1) by (simp add: flash_image_def flash_inv_def)
  ultimately show ?thesis using assms(2) by (auto simp: xpi_erase_def out_of_range_def word_less_nat_alt unat_eq_zero)
qed

text \<open>
  C38: Erasing returns for every offset and size, although its loop
  counts an unsigned remainder down to exactly 0. A request for nothing or beyond the end of the flash, whose end does not wrap around, returns -1 and changes nothing. A
  request inside the flash returns the size or -1 (the comment at the function says 0 for success); it touches only whole sectors, from the one that
  holds the offset on, as many as the size rounded up needs, and on success all of them are erased.
  So the requested range is covered if the offset is at the start of a sector.
\<close>

theorem xpi_erase_returns:
  assumes "flash_inv R f"
  shows "let s = unat (sector_size R (chip f)); a = unat off div s * s; m = (unat n + s - 1) div s * s in
    \<exists>r f'. xpi_erase R off n f = Some (r, f') \<and>
      (unat off + unat n < 2 ^ 32 \<longrightarrow>
        (if unat n = 0 \<or> length (flash_image R f) < unat off + unat n then r = - 1 \<and> f' = f
         else flash_inv R f' \<and> r \<in> {int (unat n), - 1} \<and> a + m \<le> length (flash_image R f) \<and>
           outside a m (flash_image R f) (flash_image R f') \<and>
           (r \<noteq> - 1 \<longrightarrow> seg (flash_image R f') a m = replicate m 0xff) \<and>
           (s dvd unat off \<longrightarrow> a = unat off \<and> unat n \<le> m)))"
proof -
  let ?s = "unat (sector_size R (chip f))"
  let ?a = "unat off div ?s * ?s" and ?m = "(unat n + ?s - 1) div ?s * ?s"
  have s0: "0 < ?s" using assms(1) onchip.capacity [of R f] by simp
  consider "2 ^ 32 \<le> unat off + unat n" | "unat off + unat n < 2 ^ 32" "unat n = 0 \<or> length (flash_image R f) < unat off + unat n"
    | "0 < unat n" "unat off + unat n \<le> length (flash_image R f)" by linarith
  then show ?thesis
  proof cases
    case 1
    then show ?thesis using erase_returns [OF assms, of off n] by (auto simp: Let_def)
  next
    case 2
    then show ?thesis using erase_refused [OF assms 2(2,1)] by (simp add: Let_def)
  next
    case 3
    obtain r f' where f': "xpi_erase R off n f = Some (r, f')" "flash_inv R f'" "r = int (unat n) \<or> r = - 1"
      "?a + ?m \<le> length (flash_image R f)" "outside ?a ?m (flash_image R f) (flash_image R f')"
      "r \<noteq> - 1 \<longrightarrow> flash_image R f' = nor_erase (flash_image R f) ?a ?m"
      using erase_in [OF assms 3(2,1)] by (auto simp: Let_def whole_sectors_def)
    have "seg (nor_erase (flash_image R f) ?a ?m) ?a ?m = replicate ?m 0xff"
      using seg_blit [of ?a "replicate ?m 0xff" "flash_image R f"] f'(4) by (simp add: nor_erase_def)
    then show ?thesis using f' 3 round_up(1) [OF s0, of "unat n"] by (auto simp: Let_def)
  qed
qed

theorem xpi_erase_returns_witness:
  "\<exists>f'. xpi_erase sim_rom 8 12 sim_flash = Some (12, f') \<and> seg (flash_image sim_rom f') 8 16 = replicate 16 0xff"
proof -
  obtain r f' where f': "xpi_erase sim_rom 8 12 sim_flash = Some (r, f')" "r \<noteq> - 1 \<longrightarrow> seg (flash_image sim_rom f') 8 16 = replicate 16 0xff"
    using xpi_erase_returns [OF sim_flash_inv(1), of 8 12] sim_flash_inv(2) by (auto simp: sim_rom_def sim_nor_def Let_def)
  have "xpi_erase sim_rom 8 12 sim_flash = Some (12, snd (the (xpi_erase sim_rom 8 12 sim_flash)))"
    by (simp add: xpi_erase_def out_of_range_def sim_flash_def xpi_init_def sim_rom_def sim_nor_def power_on_def erase_loop.simps Let_def)
  then show ?thesis using f' by auto
qed

text \<open>
  The first, partial page of a write is not checked: its result is compared with 0 as an unsigned
  number, so a write that ends in that page reports success whatever the flash answered.
\<close>

lemma first_page_error_ignored:
  assumes inv: "flash_inv R f" and range: "unat off + unat n \<le> length (flash_image R f)" and n: "0 < unat n" "unat n \<le> length buf"
    and page: "off mod page_size R (chip f) \<noteq> 0" "n \<le> page_size R (chip f) - off mod page_size R (chip f)"
  shows "xpi_write R off buf n f = Some (int (unat n), f\<lparr> chip := snd (rom_program R off (take (unat n) buf) (chip f)) \<rparr>)"
proof -
  note b = not_out_of_range [OF inv range]
  have p: "page_size R (chip f) \<le> 256" "0 < page_size R (chip f)" using inv by (auto simp: flash_inv_def geometry_ok_def)
  have "off mod page_size R (chip f) < page_size R (chip f)" using p(2) by (simp add: word_less_nat_alt unat_mod)
  then have "page_size R (chip f) - off mod page_size R (chip f) \<le> page_size R (chip f)" by (intro word_sub_le) simp
  then have "n \<le> 256" using page(2) p(1) by order
  moreover have "min (page_size R (chip f) - off mod page_size R (chip f)) n = n" using page(2) by (simp add: min_def)
  moreover have "n \<noteq> 0" using n by auto
  ultimately show ?thesis using b n(2) page(1)
    by (simp add: xpi_write_def write_unaligned_page_data_def write_loop.simps Let_def case_prod_beta)
qed

end
