(* ===== verification/Fal.thy ===== *)
theory Fal
  imports Xpi_Flash
begin

text \<open>
  The flash abstraction layer, packages/fal/src: fal.c, fal_flash.c and fal_partition.c, in the
  bootloader's configuration, where the partition table is compiled in (FAL_PART_HAS_TABLE_CFG),
  and the search for a table in flash, which the other configuration uses. A device is a record of
  its operations on the hardware state; a partition is its index in the partition table, as the code
  computes it from the pointer. \<open>None\<close> is a failed assertion, or an operation that does not return.
  Names are strings without their end mark, of at most 24 bytes.
\<close>

abbreviation (input) FAL_DEV_NAME_MAX :: nat where "FAL_DEV_NAME_MAX \<equiv> 24"
abbreviation (input) FAL_PART_MAGIC_WORD :: u32 where "FAL_PART_MAGIC_WORD \<equiv> 0x45503130"

record 'h fal_flash_dev =
  dev_name :: string
  dev_len :: "'h \<Rightarrow> u32"
  dev_init :: "('h \<Rightarrow> int \<times> 'h) option"
  dev_read :: "u32 \<Rightarrow> u32 \<Rightarrow> 'h \<Rightarrow> int \<times> u8 list option"
  dev_write :: "u32 \<Rightarrow> u8 list \<Rightarrow> u32 \<Rightarrow> 'h \<Rightarrow> (int \<times> 'h) option"
  dev_erase :: "u32 \<Rightarrow> u32 \<Rightarrow> 'h \<Rightarrow> (int \<times> 'h) option"

record fal_partition =
  magic_word :: u32
  part_name :: string
  flash_name :: string
  part_offset :: u32
  part_len :: u32

text \<open>The three flags \<open>init_ok\<close> of the three files, the table and the device cache, and the hardware.\<close>

record 'h fal =
  fal_ok :: bool
  flash_ok :: bool
  part_ok :: bool
  partition_table :: "fal_partition list"
  partition_table_len :: nat
  part_flash_cache :: "nat option list"
  hw :: 'h

subsection \<open>Devices\<close>

definition init_device :: "'h fal_flash_dev \<Rightarrow> 'h fal \<Rightarrow> 'h fal" where
  "init_device d st = (case dev_init d of None \<Rightarrow> st | Some ini \<Rightarrow> st\<lparr> hw := snd (ini (hw st)) \<rparr>)"

definition fal_flash_init :: "'h fal_flash_dev list \<Rightarrow> 'h fal \<Rightarrow> int \<times> 'h fal" where
  "fal_flash_init device_table st =
   (if flash_ok st then (0, st) else (0, (fold init_device device_table st)\<lparr> flash_ok := True \<rparr>))"

definition fal_flash_device_find :: "'h fal_flash_dev list \<Rightarrow> string \<Rightarrow> 'h fal \<Rightarrow> nat option option" where
  "fal_flash_device_find device_table name st =
   (if \<not> flash_ok st then None
    else Some (find_index (\<lambda>d. take FAL_DEV_NAME_MAX name = take FAL_DEV_NAME_MAX (dev_name d)) device_table))"

subsection \<open>Partitions\<close>

text \<open>The loop from entry \<open>i\<close> on; \<open>part_flash_cache\<close> has an element for each entry.\<close>

fun update_part_cache :: "'h fal_flash_dev list \<Rightarrow> nat \<Rightarrow> fal_partition list \<Rightarrow> 'h fal \<Rightarrow> (int \<times> 'h fal) option" where
  "update_part_cache device_table i [] st = Some (0, st)"
| "update_part_cache device_table i (p # ps) st =
   (case fal_flash_device_find device_table (flash_name p) st of
      None \<Rightarrow> None
    | Some None \<Rightarrow> update_part_cache device_table (Suc i) ps st
    | Some (Some d) \<Rightarrow>
        if sint (part_offset p) \<ge> sint (dev_len (device_table ! d) (hw st))
        then Some (- 1, st\<lparr> partition_table_len := 0 \<rparr>)
        else update_part_cache device_table (Suc i) ps (st\<lparr> part_flash_cache := (part_flash_cache st)[i := Some d] \<rparr>))"

definition check_and_update_part_cache ::
  "'h fal_flash_dev list \<Rightarrow> fal_partition list \<Rightarrow> 'h fal \<Rightarrow> (int \<times> 'h fal) option" where
  "check_and_update_part_cache device_table table st = update_part_cache device_table 0 table st"

definition fal_partition_init ::
  "'h fal_flash_dev list \<Rightarrow> fal_partition list \<Rightarrow> 'h fal \<Rightarrow> (int \<times> 'h fal) option" where
  "fal_partition_init device_table partition_table_def st =
   (if part_ok st then Some (int (partition_table_len st), st)
    else
      let st = st\<lparr> partition_table := partition_table_def, partition_table_len := length partition_table_def \<rparr> in
      case check_and_update_part_cache device_table (partition_table st) st of
        None \<Rightarrow> None
      | Some (r, st) \<Rightarrow>
          let st = (if r \<noteq> 0 then st else st\<lparr> part_ok := True \<rparr>)
          in Some (int (partition_table_len st), st))"

definition fal_init :: "'h fal_flash_dev list \<Rightarrow> fal_partition list \<Rightarrow> 'h fal \<Rightarrow> (int \<times> 'h fal) option" where
  "fal_init device_table partition_table_def st =
   (case fal_flash_init device_table st of
      (result, st) \<Rightarrow>
        case (if result < 0 then Some (result, st) else fal_partition_init device_table partition_table_def st) of
          None \<Rightarrow> None
        | Some (result, st) \<Rightarrow>
            Some (result, if result > 0 \<and> \<not> fal_ok st then st\<lparr> fal_ok := True \<rparr>
                          else if result \<le> 0 then st\<lparr> fal_ok := False \<rparr> else st))"

definition fal_init_check :: "'h fal \<Rightarrow> int" where
  "fal_init_check st = (if fal_ok st then 1 else 0)"

definition fal_partition_find :: "string \<Rightarrow> 'h fal \<Rightarrow> nat option option" where
  "fal_partition_find name st =
   (if \<not> part_ok st then None
    else Some (find_index (\<lambda>p. name = part_name p) (take (partition_table_len st) (partition_table st))))"

definition flash_device_find_by_part :: "nat \<Rightarrow> 'h fal \<Rightarrow> nat option option" where
  "flash_device_find_by_part part st =
   (if part < partition_table_len st then Some (part_flash_cache st ! part) else None)"

definition fal_get_partition_table :: "'h fal \<Rightarrow> (fal_partition list \<times> nat) option" where
  "fal_get_partition_table st = (if part_ok st then Some (partition_table st, partition_table_len st) else None)"

definition fal_set_partition_table_temp :: "'h fal_flash_dev list \<Rightarrow> fal_partition list \<Rightarrow> 'h fal \<Rightarrow> 'h fal option" where
  "fal_set_partition_table_temp device_table table st =
   (if \<not> part_ok st then None
    else map_option (\<lambda>(r, st). st\<lparr> partition_table_len := length table, partition_table := table \<rparr>)
           (check_and_update_part_cache device_table table st))"

text \<open>The check of \<open>addr + size\<close> in 32-bit arithmetic and the search for the device, common to the operations.\<close>

definition part_device :: "'h fal_flash_dev list \<Rightarrow> nat \<Rightarrow> u32 \<Rightarrow> u32 \<Rightarrow> 'h fal \<Rightarrow> 'h fal_flash_dev option option" where
  "part_device device_table part addr len st =
   (if addr + len > part_len (partition_table st ! part) then Some None
    else case flash_device_find_by_part part st of
      None \<Rightarrow> None
    | Some None \<Rightarrow> Some None
    | Some (Some d) \<Rightarrow> Some (Some (device_table ! d)))"

definition fal_partition_read ::
  "'h fal_flash_dev list \<Rightarrow> nat \<Rightarrow> u32 \<Rightarrow> u32 \<Rightarrow> 'h fal \<Rightarrow> (int \<times> u8 list option) option" where
  "fal_partition_read device_table part addr len st =
   (case part_device device_table part addr len st of
      None \<Rightarrow> None
    | Some None \<Rightarrow> Some (- 1, None)
    | Some (Some d) \<Rightarrow> Some (dev_read d (part_offset (partition_table st ! part) + addr) len (hw st)))"

definition fal_partition_write ::
  "'h fal_flash_dev list \<Rightarrow> nat \<Rightarrow> u32 \<Rightarrow> u8 list \<Rightarrow> u32 \<Rightarrow> 'h fal \<Rightarrow> (int \<times> 'h fal) option" where
  "fal_partition_write device_table part addr buf len st =
   (case part_device device_table part addr len st of
      None \<Rightarrow> None
    | Some None \<Rightarrow> Some (- 1, st)
    | Some (Some d) \<Rightarrow> map_option (\<lambda>(ret, h). (ret, st\<lparr> hw := h \<rparr>))
        (dev_write d (part_offset (partition_table st ! part) + addr) buf len (hw st)))"

definition fal_partition_erase :: "'h fal_flash_dev list \<Rightarrow> nat \<Rightarrow> u32 \<Rightarrow> u32 \<Rightarrow> 'h fal \<Rightarrow> (int \<times> 'h fal) option" where
  "fal_partition_erase device_table part addr len st =
   (case part_device device_table part addr len st of
      None \<Rightarrow> None
    | Some None \<Rightarrow> Some (- 1, st)
    | Some (Some d) \<Rightarrow> map_option (\<lambda>(ret, h). (ret, st\<lparr> hw := h \<rparr>))
        (dev_erase d (part_offset (partition_table st ! part) + addr) len (hw st)))"

definition fal_partition_erase_all :: "'h fal_flash_dev list \<Rightarrow> nat \<Rightarrow> 'h fal \<Rightarrow> (int \<times> 'h fal) option" where
  "fal_partition_erase_all device_table part st =
   fal_partition_erase device_table part 0 (part_len (partition_table st ! part)) st"

subsection \<open>Finding the table in flash\<close>

text \<open>
  Without a compiled-in table, as in the application (rt-thread/components/fal, the same code with
  FAL_PART_TABLE_END_OFFSET 65536), the table is searched backwards from its configured end in windows
  of 64 bytes, which is also the size of an entry, that overlap by 3; then it is read entry by entry
  downwards. \<open>rd\<close> is the device's read at an offset and length.
\<close>

abbreviation (input) FAL_PART_TABLE_END_OFFSET :: int where "FAL_PART_TABLE_END_OFFSET \<equiv> 65536"
abbreviation (input) SIZEOF_PARTITION :: nat where "SIZEOF_PARTITION \<equiv> 64"

definition magic_at :: "u8 list \<Rightarrow> nat \<Rightarrow> bool" where
  "magic_at buf i \<longleftrightarrow> le32_at buf i = FAL_PART_MAGIC_WORD"

function find_table :: "(int \<Rightarrow> nat \<Rightarrow> int \<times> u8 list option) \<Rightarrow> int \<Rightarrow> int option" where
  "find_table rd offset =
   (if offset < 0 then None
    else case rd offset 64 of
      (r, buf) \<Rightarrow>
        if r > 0
        then (case find_index (magic_at (the buf)) [0..<61] of
                Some i \<Rightarrow> Some (offset + int i)
              | None \<Rightarrow>
                  if offset \<ge> 64 then find_table rd (offset - 64 + 3)
                  else if offset \<noteq> 0 then find_table rd 0
                  else None)
        else None)"
  by auto
termination by (relation "measure (\<lambda>(rd, offset). nat offset)") auto

declare find_table.simps [simp del]

text \<open>The layout of an entry.\<close>

definition cstr :: "u8 list \<Rightarrow> string" where
  "cstr bs = map (\<lambda>b. char_of (unat b)) (takeWhile (\<lambda>b. b \<noteq> 0) bs)"

definition parse_partition :: "u8 list \<Rightarrow> fal_partition" where
  "parse_partition b = \<lparr> magic_word = le32_at b 0, part_name = cstr (seg b 4 24), flash_name = cstr (seg b 28 24),
     part_offset = le32_at b 52, part_len = le32_at b 56 \<rparr>"

text \<open>
  The entries from number \<open>length table\<close> on; \<open>mem n\<close> says whether the table can grow to \<open>n\<close> entries. An
  empty list is a failure. The loop ends at the latest at a negative offset, which the device refuses.
\<close>

partial_function (option) load_table ::
  "(int \<Rightarrow> nat \<Rightarrow> int \<times> u8 list option) \<Rightarrow> (nat \<Rightarrow> bool) \<Rightarrow> int \<Rightarrow> fal_partition list \<Rightarrow> fal_partition list option" where
  "load_table rd mem offset table =
   (let res = rd (offset - int (SIZEOF_PARTITION * length table)) SIZEOF_PARTITION;
        new_part = parse_partition (the (snd res))
    in if fst res < 0 then Some []
       else if magic_word new_part \<noteq> FAL_PART_MAGIC_WORD then Some table
       else if \<not> mem (length table + 1) then Some []
       else load_table rd mem offset (table @ [new_part]))"

definition fal_partition_init_search ::
  "'h fal_flash_dev list \<Rightarrow> bool \<Rightarrow> (nat \<Rightarrow> bool) \<Rightarrow> (nat \<Rightarrow> nat option list option) \<Rightarrow> 'h fal \<Rightarrow> (int \<times> 'h fal) option" where
  "fal_partition_init_search device_table new_part_ok mem cache st =
   (if part_ok st then Some (int (partition_table_len st), st)
    else
      let failed = (\<lambda>st. Some (int (partition_table_len st), st)) in
      case fal_flash_device_find device_table ''onchip'' st of
        None \<Rightarrow> None
      | Some None \<Rightarrow> failed st
      | Some (Some d) \<Rightarrow>
          let dev = device_table ! d;
              rd = (\<lambda>off n. dev_read dev (of_int off) (of_nat n) (hw st))
          in if FAL_PART_TABLE_END_OFFSET \<ge> sint (dev_len dev (hw st)) then failed st
             else if \<not> new_part_ok then failed st
             else
               case (case find_table rd (FAL_PART_TABLE_END_OFFSET - 64) of
                       None \<Rightarrow> Some []
                     | Some offset \<Rightarrow> load_table rd mem offset []) of
                 None \<Rightarrow> None
               | Some table \<Rightarrow>
                   let st = st\<lparr> partition_table := table \<rparr> in
                   if table = [] then failed st
                   else
                     let st = st\<lparr> partition_table_len := length table \<rparr> in
                     (case cache (length table) of
                        None \<Rightarrow> failed st
                      | Some c \<Rightarrow>
                          (case check_and_update_part_cache device_table table (st\<lparr> part_flash_cache := c \<rparr>) of
                             None \<Rightarrow> None
                           | Some (r, st) \<Rightarrow> failed (if r \<noteq> 0 then st else st\<lparr> part_ok := True \<rparr>))))"

text \<open>The partition table of part_table/part_table.h, and the bootloader's flash device.\<close>

definition part_entry :: "string \<Rightarrow> string \<Rightarrow> u32 \<Rightarrow> u32 \<Rightarrow> fal_partition" where
  "part_entry n d off len = \<lparr> magic_word = FAL_PART_MAGIC_WORD, part_name = n, flash_name = d, part_offset = off, part_len = len \<rparr>"

definition FAL_PART_TABLE :: "fal_partition list" where
  "FAL_PART_TABLE = [
     part_entry ''bl'' ''onchip'' 0 (128*1024),
     part_entry ''app'' ''onchip'' (128*1024) (3456*1024),
     part_entry ''flashdb'' ''onchip'' (3584*1024) (32*1024),
     part_entry ''resv'' ''onchip'' (3616*1024) (480*1024),
     part_entry ''app_s2'' ''norflash0'' 0 (4096*1024),
     part_entry ''resv_2'' ''norflash0'' (4096*1024) (4096*1024),
     part_entry ''fs'' ''norflash0'' (8192*1024) (8192*1024)]"

definition onchip_dev :: "'s nor_rom \<Rightarrow> 's onchip_flash fal_flash_dev" where
  "onchip_dev R = \<lparr> dev_name = ''onchip'', dev_len = flash_len, dev_init = Some (xpi_init R),
     dev_read = xpi_read R, dev_write = xpi_write R, dev_erase = xpi_erase R \<rparr>"

subsection \<open>The search\<close>

lemma seg_magic: "i + 64 \<le> length img \<Longrightarrow> k < 61 \<Longrightarrow> magic_at (seg img i 64) k = magic_at img (i + k)"
  by (simp add: magic_at_def le32_at_def seg_def add.assoc)

lemma find_table_correct:
  assumes "\<And>p. p \<le> m \<Longrightarrow> rd (int p) 64 = (64, Some (seg img p 64))" and "m + 64 \<le> length img" "m mod 61 \<notin> {1, 2}"
  shows "case find_table rd (int m) of
      None \<Rightarrow> \<forall>i\<le>m + 60. \<not> magic_at img i
    | Some p \<Rightarrow> 0 \<le> p \<and> nat p \<le> m + 60 \<and> magic_at img (nat p)"
  using assms
proof (induction m rule: less_induct)
  case (less m)
  let ?w = "seg img m 64"
  have rd: "rd (int m) 64 = (64, Some ?w)" using less.prems(1) [of m] by simp
  show ?case
  proof (cases "find_index (magic_at ?w) [0..<61]")
    case (Some i)
    then have i: "i < 61" "magic_at ?w i" using find_index_nth [OF Some] by auto
    then have "magic_at img (m + i)" using seg_magic [of m img i] less.prems(2) by simp
    then show ?thesis using Some rd i(1) by (simp add: find_table.simps [of rd "int m"] nat_add_distrib)
  next
    case None
    have w: "\<not> magic_at img j" if "m \<le> j" "j \<le> m + 60" for j
    proof -
      have "\<not> magic_at ?w (j - m)" using None that unfolding find_index_None by auto
      then show ?thesis using seg_magic [of m img "j - m"] less.prems(2) that by simp
    qed
    have cover: "\<forall>i\<le>m + 60. \<not> magic_at img i" if "\<forall>i\<le>a. \<not> magic_at img i" "b \<le> a + 1" "b = m" for a b
      using that w by (metis Suc_eq_plus1 le_trans not_less_eq_eq)
    consider (far) "64 \<le> m" | (near) "m < 64" "m \<noteq> 0" | (last) "m = 0" by linarith
    then show ?thesis
    proof cases
      case far
      have "find_table rd (int m) = find_table rd (int (m - 61))"
        using rd None far by (simp add: find_table.simps [of rd "int m"] of_nat_diff)
      moreover have "(m - 61) mod 61 = m mod 61" using far by (simp add: le_mod_geq)
      moreover have "case find_table rd (int (m - 61)) of None \<Rightarrow> \<forall>i\<le>m - 61 + 60. \<not> magic_at img i
          | Some p \<Rightarrow> 0 \<le> p \<and> nat p \<le> m - 61 + 60 \<and> magic_at img (nat p)"
        using less.IH [of "m - 61"] less.prems far calculation(2) by simp
      ultimately show ?thesis using w far
        cover [of "m - 61 + 60" m] by (cases "find_table rd (int (m - 61))") auto
    next
      case near
      have "m \<le> 61" using near less.prems(3) by (cases "m = 62 \<or> m = 63") auto
      moreover have "find_table rd (int m) = find_table rd (int 0)"
        using rd None near by (simp add: find_table.simps [of rd "int m"])
      moreover have "case find_table rd (int 0) of None \<Rightarrow> \<forall>i\<le>0 + 60. \<not> magic_at img i
          | Some p \<Rightarrow> 0 \<le> p \<and> nat p \<le> 0 + 60 \<and> magic_at img (nat p)"
        using less.IH [of 0] less.prems(1) [of 0] less.prems(2) near by simp
      ultimately show ?thesis using w near cover [of 60 m] by (cases "find_table rd (int 0)") auto
    next
      case last
      then show ?thesis using rd None w by (simp add: find_table.simps [of rd 0])
    qed
  qed
qed

subsection \<open>Partitions on a device\<close>

text \<open>Partition \<open>p\<close> is on device \<open>d\<close> of the table, and inside the device's \<open>cap\<close> bytes.\<close>

definition part_on :: "'h fal_flash_dev list \<Rightarrow> 'h fal \<Rightarrow> nat \<Rightarrow> 'h fal_flash_dev \<Rightarrow> nat \<Rightarrow> bool" where
  "part_on tbl st p d cap \<longleftrightarrow> part_ok st \<and> p < partition_table_len st \<and> (\<exists>k. part_flash_cache st ! p = Some k \<and> tbl ! k = d) \<and>
     unat (part_offset (partition_table st ! p)) + unat (part_len (partition_table st ! p)) \<le> cap \<and> cap < 2 ^ 31"

lemma part_on_hw [simp]: "part_on tbl (st\<lparr> hw := h \<rparr>) p d cap = part_on tbl st p d cap"
  by (simp add: part_on_def)

lemma find_hw [simp]: "fal_partition_find name (st\<lparr> hw := h \<rparr>) = fal_partition_find name st"
  by (simp add: fal_partition_find_def)

lemma part_device_in:
  assumes "part_on tbl st p d cap" "unat addr + unat n \<le> unat (part_len (partition_table st ! p))"
  shows "part_device tbl p addr n st = Some (Some d)"
    and "unat (part_offset (partition_table st ! p) + addr) = unat (part_offset (partition_table st ! p)) + unat addr"
proof -
  have b: "unat (part_offset (partition_table st ! p)) + unat addr + unat n < 2 ^ 31" using assms by (auto simp: part_on_def)
  have "unat (addr + n) = unat addr + unat n" by (rule unat_plus_no_wrap) (use b in simp)
  then have "\<not> addr + n > part_len (partition_table st ! p)" using assms(2) by (simp add: word_less_nat_alt)
  then show "part_device tbl p addr n st = Some (Some d)"
    using assms(1) by (auto simp: part_device_def part_on_def flash_device_find_by_part_def)
  show "unat (part_offset (partition_table st ! p) + addr) = unat (part_offset (partition_table st ! p)) + unat addr"
    by (rule unat_plus_no_wrap) (use b in simp)
qed

lemma part_device_out:
  assumes "unat (part_len (partition_table st ! p)) < unat addr + unat n" "unat addr + unat n < 2 ^ 32"
  shows "part_device tbl p addr n st = Some None"
  using assms unat_plus_no_wrap [OF assms(2)] by (simp add: part_device_def word_less_nat_alt)

context flash_device
begin

text \<open>What the client of a partition sees: erase and write of an aligned range store the data, inside the partition.\<close>

lemma partition_store:
  assumes on: "part_on tbl st p d (length (content (hw st)))" and inv: "inv (hw st)"
    and d: "dev_read d = rd" "dev_write d = wr" "dev_erase d = er"
    and range: "unat addr + unat n \<le> unat (part_len (partition_table st ! p))" and n: "0 < unat n" "unat n \<le> length buf"
    and al: "eunit (hw st) dvd unat (part_offset (partition_table st ! p)) + unat addr"
      "wunit (hw st) dvd unat (part_offset (partition_table st ! p)) + unat addr"
  shows "\<exists>r1 st1. fal_partition_erase tbl p addr n st = Some (r1, st1) \<and> r1 \<in> {int (unat n), - 1} \<and>
    (\<exists>h. st1 = st\<lparr> hw := h \<rparr> \<and> inv h \<and> outside (unat (part_offset (partition_table st ! p)) + unat addr)
      ((unat n + eunit (hw st) - 1) div eunit (hw st) * eunit (hw st)) (content (hw st)) (content h)) \<and>
    (r1 \<noteq> - 1 \<longrightarrow> (\<exists>r2 st2. fal_partition_write tbl p addr buf n st1 = Some (r2, st2) \<and> r2 \<in> {int (unat n), - 1} \<and>
      (\<exists>h. st2 = st\<lparr> hw := h \<rparr> \<and> inv h \<and> outside (unat (part_offset (partition_table st ! p)) + unat addr)
        ((unat n + eunit (hw st) - 1) div eunit (hw st) * eunit (hw st)) (content (hw st)) (content h)) \<and>
      (r2 \<noteq> - 1 \<longrightarrow> fal_partition_read tbl p addr n st2 = Some (int (unat n), Some (take (unat n) buf)))))"
proof -
  let ?o = "part_offset (partition_table st ! p) + addr" and ?m = "(unat n + eunit (hw st) - 1) div eunit (hw st) * eunit (hw st)"
  note D = part_device_in [OF on range]
  have o: "unat ?o = unat (part_offset (partition_table st ! p)) + unat addr" by (rule D(2))
  have rg: "unat ?o + unat n \<le> length (content (hw st))" unfolding o using on range by (simp add: part_on_def)
  obtain r1 f1 where f1: "er ?o n (hw st) = Some (r1, f1)" "inv f1" "r1 = int (unat n) \<or> r1 = - 1"
    "outside (unat ?o) ?m (content (hw st)) (content f1)"
    "r1 \<noteq> - 1 \<longrightarrow> (\<exists>r2 f2. wr ?o buf n f1 = Some (r2, f2) \<and> inv f2 \<and> (r2 = int (unat n) \<or> r2 = - 1) \<and>
       outside (unat ?o) ?m (content (hw st)) (content f2) \<and> (r2 \<noteq> - 1 \<longrightarrow> rd ?o n f2 = (int (unat n), Some (take (unat n) buf))))"
    using erase_write [OF inv al [folded o] rg n] by blast
  have e: "fal_partition_erase tbl p addr n st = Some (r1, st\<lparr> hw := f1 \<rparr>)"
    using D(1) d(3) f1(1) by (simp add: fal_partition_erase_def)
  have D': "part_device tbl p addr n (st\<lparr> hw := h \<rparr>) = Some (Some d)" for h
    using part_device_in(1) [of tbl "st\<lparr> hw := h \<rparr>" p d "length (content (hw st))" addr n] on range by simp
  show ?thesis
  proof (cases "r1 = - 1")
    case True
    then show ?thesis using e f1(2,4) o by auto
  next
    case False
    then obtain r2 f2 where f2: "wr ?o buf n f1 = Some (r2, f2)" "inv f2" "r2 = int (unat n) \<or> r2 = - 1"
      "outside (unat ?o) ?m (content (hw st)) (content f2)" "r2 \<noteq> - 1 \<longrightarrow> rd ?o n f2 = (int (unat n), Some (take (unat n) buf))"
      using f1(5) by blast
    have "fal_partition_write tbl p addr buf n (st\<lparr> hw := f1 \<rparr>) = Some (r2, st\<lparr> hw := f2 \<rparr>)"
      using D' d(2) f2(1) by (simp add: fal_partition_write_def)
    moreover have "r2 \<noteq> - 1 \<longrightarrow> fal_partition_read tbl p addr n (st\<lparr> hw := f2 \<rparr>) = Some (int (unat n), Some (take (unat n) buf))"
      using D' d(1) f2(5) by (simp add: fal_partition_read_def)
    ultimately show ?thesis using e f1(2-4) f2(2-4) o False by auto
  qed
qed

end

lemma partition_refused:
  assumes "unat (part_len (partition_table st ! p)) < unat addr + unat n" "unat addr + unat n < 2 ^ 32"
  shows "fal_partition_read tbl p addr n st = Some (- 1, None)" "fal_partition_write tbl p addr buf n st = Some (- 1, st)"
    "fal_partition_erase tbl p addr n st = Some (- 1, st)"
  using part_device_out [OF assms, of tbl]
  by (simp_all add: fal_partition_read_def fal_partition_write_def fal_partition_erase_def)

subsection \<open>The bootloader's partitions\<close>

text \<open>The state after \<open>fal_init\<close> on a flash of 4 MiB: the four partitions on the chip are usable, in order and disjoint.\<close>

definition fal_zero :: "'h \<Rightarrow> 'h fal" where
  "fal_zero h = \<lparr> fal_ok = False, flash_ok = False, part_ok = False, partition_table = [], partition_table_len = 0,
     part_flash_cache = replicate (length FAL_PART_TABLE) None, hw = h \<rparr>"

lemma boot_fal_init:
  assumes "xpi_init R f = (0, f')" "geometry_ok R (chip f')" "rom_ok R" "total_size R (chip f') = 4096*1024"
  shows "\<exists>st. fal_init [onchip_dev R] FAL_PART_TABLE (fal_zero f) = Some (7, st) \<and> fal_ok st \<and> hw st = f' \<and> flash_inv R f' \<and>
    partition_table st = FAL_PART_TABLE \<and> length (flash_image R f') = 4194304 \<and>
    fal_partition_find ''app'' st = Some (Some 1) \<and> (\<forall>p<4. part_on [onchip_dev R] st p (onchip_dev R) 4194304)"
proof -
  have inv: "flash_inv R f'" by (rule flash_inv_init [OF assms(1-3)])
  have len: "flash_len f' = 4194304" using inv assms(4) by (simp add: flash_inv_def)
  have lt: "(\<forall>p<4. P p) \<longleftrightarrow> P 0 \<and> P 1 \<and> P 2 \<and> P (3 :: nat)" for P
    by (simp add: numeral_eq_Suc All_less_Suc2)
  show ?thesis using inv assms(1,4) len
    by (simp add: fal_init_def fal_flash_init_def fal_zero_def init_device_def onchip_dev_def fal_partition_init_def
        check_and_update_part_cache_def fal_flash_device_find_def FAL_PART_TABLE_def part_entry_def fal_partition_find_def
        part_on_def lt flash_image_def)
qed

subsection \<open>Properties\<close>

text \<open>
  The search for the partition table finds one if there is one: from the configured end offset
  65536, if a partition magic word lies anywhere below it, the search returns the offset of a magic
  word; it fails only if there is none. The overlapping windows leave no gap for this end offset.
\<close>

lemma table_search_complete:
  assumes "\<And>p. p \<le> 65472 \<Longrightarrow> rd (int p) 64 = (64, Some (seg img p 64))" and "65536 \<le> length img"
  shows "case find_table rd (FAL_PART_TABLE_END_OFFSET - 64) of
      None \<Rightarrow> \<forall>i\<le>65532. \<not> magic_at img i
    | Some p \<Rightarrow> 0 \<le> p \<and> p \<le> 65532 \<and> magic_at img (nat p)"
proof -
  have "case find_table rd (int 65472) of None \<Rightarrow> \<forall>i\<le>65472 + 60. \<not> magic_at img i
      | Some p \<Rightarrow> 0 \<le> p \<and> nat p \<le> 65472 + 60 \<and> magic_at img (nat p)"
    by (rule find_table_correct) (use assms in auto)
  then show ?thesis by (cases "find_table rd 65472") (auto simp: nat_le_iff)
qed

lemma table_search_complete_example:
  "\<exists>p. find_table (\<lambda>p n. (64, Some (seg (replicate 60000 0 @ le32 FAL_PART_MAGIC_WORD @ replicate 5532 0) (nat p) n))) 65472 = Some p"
proof -
  let ?img = "replicate 60000 0 @ le32 FAL_PART_MAGIC_WORD @ replicate 5532 0 :: u8 list"
  have "magic_at ?img 60000" unfolding magic_at_def
    by (rule le32_roundtrip) (simp_all add: seg_def)
  moreover have "case find_table (\<lambda>p n. (64, Some (seg ?img (nat p) n))) (65536 - 64) of
      None \<Rightarrow> \<forall>i\<le>65532. \<not> magic_at ?img i | Some p \<Rightarrow> 0 \<le> p \<and> p \<le> 65532 \<and> magic_at ?img (nat p)"
    by (rule table_search_complete) simp_all
  ultimately show ?thesis
    by (cases "find_table (\<lambda>p n. (64, Some (seg ?img (nat p) n))) 65472") auto
qed

end
