(* ===== verification/Boot_Uf2.thy ===== *)
theory Boot_Uf2
  imports Fal
begin

text \<open>
  The UF2 disk of the bootloader, bootloader/bootuf2/bootuf2.c: a FAT16 volume that exists only as the
  answers to sector reads, and the sectors written to it, which are UF2 blocks collected in a cache
  and written to flash; and \<open>bootuf2_flash_write\<close> of bootloader/msc_bootuf2.c, which stores them. The flash
  write is a parameter \<open>fw\<close> of the disk. \<open>None\<close> is an access outside an array (or a flash operation that does not
  return). The constants are those of bootuf2_config.h; the times of the directory entries come from the
  compiler's \<open>__DATE__\<close> and \<open>__TIME__\<close> and are the record \<open>build_time\<close>.
\<close>

abbreviation (input) CONFIG_BOOTUF2_FLASHMAX :: u32 where "CONFIG_BOOTUF2_FLASHMAX \<equiv> 0x360000"
abbreviation (input) CONFIG_BOOTUF2_FAMILYID :: u32 where "CONFIG_BOOTUF2_FAMILYID \<equiv> 0x0A4D5048"
abbreviation (input) CONFIG_BOOTUF2_CACHE_SIZE :: nat where "CONFIG_BOOTUF2_CACHE_SIZE \<equiv> 4096"
abbreviation (input) BOOTUF2_BLOCKSMAX :: u32 where "BOOTUF2_BLOCKSMAX \<equiv> 13824"
abbreviation (input) MASK_SIZE :: nat where "MASK_SIZE \<equiv> 1729"
abbreviation (input) BOOTUF2_MAGIC_START0 :: u32 where "BOOTUF2_MAGIC_START0 \<equiv> 0x0A324655"
abbreviation (input) BOOTUF2_MAGIC_START1 :: u32 where "BOOTUF2_MAGIC_START1 \<equiv> 0x9E5D5157"
abbreviation (input) BOOTUF2_MAGIC_END :: u32 where "BOOTUF2_MAGIC_END \<equiv> 0x0AB16F30"
abbreviation (input) BOOTUF2_FLAG_NOT_MAIN_FLASH :: u32 where "BOOTUF2_FLAG_NOT_MAIN_FLASH \<equiv> 1"
abbreviation (input) BOOTUF2_FLAG_FAMILID_PRESENT :: u32 where "BOOTUF2_FLAG_FAMILID_PRESENT \<equiv> 0x2000"

text \<open>The geometry of the volume, as the macros compute it.\<close>

abbreviation (input) BYTES_PER_SECTOR :: nat where "BYTES_PER_SECTOR \<equiv> 512"
abbreviation (input) SECTORS_PER_CLUSTER :: nat where "SECTORS_PER_CLUSTER \<equiv> 2"
abbreviation (input) SECTORS_PER_FAT :: nat where "SECTORS_PER_FAT \<equiv> 256"
abbreviation (input) SECTOR_RSVD_END :: nat where "SECTOR_RSVD_END \<equiv> 1"
abbreviation (input) SECTOR_FAT_END :: nat where "SECTOR_FAT_END \<equiv> 513"
abbreviation (input) SECTOR_ROOT_END :: nat where "SECTOR_ROOT_END \<equiv> 517"
abbreviation (input) SECTOR_DATA_END :: nat where "SECTOR_DATA_END \<equiv> 131553"
abbreviation (input) FAT16_PER_SECTOR :: nat where "FAT16_PER_SECTOR \<equiv> 256"
abbreviation (input) ENTRY_PER_SECTOR :: nat where "ENTRY_PER_SECTOR \<equiv> 16"

record bootuf2_BLOCK =
  MagicStart0 :: u32
  MagicStart1 :: u32
  Flags :: u32
  TargetAddress :: u32
  PayloadSize :: u32
  BlockIndex :: u32
  NumberOfBlock :: u32
  FamilyID :: u32
  Data :: "u8 list"
  MagicEnd :: u32

definition parse_block :: "u8 list \<Rightarrow> bootuf2_BLOCK" where
  "parse_block b = \<lparr> MagicStart0 = le32_at b 0, MagicStart1 = le32_at b 4, Flags = le32_at b 8, TargetAddress = le32_at b 12,
     PayloadSize = le32_at b 16, BlockIndex = le32_at b 20, NumberOfBlock = le32_at b 24, FamilyID = le32_at b 28,
     Data = seg b 32 476, MagicEnd = le32_at b 508 \<rparr>"

record bootuf2_STATE =
  st_blocks :: u32
  st_written :: u32
  st_mask :: "u8 list"

record bootuf2_FILE =
  Name :: string
  Content :: "u8 list option"
  FileSize :: u32
  ClusterBeg :: u16
  ClusterEnd :: u16

record bootuf2_data =
  STATE :: bootuf2_STATE
  cache :: "u8 list"
  cached_address :: u32
  cached_bytes :: u32
  files :: "bootuf2_FILE list"

subsection \<open>Blocks written\<close>

definition bootuf2block_check_writable :: "bootuf2_STATE \<Rightarrow> bootuf2_BLOCK \<Rightarrow> u32 \<Rightarrow> bool option" where
  "bootuf2block_check_writable S uf2 block_max =
   (if NumberOfBlock uf2 \<noteq> 0 \<and> BlockIndex uf2 < block_max
    then let mask = push_bit (unat (BlockIndex uf2 mod 8)) 1;
             pos = unat (BlockIndex uf2 div 8)
         in if pos \<ge> length (st_mask S) then None
            else Some (st_mask S ! pos AND mask = 0)
    else Some False)"

definition bootuf2block_state_update :: "bootuf2_STATE \<Rightarrow> bootuf2_BLOCK \<Rightarrow> u32 \<Rightarrow> bootuf2_STATE option" where
  "bootuf2block_state_update S uf2 block_max =
   (if NumberOfBlock uf2 = 0 then Some S
    else
      let S = (if st_blocks S \<noteq> NumberOfBlock uf2
               then if NumberOfBlock uf2 \<ge> BOOTUF2_BLOCKSMAX \<or> st_blocks S \<noteq> 0
                    then S\<lparr> st_blocks := 0xffffffff \<rparr> else S\<lparr> st_blocks := NumberOfBlock uf2 \<rparr>
               else S)
      in if BlockIndex uf2 < block_max
         then let mask = push_bit (unat (BlockIndex uf2 mod 8)) 1;
                  pos = unat (BlockIndex uf2 div 8)
              in if pos \<ge> length (st_mask S) then None
                 else if st_mask S ! pos AND mask = 0
                      then Some (S\<lparr> st_mask := (st_mask S)[pos := st_mask S ! pos OR mask], st_written := st_written S + 1 \<rparr>)
                      else Some S
         else Some S)"

definition bootuf2block_state_check :: "bootuf2_STATE \<Rightarrow> bool" where
  "bootuf2block_state_check S \<longleftrightarrow> st_written S \<ge> st_blocks S \<and> st_blocks S \<noteq> 0"

subsection \<open>The cache\<close>

type_synonym 'h flash_writer = "u32 \<Rightarrow> u8 list \<Rightarrow> u32 \<Rightarrow> 'h \<Rightarrow> (int \<times> 'h) option"

definition bootuf2_flash_flush :: "'h flash_writer \<Rightarrow> bootuf2_data \<times> 'h \<Rightarrow> (int \<times> bootuf2_data \<times> 'h) option" where
  "bootuf2_flash_flush fw ch =
   (case ch of (ctx, h) \<Rightarrow>
      if cached_bytes ctx = 0 then Some (0, ctx, h)
      else case fw (cached_address ctx) (cache ctx) (cached_bytes ctx) h of
        None \<Rightarrow> None
      | Some (err, h) \<Rightarrow> if err \<noteq> 0 then Some (- 1, ctx, h) else Some (0, ctx\<lparr> cached_bytes := 0 \<rparr>, h))"

text \<open>The part after the flush: copying \<open>PayloadSize\<close> bytes of the 476 of \<open>Data\<close> behind the cached ones.\<close>

definition cache_block :: "bootuf2_BLOCK \<Rightarrow> bootuf2_data \<Rightarrow> bootuf2_data option" where
  "cache_block uf2 ctx =
   (if unat (PayloadSize uf2) > 476 \<or> unat (cached_bytes ctx) + unat (PayloadSize uf2) > length (cache ctx) then None
    else Some (ctx\<lparr> cache := blit (cache ctx) (unat (cached_bytes ctx)) (take (unat (PayloadSize uf2)) (Data uf2)),
                    cached_address := TargetAddress uf2 - cached_bytes ctx,
                    cached_bytes := cached_bytes ctx + PayloadSize uf2 \<rparr>))"

definition bootuf2_flash_write_internal ::
  "'h flash_writer \<Rightarrow> bootuf2_BLOCK \<Rightarrow> bootuf2_data \<times> 'h \<Rightarrow> (int \<times> bootuf2_data \<times> 'h) option" where
  "bootuf2_flash_write_internal fw uf2 ch =
   (let ctx = fst ch;
        flush = (cached_bytes ctx \<noteq> 0 \<and> cached_address ctx + cached_bytes ctx \<noteq> TargetAddress uf2) \<or>
                cached_bytes ctx = of_nat CONFIG_BOOTUF2_CACHE_SIZE
    in case (if flush then bootuf2_flash_flush fw ch else Some (0, ch)) of
         None \<Rightarrow> None
       | Some (err, ctx, h) \<Rightarrow>
           if err \<noteq> 0 then Some (err, ctx, h)
           else map_option (\<lambda>ctx. (0, ctx, h)) (cache_block uf2 ctx))"

subsection \<open>Sectors written\<close>

definition block_accepted :: "bootuf2_BLOCK \<Rightarrow> bool" where
  "block_accepted uf2 \<longleftrightarrow> MagicStart0 uf2 = BOOTUF2_MAGIC_START0 \<and> MagicStart1 uf2 = BOOTUF2_MAGIC_START1 \<and>
     MagicEnd uf2 = BOOTUF2_MAGIC_END \<and> Flags uf2 AND BOOTUF2_FLAG_FAMILID_PRESENT \<noteq> 0 \<and>
     \<not> (Flags uf2 AND BOOTUF2_FLAG_NOT_MAIN_FLASH \<noteq> 0)"

text \<open>One round of the loop; the result of \<open>bootuf2_flash_write_internal\<close> is not used.\<close>

definition write_block :: "'h flash_writer \<Rightarrow> bootuf2_BLOCK \<Rightarrow> bootuf2_data \<times> 'h \<Rightarrow> (bootuf2_data \<times> 'h) option" where
  "write_block fw uf2 ch =
   (if \<not> block_accepted uf2 then Some ch
    else if FamilyID uf2 = CONFIG_BOOTUF2_FAMILYID
    then (case bootuf2block_check_writable (STATE (fst ch)) uf2 CONFIG_BOOTUF2_FLASHMAX of
            None \<Rightarrow> None
          | Some False \<Rightarrow> Some ch
          | Some True \<Rightarrow>
              (case bootuf2_flash_write_internal fw uf2 ch of
                 None \<Rightarrow> None
               | Some (_, ctx, h) \<Rightarrow>
                   map_option (\<lambda>S. (ctx\<lparr> STATE := S \<rparr>, h)) (bootuf2block_state_update (STATE ctx) uf2 CONFIG_BOOTUF2_FLASHMAX)))
    else Some ch)"

fun bootuf2_write_sector :: "'h flash_writer \<Rightarrow> u8 list \<Rightarrow> nat \<Rightarrow> bootuf2_data \<times> 'h \<Rightarrow> (bootuf2_data \<times> 'h) option" where
  "bootuf2_write_sector fw buff 0 ch = Some ch"
| "bootuf2_write_sector fw buff (Suc sector_count) ch =
   (case write_block fw (parse_block buff) ch of
      None \<Rightarrow> None
    | Some ch \<Rightarrow> bootuf2_write_sector fw (drop BYTES_PER_SECTOR buff) sector_count ch)"

text \<open>The result of the flush is not used.\<close>

definition bootuf2_is_write_done :: "'h flash_writer \<Rightarrow> bootuf2_data \<times> 'h \<Rightarrow> (bool \<times> bootuf2_data \<times> 'h) option" where
  "bootuf2_is_write_done fw ch =
   (if bootuf2block_state_check (STATE (fst ch))
    then map_option (\<lambda>(_, ctx, h). (True, ctx, h)) (bootuf2_flash_flush fw ch)
    else Some (False, ch))"

subsection \<open>Storing to flash\<close>

text \<open>\<open>bootuf2_flash_write\<close> of msc_bootuf2.c.\<close>

definition bootuf2_flash_write :: "'h fal_flash_dev list \<Rightarrow> 'h fal flash_writer" where
  "bootuf2_flash_write device_table address data len st =
   (case fal_partition_find ''app'' st of
      None \<Rightarrow> None
    | Some None \<Rightarrow> Some (1, st)
    | Some (Some part) \<Rightarrow>
        let addr = address - FLASH_BASE - part_offset (partition_table st ! part) in
        (case fal_partition_erase device_table part addr len st of
           None \<Rightarrow> None
         | Some (r, st) \<Rightarrow>
             if r < 0 then Some (1, st)
             else (case fal_partition_write device_table part addr data len st of
                     None \<Rightarrow> None
                   | Some (r, st) \<Rightarrow> if r < 0 then Some (1, st) else Some (0, st))))"

subsection \<open>The blocks received\<close>

definition written_set :: "u8 list \<Rightarrow> nat set" where
  "written_set m = {i. i < 8 * length m \<and> bit (m ! (i div 8)) (i mod 8)}"

lemma written_set_zero [simp]: "written_set (replicate n 0) = {}"
  by (auto simp: written_set_def)

lemma mask_test:
  assumes "unat i < 8 * length m"
  shows "m ! (unat (i div 8)) AND push_bit (unat (i mod 8)) 1 = 0 \<longleftrightarrow> unat (i :: u32) \<notin> written_set m"
proof -
  have u: "unat (i div 8) = unat i div 8" "unat (i mod 8) = unat i mod 8" by (simp_all add: unat_div unat_mod)
  show ?thesis using assms unfolding u written_set_def by (simp add: bit_iff_and_push_bit_not_eq_0)
qed

lemma mask_set:
  assumes "unat i < 8 * length m"
  shows "written_set (m[unat (i div 8) := m ! (unat (i div 8)) OR push_bit (unat (i mod 8)) 1]) = insert (unat (i :: u32)) (written_set m)"
proof -
  have u: "unat (i div 8) = unat i div 8" "unat (i mod 8) = unat i mod 8" by (simp_all add: unat_div unat_mod)
  have d: "x = y" if "x div 8 = y div 8" "x mod 8 = y mod 8" for x y :: nat using that by (metis div_mult_mod_eq)
  have b: "bit (v OR push_bit k 1) x \<longleftrightarrow> bit v x \<or> x = k" if "k < 8" for v :: u8 and k x
    using that by (auto simp: bit_simps)
  show ?thesis unfolding u
  proof (rule set_eqI)
    fix x
    let ?n = "m[unat i div 8 := m ! (unat i div 8) OR push_bit (unat i mod 8) 1]"
    have p: "unat i div 8 < length m" using assms by (simp add: div_less_iff_less_mult)
    show "x \<in> written_set ?n \<longleftrightarrow> x \<in> insert (unat i) (written_set m)"
    proof (cases "x div 8 = unat i div 8")
      case True
      then have "bit (?n ! (x div 8)) (x mod 8) \<longleftrightarrow> bit (m ! (x div 8)) (x mod 8) \<or> x mod 8 = unat i mod 8"
        using p b [of "unat i mod 8"] by simp
      moreover have "x mod 8 = unat i mod 8 \<longleftrightarrow> x = unat i" using d [OF True] by blast
      ultimately show ?thesis using assms by (auto simp: written_set_def)
    next
      case False
      then have "?n ! (x div 8) = m ! (x div 8)" "x \<noteq> unat i" by auto
      then show ?thesis by (simp add: written_set_def)
    qed
  qed
qed

lemma finite_written [simp]: "finite (written_set m)"
  by (simp add: written_set_def)

definition uf2_ok :: "nat set \<Rightarrow> bootuf2_STATE \<Rightarrow> bool" where
  "uf2_ok W S \<longleftrightarrow> length (st_mask S) = MASK_SIZE \<and> written_set (st_mask S) = W \<and> unat (st_written S) = card W"

lemma check_writable_iff:
  assumes "uf2_ok W S" "unat (BlockIndex u) < 13832" "NumberOfBlock u \<noteq> 0"
  shows "bootuf2block_check_writable S u CONFIG_BOOTUF2_FLASHMAX = Some (unat (BlockIndex u) \<notin> W)"
proof -
  have "unat (BlockIndex u) < 8 * length (st_mask S)" using assms by (simp add: uf2_ok_def)
  moreover have "BlockIndex u < 0x360000" using assms(2) by (simp add: word_less_nat_alt)
  moreover have "unat (BlockIndex u div 8) < 1729" using assms(2) by (simp add: unat_div div_less_iff_less_mult)
  ultimately show ?thesis using assms mask_test [of "BlockIndex u" "st_mask S"]
    by (simp add: bootuf2block_check_writable_def uf2_ok_def)
qed

lemma state_update_ok:
  assumes "uf2_ok W S" "unat (BlockIndex u) < 13832" "NumberOfBlock u \<noteq> 0" "unat (BlockIndex u) \<notin> W" "W \<subseteq> {..<13832}"
  shows "\<exists>S'. bootuf2block_state_update S u CONFIG_BOOTUF2_FLASHMAX = Some S' \<and> uf2_ok (insert (unat (BlockIndex u)) W) S' \<and>
    st_blocks S' = (if st_blocks S = NumberOfBlock u then st_blocks S
      else if NumberOfBlock u \<ge> BOOTUF2_BLOCKSMAX \<or> st_blocks S \<noteq> 0 then 0xffffffff else NumberOfBlock u)"
proof -
  have i: "unat (BlockIndex u) < 8 * length (st_mask S)" using assms by (simp add: uf2_ok_def)
  have lt: "BlockIndex u < 0x360000" using assms(2) by (simp add: word_less_nat_alt)
  have pos: "unat (BlockIndex u div 8) < length (st_mask S)" using assms(1,2) by (simp add: uf2_ok_def unat_div div_less_iff_less_mult)
  have card: "card W \<le> 13832" using card_mono [OF _ assms(5)] by simp
  have "unat (st_written S + 1) = card W + 1"
    using assms(1) card unat_plus_no_wrap [of "st_written S" 1] by (simp add: uf2_ok_def)
  moreover have "finite W" using assms(5) finite_subset by blast
  ultimately show ?thesis
    using assms(1,3,4) lt pos mask_test [OF i] mask_set [OF i]
    by (auto simp: bootuf2block_state_update_def uf2_ok_def Let_def)
qed

subsection \<open>Downloading an image\<close>

text \<open>
  A flash that logs what is written to it, and the blocks of an image: \<open>N\<close> blocks with consecutive
  256-byte payloads from the address \<open>base\<close> on.
\<close>

definition log_write :: "(u32 \<times> u8 list) list flash_writer" where
  "log_write address data len h = Some (0, h @ [(address, take (unat len) data)])"

definition image_block :: "u32 \<Rightarrow> nat \<Rightarrow> nat \<Rightarrow> u8 list \<Rightarrow> bootuf2_BLOCK \<Rightarrow> bool" where
  "image_block base N k payload u \<longleftrightarrow> block_accepted u \<and> FamilyID u = CONFIG_BOOTUF2_FAMILYID \<and> NumberOfBlock u = of_nat N \<and>
     BlockIndex u = of_nat k \<and> TargetAddress u = base + of_nat (256 * k) \<and> PayloadSize u = 256 \<and>
     take 256 (Data u) = payload \<and> length payload = 256"

text \<open>The writes follow each other without gap from \<open>base\<close> on.\<close>

fun contiguous :: "u32 \<Rightarrow> (u32 \<times> u8 list) list \<Rightarrow> bool" where
  "contiguous base [] = True"
| "contiguous base ((a, d) # rest) = (a = base \<and> contiguous (base + of_nat (length d)) rest)"

lemma contiguous_snoc:
  "contiguous base (h @ [(a, d)]) \<longleftrightarrow> contiguous base h \<and> a = base + of_nat (length (concat (map snd h)))"
  by (induction h arbitrary: base) (auto simp: add.assoc)

definition download_inv :: "u32 \<Rightarrow> nat \<Rightarrow> u8 list list \<Rightarrow> nat \<Rightarrow> bootuf2_data \<times> (u32 \<times> u8 list) list \<Rightarrow> bool" where
  "download_inv base N ps k ch \<longleftrightarrow> (case ch of (ctx, h) \<Rightarrow>
     length (cache ctx) = CONFIG_BOOTUF2_CACHE_SIZE \<and> uf2_ok {..<k} (STATE ctx) \<and>
     st_blocks (STATE ctx) = (if k = 0 then 0 else of_nat N) \<and>
     (\<exists>c\<le>16. unat (cached_bytes ctx) = 256 * c) \<and> (\<forall>e\<in>set h. length (snd e) = CONFIG_BOOTUF2_CACHE_SIZE) \<and>
     concat (map snd h) @ take (unat (cached_bytes ctx)) (cache ctx) = concat (take k ps) \<and> contiguous base h \<and>
     (cached_bytes ctx \<noteq> 0 \<longrightarrow> cached_address ctx = base + of_nat (length (concat (map snd h)))))"

lemma concat_blocks: "\<forall>p\<in>set ps. length p = 256 \<Longrightarrow> k \<le> length ps \<Longrightarrow> length (concat (take k ps)) = 256 * k"
proof (induction k)
  case (Suc k)
  then show ?case by (simp add: take_Suc_conv_app_nth)
qed simp

lemma cache_block_ok:
  assumes "length (cache ctx) = 4096" "unat (cached_bytes ctx) = 256 * c" "c < 16" "PayloadSize u = 256" "take 256 (Data u) = d" "length d = 256"
  shows "\<exists>ctx'. cache_block u ctx = Some ctx' \<and> length (cache ctx') = 4096 \<and> unat (cached_bytes ctx') = 256 * Suc c \<and>
    take (256 * Suc c) (cache ctx') = take (256 * c) (cache ctx) @ d \<and> STATE ctx' = STATE ctx \<and>
    cached_address ctx' = TargetAddress u - cached_bytes ctx"
proof -
  have b: "256 * c + 256 \<le> length (cache ctx)" using assms by simp
  have "unat (cached_bytes ctx + 256) = 256 * c + 256"
    using assms(2,3) unat_plus_no_wrap [of "cached_bytes ctx" 256] by simp
  moreover have "take (256 + 256 * c) (blit (cache ctx) (256 * c) d) = take (256 * c) (cache ctx) @ d"
    using b assms(6) by (simp add: blit_def)
  ultimately show ?thesis using assms b by (simp add: cache_block_def)
qed

lemma write_internal_ok:
  assumes inv: "download_inv base N ps k (ctx, h)" and blk: "image_block base N k (ps ! k) u"
    and ps: "\<forall>p\<in>set ps. length p = 256" "length ps = N" "k < N"
  shows "\<exists>ctx' h'. bootuf2_flash_write_internal log_write u (ctx, h) = Some (0, ctx', h') \<and> STATE ctx' = STATE ctx \<and>
    length (cache ctx') = 4096 \<and> (\<exists>c\<le>16. 0 < c \<and> unat (cached_bytes ctx') = 256 * c) \<and>
    concat (map snd h') @ take (unat (cached_bytes ctx')) (cache ctx') = concat (take (Suc k) ps) \<and> contiguous base h' \<and>
    cached_address ctx' = base + of_nat (length (concat (map snd h'))) \<and> (\<forall>e\<in>set h'. length (snd e) = 4096)"
proof -
  obtain c where c: "c \<le> 16" "unat (cached_bytes ctx) = 256 * c" using inv by (auto simp: download_inv_def)
  have I: "length (cache ctx) = 4096" "concat (map snd h) @ take (256 * c) (cache ctx) = concat (take k ps)" "contiguous base h"
    "cached_bytes ctx \<noteq> 0 \<longrightarrow> cached_address ctx = base + of_nat (length (concat (map snd h)))" "\<forall>e\<in>set h. length (snd e) = 4096"
    using inv c(2) by (auto simp: download_inv_def)
  have u: "TargetAddress u = base + of_nat (256 * k)" "PayloadSize u = 256" "take 256 (Data u) = ps ! k" "length (ps ! k) = 256"
    using blk by (auto simp: image_block_def)
  have cb: "cached_bytes ctx = of_nat (256 * c)" by (rule word_of_unat [OF c(2)])
  let ?L = "length (concat (map snd h))"
  have len: "?L + 256 * c = 256 * k"
  proof -
    have "length (concat (map snd h) @ take (256 * c) (cache ctx)) = 256 * k"
      unfolding I(2) using ps by (simp add: concat_blocks)
    then show ?thesis using I(1) c(1) by simp
  qed
  have nxt: "concat (take (Suc k) ps) = concat (take k ps) @ ps ! k" using ps by (simp add: take_Suc_conv_app_nth)
  have no_jump: "\<not> (cached_bytes ctx \<noteq> 0 \<and> cached_address ctx + cached_bytes ctx \<noteq> TargetAddress u)"
    using I(4) u(1) len by (auto simp: cb simp flip: of_nat_add simp del: of_nat_mult)
  have full: "cached_bytes ctx = of_nat 4096 \<longleftrightarrow> c = 16"
  proof
    assume "cached_bytes ctx = of_nat 4096"
    then have "unat (cached_bytes ctx) = 4096" by simp
    then show "c = 16" using c(2) by simp
  qed (simp add: cb)
  show ?thesis
  proof (cases "c = 16")
    case True
    let ?h = "h @ [(cached_address ctx, cache ctx)]" and ?x = "ctx\<lparr> cached_bytes := 0 \<rparr>"
    have n0: "cached_bytes ctx \<noteq> 0" using c(2) True by auto
    have fl: "bootuf2_flash_flush log_write (ctx, h) = Some (0, ?x, ?h)"
      using n0 c(2) True I(1) by (simp add: bootuf2_flash_flush_def log_write_def)
    obtain ctx' where x: "cache_block u ?x = Some ctx'" "length (cache ctx') = 4096" "unat (cached_bytes ctx') = 256"
      "take 256 (cache ctx') = ps ! k" "STATE ctx' = STATE ctx" "cached_address ctx' = TargetAddress u"
      using cache_block_ok [of ?x 0 u "ps ! k"] I(1) u by auto
    have "bootuf2_flash_write_internal log_write u (ctx, h) = Some (0, ctx', ?h)"
      using full True fl x(1) by (simp add: bootuf2_flash_write_internal_def)
    moreover have "concat (map snd ?h) = concat (take k ps)" using I(1,2) True by simp
    moreover have "contiguous base ?h" using I(3,4) n0 by (simp add: contiguous_snoc)
    moreover have "cached_address ctx' = base + of_nat (length (concat (map snd ?h)))"
      using x(6) u(1) len True I(1) by simp
    ultimately show ?thesis using x nxt I(1,5) by (intro exI [of _ ctx'] exI [of _ ?h]) (auto intro!: exI [of _ 1])
  next
    case False
    then have c16: "c < 16" using c(1) by simp
    obtain ctx' where x: "cache_block u ctx = Some ctx'" "length (cache ctx') = 4096" "unat (cached_bytes ctx') = 256 * Suc c"
      "take (256 * Suc c) (cache ctx') = take (256 * c) (cache ctx) @ ps ! k" "STATE ctx' = STATE ctx"
      "cached_address ctx' = TargetAddress u - cached_bytes ctx"
      using cache_block_ok [OF I(1) c(2) c16 u(2-4)] by blast
    have "bootuf2_flash_write_internal log_write u (ctx, h) = Some (0, ctx', h)"
      using full False no_jump x(1) unfolding bootuf2_flash_write_internal_def by auto
    moreover have "cached_address ctx' = base + of_nat ?L"
      unfolding x(6) u(1) cb len [symmetric] by (simp only: of_nat_add) simp
    moreover have "concat (map snd h) @ take (unat (cached_bytes ctx')) (cache ctx') = concat (take (Suc k) ps)"
      unfolding x(3,4) nxt I(2) [symmetric] by simp
    ultimately show ?thesis using x I(3,5) c16 by (intro exI [of _ ctx'] exI [of _ h]) (auto intro!: exI [of _ "Suc c"])
  qed
qed

lemma write_block_download:
  assumes inv: "download_inv base N ps k ch" and blk: "image_block base N k (ps ! k) u"
    and ps: "\<forall>p\<in>set ps. length p = 256" "length ps = N" "k < N" "N < 13824"
  shows "\<exists>ch'. write_block log_write u ch = Some ch' \<and> download_inv base N ps (Suc k) ch'"
proof -
  obtain ctx h where ch: "ch = (ctx, h)" by fastforce
  have k: "BlockIndex u = of_nat k" "NumberOfBlock u = of_nat N" "block_accepted u" "FamilyID u = CONFIG_BOOTUF2_FAMILYID"
    using blk by (auto simp: image_block_def)
  have uk: "unat (BlockIndex u) = k" "unat (NumberOfBlock u) = N"
    using k ps(3,4) by (simp_all add: unsigned_of_nat take_bit_nat_eq_self)
  have n0: "NumberOfBlock u \<noteq> 0" "NumberOfBlock u < 13824" using uk(2) ps(3,4) by (auto simp: word_less_nat_alt)
  have S: "uf2_ok {..<k} (STATE ctx)" "st_blocks (STATE ctx) = (if k = 0 then 0 else of_nat N)"
    using inv ch by (simp_all add: download_inv_def)
  have chk: "bootuf2block_check_writable (STATE ctx) u CONFIG_BOOTUF2_FLASHMAX = Some True"
    using check_writable_iff [OF S(1) _ n0(1)] uk(1) ps(3,4) by simp
  obtain ctx' h' where w: "bootuf2_flash_write_internal log_write u (ctx, h) = Some (0, ctx', h')" "STATE ctx' = STATE ctx"
    "length (cache ctx') = 4096" "\<exists>c\<le>16. 0 < c \<and> unat (cached_bytes ctx') = 256 * c"
    "concat (map snd h') @ take (unat (cached_bytes ctx')) (cache ctx') = concat (take (Suc k) ps)" "contiguous base h'"
    "cached_address ctx' = base + of_nat (length (concat (map snd h')))" "\<forall>e\<in>set h'. length (snd e) = 4096"
    using write_internal_ok [OF inv [unfolded ch] blk ps(1-3)] by blast
  obtain S' where S': "bootuf2block_state_update (STATE ctx) u CONFIG_BOOTUF2_FLASHMAX = Some S'" "uf2_ok (insert k {..<k}) S'"
    "st_blocks S' = (if st_blocks (STATE ctx) = NumberOfBlock u then st_blocks (STATE ctx)
      else if NumberOfBlock u \<ge> BOOTUF2_BLOCKSMAX \<or> st_blocks (STATE ctx) \<noteq> 0 then 0xffffffff else NumberOfBlock u)"
    using state_update_ok [OF S(1) _ n0(1)] uk(1) ps(3,4) by fastforce
  have "write_block log_write u ch = Some (ctx'\<lparr> STATE := S' \<rparr>, h')"
    using k(3,4) chk w(1,2) S'(1) ch by (simp add: write_block_def)
  moreover have "insert k {..<k} = {..<Suc k}" by auto
  moreover have "st_blocks S' = of_nat N" using S'(3) S(2) k(2) n0 by (auto split: if_splits)
  ultimately show ?thesis using w(3-8) S'(2) by (auto simp: download_inv_def)
qed

lemma write_sectors_download:
  assumes "download_inv base (length ps) ps k ch" and "\<forall>p\<in>set ps. length p = 256" "length ps < 13824"
    and "\<forall>i<n. image_block base (length ps) (k + i) (ps ! (k + i)) (parse_block (drop (512 * i) buff))" "k + n \<le> length ps"
  shows "\<exists>ch'. bootuf2_write_sector log_write buff n ch = Some ch' \<and> download_inv base (length ps) ps (k + n) ch'"
  using assms
proof (induction n arbitrary: k ch buff)
  case 0
  then show ?case by simp
next
  case (Suc n)
  have "image_block base (length ps) k (ps ! k) (parse_block buff)" using Suc.prems(4) [rule_format, of 0] by simp
  from write_block_download [OF Suc.prems(1) this Suc.prems(2) refl _ Suc.prems(3)]
  obtain ch1 where c1: "write_block log_write (parse_block buff) ch = Some ch1" "download_inv base (length ps) ps (Suc k) ch1"
    using Suc.prems(5) by force
  have "\<forall>i<n. image_block base (length ps) (Suc k + i) (ps ! (Suc k + i)) (parse_block (drop (512 * i) (drop 512 buff)))"
    using Suc.prems(4) [rule_format, of "Suc i" for i] by (simp add: add.commute)
  then show ?case using Suc.IH [OF c1(2) Suc.prems(2,3)] Suc.prems(5) c1(1) by simp
qed

text \<open>The state in which the disk starts, and after \<open>bootuf2_init\<close>.\<close>

definition uf2_fresh :: "bootuf2_data \<Rightarrow> bool" where
  "uf2_fresh ctx \<longleftrightarrow> STATE ctx = \<lparr> st_blocks = 0, st_written = 0, st_mask = replicate MASK_SIZE 0 \<rparr> \<and>
     length (cache ctx) = CONFIG_BOOTUF2_CACHE_SIZE \<and> cached_bytes ctx = 0"

lemma fresh_download: "uf2_fresh ctx \<Longrightarrow> download_inv base N ps 0 (ctx, [])"
  by (auto simp: uf2_fresh_def download_inv_def uf2_ok_def)

lemma download_done:
  assumes "download_inv base (length ps) ps k ch" "k \<le> length ps" "length ps < 13824" "0 < length ps"
  shows "bootuf2block_state_check (STATE (fst ch)) \<longleftrightarrow> k = length ps"
proof -
  have "unat (of_nat (length ps) :: u32) = length ps" using assms(3) by (simp add: unsigned_of_nat take_bit_nat_eq_self)
  moreover have "unat (st_written (STATE (fst ch))) = k" "st_blocks (STATE (fst ch)) = (if k = 0 then 0 else of_nat (length ps))"
    using assms(1) by (auto simp: download_inv_def uf2_ok_def split: prod.splits)
  moreover have "(of_nat (length ps) :: u32) \<noteq> 0" using calculation(1) assms(4) by (metis less_not_refl unat_0)
  ultimately show ?thesis using assms(2,4) by (auto simp: bootuf2block_state_check_def word_le_nat_alt)
qed

text \<open>
  Downloading an image works: if the sectors written to a fresh disk are the UF2 blocks of an image,
  in order, with 256-byte payloads at consecutive addresses, then after any proper part of them the
  disk does not report the download as complete; after all of them it does, and what was
  written to flash is exactly the image, without gap or repetition, from its address on.
\<close>

lemma uf2_download_stores_image:
  assumes "uf2_fresh ctx" and "0 < length ps" "length ps < 13824"
    and "\<forall>k<length ps. image_block base (length ps) k (ps ! k) (parse_block (drop (512 * k) buff))"
  shows "(\<forall>m<length ps. \<exists>ch. bootuf2_write_sector log_write buff m (ctx, []) = Some ch \<and>
        bootuf2_is_write_done log_write ch = Some (False, ch)) \<and>
     (\<exists>ch ctx' h'. bootuf2_write_sector log_write buff (length ps) (ctx, []) = Some ch \<and>
        bootuf2_is_write_done log_write ch = Some (True, ctx', h') \<and>
        concat (map snd h') = concat ps \<and> contiguous base h')"
proof -
  have len: "\<forall>p\<in>set ps. length p = 256" using assms(4) by (auto simp: image_block_def in_set_conv_nth)
  have W: "\<exists>ch. bootuf2_write_sector log_write buff m (ctx, []) = Some ch \<and> download_inv base (length ps) ps m ch" if "m \<le> length ps" for m
    using write_sectors_download [OF fresh_download [OF assms(1)] len assms(3), where base = base and n = m and buff = buff] assms(4) that by simp
  have "\<exists>ch. bootuf2_write_sector log_write buff m (ctx, []) = Some ch \<and> bootuf2_is_write_done log_write ch = Some (False, ch)"
    if m: "m < length ps" for m
  proof -
    obtain ch where ch: "bootuf2_write_sector log_write buff m (ctx, []) = Some ch" "download_inv base (length ps) ps m ch"
      using W [OF less_imp_le [OF m]] by blast
    then show ?thesis using download_done [OF ch(2) _ assms(3,2)] m by (simp add: bootuf2_is_write_done_def)
  qed
  moreover obtain x h where ch: "bootuf2_write_sector log_write buff (length ps) (ctx, []) = Some (x, h)"
    "download_inv base (length ps) ps (length ps) (x, h)" using W [of "length ps"] by auto
  have I: "concat (map snd h) @ take (unat (cached_bytes x)) (cache x) = concat ps" "contiguous base h"
    "cached_bytes x \<noteq> 0 \<longrightarrow> cached_address x = base + of_nat (length (concat (map snd h)))"
    using ch(2) by (auto simp: download_inv_def)
  have "\<exists>x' h'. bootuf2_is_write_done log_write (x, h) = Some (True, x', h') \<and> concat (map snd h') = concat ps \<and> contiguous base h'"
    using download_done [OF ch(2) _ assms(3,2)] I
    by (auto simp: bootuf2_is_write_done_def bootuf2_flash_flush_def log_write_def contiguous_snoc)
  ultimately show ?thesis using ch(1) by blast
qed

definition sample_sector :: "u8 list" where
  "sample_sector = le32 BOOTUF2_MAGIC_START0 @ le32 BOOTUF2_MAGIC_START1 @ le32 BOOTUF2_FLAG_FAMILID_PRESENT @ le32 0x80020000 @
     le32 256 @ le32 0 @ le32 1 @ le32 CONFIG_BOOTUF2_FAMILYID @ replicate 476 7 @ le32 BOOTUF2_MAGIC_END"

lemma sample_block: "image_block 0x80020000 1 0 (replicate 256 7) (parse_block sample_sector)"
proof -
  have [simp]: "length sample_sector = 512" by (simp add: sample_sector_def)
  have f: "le32_at sample_sector 0 = BOOTUF2_MAGIC_START0" "le32_at sample_sector 4 = BOOTUF2_MAGIC_START1"
    "le32_at sample_sector 8 = BOOTUF2_FLAG_FAMILID_PRESENT" "le32_at sample_sector 12 = 0x80020000" "le32_at sample_sector 16 = 256"
    "le32_at sample_sector 20 = 0" "le32_at sample_sector 24 = 1" "le32_at sample_sector 28 = CONFIG_BOOTUF2_FAMILYID"
    "le32_at sample_sector 508 = BOOTUF2_MAGIC_END"
    by (rule le32_roundtrip; simp add: sample_sector_def seg_def)+
  have "seg sample_sector 32 476 = replicate 476 7" by (simp add: sample_sector_def seg_def)
  then show ?thesis by (simp add: parse_block_def image_block_def block_accepted_def f)
qed

definition sample_disk :: bootuf2_data where
  "sample_disk = \<lparr> STATE = \<lparr> st_blocks = 0, st_written = 0, st_mask = replicate MASK_SIZE 0 \<rparr>, cache = replicate 4096 0,
     cached_address = 0, cached_bytes = 0, files = [] \<rparr>"

lemma uf2_download_stores_image_example:
  "\<exists>ch ctx' h'. bootuf2_write_sector log_write sample_sector 1 (sample_disk, []) = Some ch \<and>
     bootuf2_is_write_done log_write ch = Some (True, ctx', h') \<and> concat (map snd h') = replicate 256 7"
proof -
  have "uf2_fresh sample_disk" by (simp add: uf2_fresh_def sample_disk_def)
  from uf2_download_stores_image [OF this, of "[replicate 256 7]" "0x80020000" sample_sector]
  show ?thesis using sample_block by auto
qed

subsection \<open>The flash behind the disk\<close>

text \<open>The bootloader's flash layer as \<open>fal_init\<close> leaves it on a chip of 4 MiB.\<close>

definition boot_fal :: "'s nor_rom \<Rightarrow> 's onchip_flash fal \<Rightarrow> bool" where
  "boot_fal R st \<longleftrightarrow> flash_inv R (hw st) \<and> length (flash_image R (hw st)) = 4194304 \<and> partition_table st = FAL_PART_TABLE \<and>
     fal_partition_find ''app'' st = Some (Some 1) \<and> part_on [onchip_dev R] st 1 (onchip_dev R) 4194304"

lemma app_entry: "partition_table st = FAL_PART_TABLE \<Longrightarrow> unat (part_offset (partition_table st ! 1)) = 131072"
  "partition_table st = FAL_PART_TABLE \<Longrightarrow> unat (part_len (partition_table st ! 1)) = 3538944"
  "partition_table st = FAL_PART_TABLE \<Longrightarrow> part_offset (partition_table st ! 1) = 131072"
  "partition_table st = FAL_PART_TABLE \<Longrightarrow> part_len (partition_table st ! 1) = 3538944"
  by (simp_all add: FAL_PART_TABLE_def part_entry_def)

lemma write_app:
  assumes "boot_fal R st" and "unat addr + unat n \<le> 3538944" "0 < unat n" "unat n \<le> length data"
    and "unat (sector_size R (chip (hw st))) dvd 131072 + unat addr" "unat (page_size R (chip (hw st))) dvd 131072 + unat addr"
  shows "\<exists>r f. bootuf2_flash_write [onchip_dev R] (FLASH_BASE + 131072 + addr) data n st = Some (r, st\<lparr> hw := f \<rparr>) \<and> r \<in> {0, 1} \<and> flash_inv R f \<and>
    outside (131072 + unat addr) (whole_sectors R (hw st) (unat n)) (flash_image R (hw st)) (flash_image R f) \<and>
    (r = 0 \<longrightarrow> fal_partition_read [onchip_dev R] 1 addr n (st\<lparr> hw := f \<rparr>) = Some (int (unat n), Some (take (unat n) data)))"
proof -
  have B: "flash_inv R (hw st)" "length (flash_image R (hw st)) = 4194304" "partition_table st = FAL_PART_TABLE"
    "fal_partition_find ''app'' st = Some (Some 1)" "part_on [onchip_dev R] st 1 (onchip_dev R) (length (flash_image R (hw st)))"
    using assms(1) by (auto simp: boot_fal_def)
  note app = app_entry [OF B(3)]
  have a: "FLASH_BASE + 131072 + addr - FLASH_BASE - part_offset (partition_table st ! 1) = addr" using app(3) by simp
  have d: "dev_read (onchip_dev R) = xpi_read R" "dev_write (onchip_dev R) = xpi_write R" "dev_erase (onchip_dev R) = xpi_erase R"
    by (simp_all add: onchip_dev_def)
  have ws: "(unat n + unat (sector_size R (chip (hw st))) - 1) div unat (sector_size R (chip (hw st))) * unat (sector_size R (chip (hw st))) =
      whole_sectors R (hw st) (unat n)" by (simp add: whole_sectors_def Let_def)
  note P = onchip.partition_store [OF B(5,1) d, of addr n data, unfolded app(1,2) ws, OF assms(2-6)]
  obtain r1 st1 f1 where e: "fal_partition_erase [onchip_dev R] 1 addr n st = Some (r1, st1)" "r1 \<in> {int (unat n), - 1}"
    "st1 = st\<lparr> hw := f1 \<rparr>" "flash_inv R f1"
    "outside (131072 + unat addr) (whole_sectors R (hw st) (unat n)) (flash_image R (hw st)) (flash_image R f1)"
    "r1 \<noteq> - 1 \<longrightarrow> (\<exists>r2 st2. fal_partition_write [onchip_dev R] 1 addr data n st1 = Some (r2, st2) \<and> r2 \<in> {int (unat n), - 1} \<and>
      (\<exists>h. st2 = st\<lparr> hw := h \<rparr> \<and> flash_inv R h \<and>
         outside (131072 + unat addr) (whole_sectors R (hw st) (unat n)) (flash_image R (hw st)) (flash_image R h)) \<and>
      (r2 \<noteq> - 1 \<longrightarrow> fal_partition_read [onchip_dev R] 1 addr n st2 = Some (int (unat n), Some (take (unat n) data))))"
    using P by blast
  show ?thesis
  proof (cases "r1 = - 1")
    case True
    then show ?thesis using e B(4) a by (auto simp: bootuf2_flash_write_def)
  next
    case False
    then obtain r2 st2 f2 where w: "fal_partition_write [onchip_dev R] 1 addr data n st1 = Some (r2, st2)" "r2 \<in> {int (unat n), - 1}"
      "st2 = st\<lparr> hw := f2 \<rparr>" "flash_inv R f2"
      "outside (131072 + unat addr) (whole_sectors R (hw st) (unat n)) (flash_image R (hw st)) (flash_image R f2)"
      "r2 \<noteq> - 1 \<longrightarrow> fal_partition_read [onchip_dev R] 1 addr n st2 = Some (int (unat n), Some (take (unat n) data))"
      using e(6) by blast
    have "0 \<le> r1" "r2 = - 1 \<or> 0 \<le> r2" using e(2) w(2) False by auto
    then have "bootuf2_flash_write [onchip_dev R] (FLASH_BASE + 131072 + addr) data n st = Some (if r2 < 0 then 1 else 0, st2)"
      using e(1) w(1) B(4) a by (simp add: bootuf2_flash_write_def Let_def)
    then show ?thesis using w(3-6) \<open>r2 = - 1 \<or> 0 \<le> r2\<close>
      by (intro exI [of _ "if r2 < 0 then 1 else 0"] exI [of _ f2]) auto
  qed
qed

text \<open>
  C13: Storing downloaded data: for an address in the application partition at the start of a sector,
  bootuf2_flash_write always returns, with 0 or 1, and changes nothing but the sectors from that
  address on that hold the data, their number being the length divided by the sector size and rounded up, none of them outside the partition; if it returns 0, the
  data reads back from the partition. Data that would end beyond the partition is refused with 1 and nothing changes.
\<close>

theorem flash_write_stores:
  assumes "boot_fal R st" and "unat (sector_size R (chip (hw st))) dvd 131072" "0 < unat n" "unat n \<le> length data"
    and "unat addr \<le> 3538944" "unat (sector_size R (chip (hw st))) dvd unat addr" "unat (page_size R (chip (hw st))) dvd 131072 + unat addr"
  shows "if unat addr + unat n \<le> 3538944
     then \<exists>r f. let s = unat (sector_size R (chip (hw st))); m = (unat n + s - 1) div s * s in
       bootuf2_flash_write [onchip_dev R] (FLASH_BASE + 131072 + addr) data n st = Some (r, st\<lparr> hw := f \<rparr>) \<and> r \<in> {0, 1} \<and>
       boot_fal R (st\<lparr> hw := f \<rparr>) \<and> unat addr + m \<le> 3538944 \<and>
       outside (131072 + unat addr) m (flash_image R (hw st)) (flash_image R f) \<and>
       (r = 0 \<longrightarrow> fal_partition_read [onchip_dev R] 1 addr n (st\<lparr> hw := f \<rparr>) = Some (int (unat n), Some (take (unat n) data)))
     else unat addr + unat n < 2 ^ 32 \<longrightarrow> bootuf2_flash_write [onchip_dev R] (FLASH_BASE + 131072 + addr) data n st = Some (1, st)"
proof (cases "unat addr + unat n \<le> 3538944")
  case True
  let ?s = "unat (sector_size R (chip (hw st)))"
  have inv: "flash_inv R (hw st)" "length (flash_image R (hw st)) = 4194304" using assms(1) by (simp_all add: boot_fal_def)
  have s0: "0 < ?s" using onchip.capacity [OF inv(1)] by simp
  have sd: "?s dvd 3538944" using assms(2) dvd_mult [of ?s 131072 27] by simp
  have "?s dvd 131072 + unat addr" using assms(2,6) by simp
  then obtain r f where f: "bootuf2_flash_write [onchip_dev R] (FLASH_BASE + 131072 + addr) data n st = Some (r, st\<lparr> hw := f \<rparr>)" "r \<in> {0, 1}"
    "flash_inv R f" "outside (131072 + unat addr) (whole_sectors R (hw st) (unat n)) (flash_image R (hw st)) (flash_image R f)"
    "r = 0 \<longrightarrow> fal_partition_read [onchip_dev R] 1 addr n (st\<lparr> hw := f \<rparr>) = Some (int (unat n), Some (take (unat n) data))"
    using write_app [OF assms(1) True assms(3,4) _ assms(7)] by blast
  have m: "unat n \<le> whole_sectors R (hw st) (unat n)" "unat addr + whole_sectors R (hw st) (unat n) \<le> 3538944"
    using round_up(1) [OF s0, of "unat n"] round_up_range [OF s0 sd True] assms(6) by (simp_all add: whole_sectors_def Let_def)
  have "boot_fal R (st\<lparr> hw := f \<rparr>)" using assms(1) f(3,4) by (simp add: boot_fal_def outside_def)
  then show ?thesis using f m True unfolding whole_sectors_def Let_def by (intro if_P [THEN iffD2] exI [of _ r] exI [of _ f]) auto
next
  case False
  have B: "partition_table st = FAL_PART_TABLE" "fal_partition_find ''app'' st = Some (Some 1)" using assms(1) by (simp_all add: boot_fal_def)
  have "FLASH_BASE + 131072 + addr - FLASH_BASE - part_offset (partition_table st ! 1) = addr" using app_entry(3) [OF B(1)] by simp
  moreover have "fal_partition_erase [onchip_dev R] 1 addr n st = Some (- 1, st)" if "unat addr + unat n < 2 ^ 32"
    using partition_refused(3) [of st 1 addr n] False that app_entry(2) [OF B(1)] by simp
  ultimately show ?thesis using False B(2) by (auto simp: bootuf2_flash_write_def Let_def)
qed

text \<open>A chip of 4 MiB with sectors of 4 KiB.\<close>

definition big_rom :: "(nat \<Rightarrow> u8) nor_rom" where
  "big_rom = sim_nor (2 ^ 12) 65536 256 (4096*1024)"

lemma big_boot: "\<exists>st. boot_fal big_rom st \<and> fal_init [onchip_dev big_rom] FAL_PART_TABLE (fal_zero (power_on (\<lambda>_. 0))) = Some (7, st)"
proof -
  have ok: "rom_ok big_rom" unfolding big_rom_def by (rule sim_rom_ok) simp_all
  obtain f where f: "xpi_init big_rom (power_on (\<lambda>_. 0)) = (0, f)" "geometry_ok big_rom (chip f)" "total_size big_rom (chip f) = 4096*1024"
  proof -
    have "\<exists>k<31. (2 :: u32) ^ 12 = 2 ^ k" by (rule exI [of _ 12]) simp
    then have "geometry_ok big_rom s" for s by (simp add: geometry_ok_def big_rom_def sim_nor_def)
    then show ?thesis using that by (simp add: xpi_init_def big_rom_def sim_nor_def power_on_def)
  qed
  show ?thesis using boot_fal_init [OF f(1,2) ok f(3)] by (auto simp: boot_fal_def)
qed

theorem flash_write_stores_witness:
  "\<exists>st r f. boot_fal big_rom st \<and> bootuf2_flash_write [onchip_dev big_rom] 0x80020000 [1, 2, 3] 3 st = Some (r, st\<lparr> hw := f \<rparr>) \<and> r \<in> {0, 1}"
proof -
  obtain st where st: "boot_fal big_rom st" using big_boot by blast
  show ?thesis using flash_write_stores [OF st, of 3 "[1, 2, 3]" 0] st by (auto simp: big_rom_def sim_nor_def)
qed

text \<open>
  The check of the partition bounds adds in 32 bits: data for an address just below the application
  partition that ends at its start passes it, and the end of the bootloader's own partition is erased.
\<close>

lemma flash_write_wraps:
  assumes "boot_fal R st"
  shows "fal_partition_erase [onchip_dev R] 1 (FLASH_BASE + 126976 - FLASH_BASE - 131072) 4096 st =
      map_option (\<lambda>(r, h). (r, st\<lparr> hw := h \<rparr>)) (xpi_erase R 126976 4096 (hw st))"
proof -
  have B: "partition_table st = FAL_PART_TABLE" "part_on [onchip_dev R] st 1 (onchip_dev R) 4194304"
    using assms by (simp_all add: boot_fal_def)
  then show ?thesis using app_entry(3,4) [OF B(1)]
    by (auto simp: fal_partition_erase_def part_device_def flash_device_find_by_part_def part_on_def onchip_dev_def)
qed

text \<open>A block index is compared with the size of the flash in bytes, but the mask has a bit for each block only.\<close>

lemma mask_overrun:
  assumes "block_accepted u" "FamilyID u = CONFIG_BOOTUF2_FAMILYID" "NumberOfBlock u \<noteq> 0" "BlockIndex u = 13832"
    and "length (st_mask (STATE ctx)) = MASK_SIZE"
  shows "write_block fw u (ctx, h) = None"
  using assms by (simp add: write_block_def bootuf2block_check_writable_def Let_def)

end
