(* ===== verification/Uf2_Disk.thy ===== *)
theory Uf2_Disk
  imports Boot_Uf2
begin

text \<open>
  The virtual FAT16 volume of bootloader/bootuf2/bootuf2.c: the files with their clusters, and what a read of
  each sector answers (boot record, allocation tables, root directory, file contents).
\<close>

definition bytes_of :: "string \<Rightarrow> u8 list" where
  "bytes_of s = map (\<lambda>c. of_nat (of_char c)) s"

text \<open>A name, padded with blanks; the end of the list is the string's end mark.\<close>

fun fname_copy :: "u8 list \<Rightarrow> nat \<Rightarrow> u8 list" where
  "fname_copy src 0 = []"
| "fname_copy [] (Suc n) = 32 # fname_copy [] n"
| "fname_copy (c # cs) (Suc n) = (if c \<noteq> 0 then c # fname_copy cs n else 32 # fname_copy (c # cs) n)"

definition DIVCEIL :: "u32 \<Rightarrow> u32 \<Rightarrow> u32" where
  "DIVCEIL v d = v div d + (if v mod d \<noteq> 0 then 1 else 0)"

fun assign_clusters :: "u16 \<Rightarrow> bootuf2_FILE list \<Rightarrow> bootuf2_FILE list" where
  "assign_clusters cluster_beg [] = []"
| "assign_clusters cluster_beg (f # fs) =
   (let cluster_end = ucast (- 1 + ucast cluster_beg + DIVCEIL (FileSize f) (of_nat (BYTES_PER_SECTOR * SECTORS_PER_CLUSTER)) :: u32)
    in f\<lparr> ClusterBeg := cluster_beg, ClusterEnd := cluster_end \<rparr> # assign_clusters (cluster_end + 1) fs)"

definition fcalculate_cluster :: "bootuf2_data \<Rightarrow> bootuf2_data" where
  "fcalculate_cluster ctx = ctx\<lparr> files := assign_clusters 2 (files ctx) \<rparr>"

definition ffind_by_cluster :: "bootuf2_FILE list \<Rightarrow> u32 \<Rightarrow> nat option" where
  "ffind_by_cluster fs cluster =
   (if cluster \<ge> 0xFFF0 then None
    else find_index (\<lambda>f. ucast (ClusterBeg f) \<le> cluster \<and> cluster \<le> ucast (ClusterEnd f)) fs)"

subsection \<open>The reason text\<close>

text \<open>\<open>strstr\<close>: the first position of \<open>w\<close> in \<open>s\<close>.\<close>

fun strstr :: "u8 list \<Rightarrow> u8 list \<Rightarrow> nat option" where
  "strstr s w = (if take (length w) s = w then Some 0 else case s of [] \<Rightarrow> None | _ # r \<Rightarrow> map_option Suc (strstr r w))"

lemma strstr_bound: "strstr s w = Some i \<Longrightarrow> i + length w \<le> length s"
proof (induction s arbitrary: i)
  case Nil
  then show ?case by (auto split: if_splits)
next
  case (Cons c s)
  show ?case
  proof (cases "take (length w) (c # s) = w")
    case True
    then have "i = 0" using Cons.prems by simp
    then show ?thesis using True by (metis add_0 length_take min.cobounded1)
  next
    case False
    then obtain k where "strstr s w = Some k" "i = Suc k" using Cons.prems by auto
    then show ?thesis using Cons.IH by simp
  qed
qed

declare strstr.simps [simp del]

text \<open>Every occurrence of a non-empty \<open>oldWord\<close> replaced, from left to right.\<close>

function replace_all :: "u8 list \<Rightarrow> u8 list \<Rightarrow> u8 list \<Rightarrow> u8 list" where
  "replace_all str oldWord newWord =
   (if oldWord = [] then str
    else case strstr str oldWord of
      None \<Rightarrow> str
    | Some len \<Rightarrow> take len str @ newWord @ replace_all (drop (len + length oldWord) str) oldWord newWord)"
  by auto
termination
proof (relation "measure (\<lambda>(s, _, _). length s)", goal_cases)
  case (2 str oldWord newWord len)
  then show ?case using strstr_bound [of str oldWord len] by (cases oldWord) auto
qed simp

declare replace_all.simps [simp del]

text \<open>\<open>alloc\<close> says whether the temporary buffer could be allocated.\<close>

definition replaceSubstring :: "bool \<Rightarrow> u8 list \<Rightarrow> u8 list \<Rightarrow> u8 list \<Rightarrow> u8 list" where
  "replaceSubstring alloc str oldWord newWord = (if \<not> alloc then str else replace_all str oldWord newWord)"

abbreviation (input) CRLF :: string where "CRLF \<equiv> [CHR 0x0d, CHR 0x0a]"

definition DEFAULT_REASON :: string where
  "DEFAULT_REASON = ''DEFAULT_REASON_DEFAULT_REASON_DEFAULT_REASON'' @ CRLF"

definition file_INFO :: string where
  "file_INFO = ''CherryUSB UF2 BOOT'' @ CRLF @ ''Model: HPM'' @ CRLF @ ''Board-ID: HPM6364'' @ CRLF @ ''Bootloader Reason: '' @ DEFAULT_REASON"

definition location_page :: "string \<Rightarrow> string" where
  "location_page url = ''<!doctype html>'' @ [CHR 0x0a] @ ''<html><body><script>'' @ [CHR 0x0a] @ ''location.replace('' @ [CHR 0x22] @ url @
     [CHR 0x22] @ '');'' @ [CHR 0x0a] @ ''</script></body></html>'' @ [CHR 0x0a]"

definition mk_file :: "string \<Rightarrow> u8 list option \<Rightarrow> bootuf2_FILE" where
  "mk_file n c = \<lparr> Name = n, Content = c, FileSize = (case c of None \<Rightarrow> 0 | Some b \<Rightarrow> of_nat (length b)), ClusterBeg = 0, ClusterEnd = 0 \<rparr>"

text \<open>The static table \<open>files\<close>; the name of the first file is the family number in hexadecimal.\<close>

definition initial_files :: "bootuf2_FILE list" where
  "initial_files = [mk_file ''0A4D5048ID '' None, mk_file ''INFO_UF2TXT'' None,
     mk_file ''INDEX   HTM'' (Some (bytes_of (location_page ''https://github.com/cherry-embedded/CherryUSB''))),
     mk_file ''JOIN    HTM'' (Some (bytes_of (location_page [])))]"

abbreviation (input) FILE_INFO_INDEX :: nat where "FILE_INFO_INDEX \<equiv> 1"

definition bootuf2_SetReason :: "bool \<Rightarrow> string \<Rightarrow> bootuf2_data \<Rightarrow> bootuf2_data" where
  "bootuf2_SetReason alloc reason ctx =
   (let text = replaceSubstring alloc (bytes_of file_INFO) (bytes_of DEFAULT_REASON) (bytes_of reason)
    in ctx\<lparr> files := (files ctx)[FILE_INFO_INDEX := (files ctx ! FILE_INFO_INDEX)\<lparr> Content := Some text, FileSize := of_nat (length text) \<rparr>] \<rparr>)"

definition bootuf2_init :: "bool \<Rightarrow> bootuf2_data \<Rightarrow> bootuf2_data" where
  "bootuf2_init alloc ctx =
   (let ctx = (if Content (files ctx ! FILE_INFO_INDEX) = None then bootuf2_SetReason alloc ''DEFAULT_REASON'' ctx else ctx);
        ctx = fcalculate_cluster ctx
    in ctx\<lparr> cached_bytes := 0, cached_address := 0 \<rparr>)"

subsection \<open>Sectors read\<close>

record build_time =
  DOS_DATE :: u16
  DOS_TIME :: u16
  TENTH :: u8

text \<open>The boot record \<open>bootuf2_DBR\<close>, 62 bytes.\<close>

definition bootuf2_DBR :: "u8 list" where
  "bootuf2_DBR = [0xEB, 0x3C, 0x90] @ bytes_of ''UF2 UF2 '' @ le16 512 @ [2] @ le16 1 @ [2] @ le16 64 @ le16 0 @ [0xF8] @ le16 256 @
     le16 1 @ le16 1 @ le32 0 @ le32 131553 @ [0x80] @ [0] @ [0x29] @ le32 0x00420042 @ bytes_of ''CHERRYUF2'' @ [0, 0] @ bytes_of ''FAT16   ''"

definition dbr_sector :: "u8 list" where
  "dbr_sector = (blit (replicate BYTES_PER_SECTOR 0) 0 bootuf2_DBR)[510 := 0x55, 511 := 0xaa]"

text \<open>The loop that ends the chain of each file.\<close>

definition end_chain :: "u16 \<Rightarrow> bootuf2_FILE \<Rightarrow> u16 list \<Rightarrow> u16 list" where
  "end_chain first f buff16 =
   (if ClusterEnd f \<ge> first
    then let idx = unat (ClusterEnd f - first) in if idx < FAT16_PER_SECTOR then buff16[idx := 0xffff] else buff16
    else buff16)"

definition fat_sector :: "bootuf2_FILE list \<Rightarrow> nat \<Rightarrow> u16 list" where
  "fat_sector fs sector_relative =
   (let rel = sector_relative mod SECTORS_PER_FAT;
        cluster_unused = ClusterEnd (last fs) + 1;
        first = of_nat (rel * FAT16_PER_SECTOR) :: u16;
        buff16 = map (\<lambda>i. let c = first + of_nat i in if c \<ge> cluster_unused then 0 else c + 1) [0..<FAT16_PER_SECTOR];
        buff16 = (if rel = 0 then buff16[0 := 0xfff8, 1 := 0xffff] else buff16)
    in fold (end_chain first) fs buff16)"

definition dir_entry :: "build_time \<Rightarrow> bootuf2_FILE \<Rightarrow> u8 list" where
  "dir_entry tm f = fname_copy (bytes_of (Name f)) 11 @ [0x05, 0, TENTH tm] @ le16 (DOS_TIME tm) @ le16 (DOS_DATE tm) @ le16 (DOS_DATE tm) @
     le16 0 @ le16 (DOS_TIME tm) @ le16 (DOS_DATE tm) @ le16 (ClusterBeg f) @ le32 (FileSize f)"

definition label_entry :: "u8 list" where
  "label_entry = fname_copy (bytes_of ''CHERRYUF2'') 11 @ [0x28] @ replicate 20 0"

text \<open>The entries of a sector of the root directory; an empty file other than the first leaves a gap.\<close>

definition root_entries :: "build_time \<Rightarrow> bootuf2_FILE list \<Rightarrow> nat \<Rightarrow> u8 list" where
  "root_entries tm fs rel =
   (let file_index_first = (if rel = 0 then 0 else rel * ENTRY_PER_SECTOR - 1)
    in (if rel = 0 then label_entry else []) @
       concat (map (\<lambda>idx. if FileSize (fs ! idx) = 0 \<and> idx \<noteq> 0 then replicate 32 0 else dir_entry tm (fs ! idx))
         [file_index_first..<length fs]))"

definition data_sector :: "bootuf2_FILE list \<Rightarrow> nat \<Rightarrow> u8 list" where
  "data_sector fs rel =
   (case ffind_by_cluster fs (of_nat (2 + rel div SECTORS_PER_CLUSTER)) of
      None \<Rightarrow> []
    | Some fid \<Rightarrow>
        let f = fs ! fid;
            sector_relative_file = of_nat rel - (ucast (ClusterBeg f) - 2) * of_nat SECTORS_PER_CLUSTER :: u32;
            fcontent_offset = sector_relative_file * of_nat BYTES_PER_SECTOR
        in if FileSize f > fcontent_offset
           then take (min (unat (FileSize f - fcontent_offset)) BYTES_PER_SECTOR) (drop (unat fcontent_offset) (the (Content f)))
           else [])"

text \<open>A sector is cleared, then filled from its start.\<close>

definition read_one :: "build_time \<Rightarrow> bootuf2_FILE list \<Rightarrow> u32 \<Rightarrow> u8 list" where
  "read_one tm fs start_sector =
   (let s = unat start_sector; zero = replicate BYTES_PER_SECTOR (0 :: u8) in
    if s = 0 then dbr_sector
    else if s < SECTOR_FAT_END then concat (map le16 (fat_sector fs (s - SECTOR_RSVD_END)))
    else if s < SECTOR_ROOT_END then blit zero 0 (root_entries tm fs (s - SECTOR_FAT_END))
    else if s < SECTOR_DATA_END then blit zero 0 (data_sector fs (s - SECTOR_ROOT_END))
    else zero)"

fun boot2uf2_read_sector :: "build_time \<Rightarrow> bootuf2_FILE list \<Rightarrow> u32 \<Rightarrow> nat \<Rightarrow> u8 list" where
  "boot2uf2_read_sector tm fs start_sector 0 = []"
| "boot2uf2_read_sector tm fs start_sector (Suc sector_count) =
   read_one tm fs start_sector @ boot2uf2_read_sector tm fs (start_sector + 1) sector_count"

definition bootuf2_get_sector_size :: u16 where
  "bootuf2_get_sector_size = of_nat BYTES_PER_SECTOR"

definition bootuf2_get_sector_count :: u32 where
  "bootuf2_get_sector_count = of_nat SECTOR_DATA_END"

subsection \<open>Clusters\<close>

lemma unat_up: "unat (ucast (x :: u16) :: u32) = unat x"
  by transfer (simp add: take_bit_take_bit min_def)

lemma down_of_nat: "ucast (of_nat n :: u32) = (of_nat n :: u16)"
  by (rule bit_word_eqI) (auto simp: bit_simps of_nat_take_bit)

definition clusters :: "bootuf2_FILE \<Rightarrow> nat" where
  "clusters f = (unat (FileSize f) + 1023) div 1024"

definition start_cluster :: "bootuf2_FILE list \<Rightarrow> nat \<Rightarrow> nat" where
  "start_cluster fs i = sum_list (map clusters (take i fs))"

lemma divceil: "unat (DIVCEIL v 1024) = (unat v + 1023) div 1024"
proof -
  define q r where "q = unat v div 1024" and "r = unat v mod 1024"
  have v: "unat v = 1024 * q + r" "r < 1024" by (simp_all add: q_def r_def)
  have "(1024 * q + r + 1023) div 1024 = q + (r + 1023) div 1024"
    using div_mult_self1 [of 1024 "r + 1023" q] by (simp add: algebra_simps)
  moreover have "(r + 1023) div 1024 = (if r = 0 then 0 else 1)" using v(2) by (simp add: div_nat_eqI)
  ultimately have c: "(unat v + 1023) div 1024 = q + (if r = 0 then 0 else 1)" using v(1) by simp
  have m: "v mod 1024 \<noteq> 0 \<longleftrightarrow> r \<noteq> 0" by (simp add: r_def unat_mod flip: unat_eq_0)
  have d: "unat (v div 1024) = q" by (simp add: unat_div q_def)
  have "q \<le> unat v" by (simp add: q_def)
  moreover have "q < 2 ^ 22" using unat_u32_bound [of v] by (simp add: q_def div_less_iff_less_mult)
  ultimately have "unat (v div 1024 + 1) = q + 1" using unat_plus_no_wrap [of "v div 1024" 1] d by simp
  then show ?thesis unfolding c DIVCEIL_def using m d by simp
qed

lemma start_cluster_Suc: "i < length fs \<Longrightarrow> start_cluster fs (Suc i) = start_cluster fs i + clusters (fs ! i)"
  by (simp add: start_cluster_def take_Suc_conv_app_nth)

lemma start_cluster_mono: "i \<le> j \<Longrightarrow> start_cluster fs i \<le> start_cluster fs j"
proof -
  assume "i \<le> j"
  then have "take j fs = take i fs @ take (j - i) (drop i fs)" by (metis le_add_diff_inverse take_add)
  then show ?thesis by (simp add: start_cluster_def)
qed

lemma start_cluster_total: "i \<le> length fs \<Longrightarrow> start_cluster fs i \<le> sum_list (map clusters fs)"
  using start_cluster_mono [of i "length fs" fs] by (simp add: start_cluster_def)

lemma assign_clusters_step:
  assumes "1 \<le> unat beg" "unat (beg :: u16) + clusters f < 65536"
  shows "unat (ucast (- 1 + ucast beg + DIVCEIL (FileSize f) 1024 :: u32) :: u16) = unat beg + clusters f - 1"
    and "unat ((ucast (- 1 + ucast beg + DIVCEIL (FileSize f) 1024 :: u32) :: u16) + 1) = unat beg + clusters f"
proof -
  let ?n = "unat beg + clusters f - 1"
  have d: "unat (DIVCEIL (FileSize f) 1024) = clusters f" by (simp add: divceil clusters_def)
  have b: "unat (ucast beg :: u32) = unat beg" by (rule unat_up)
  have "- 1 + ucast beg + DIVCEIL (FileSize f) 1024 = (of_nat ?n :: u32)"
    using word_of_unat [OF d] word_of_unat [OF b] assms(1) by (simp add: of_nat_diff)
  then have e: "ucast (- 1 + ucast beg + DIVCEIL (FileSize f) 1024 :: u32) = (of_nat ?n :: u16)"
    by (simp only: down_of_nat)
  show "unat (ucast (- 1 + ucast beg + DIVCEIL (FileSize f) 1024 :: u32) :: u16) = ?n"
    unfolding e using assms by (subst unsigned_of_nat) (simp add: take_bit_nat_eq_self)
  have "of_nat ?n + 1 = (of_nat (unat beg + clusters f) :: u16)" using assms(1) by (simp add: of_nat_diff)
  then show "unat ((ucast (- 1 + ucast beg + DIVCEIL (FileSize f) 1024 :: u32) :: u16) + 1) = unat beg + clusters f"
    unfolding e using assms(2) by (simp only:) (simp add: unsigned_of_nat take_bit_nat_eq_self del: of_nat_add)
qed

lemma assign_clusters_nth:
  assumes "1 \<le> unat beg" "unat beg + sum_list (map clusters fs) < 65536" "i < length fs"
  shows "unat (ClusterBeg (assign_clusters beg fs ! i)) = unat beg + start_cluster fs i \<and>
    unat (ClusterEnd (assign_clusters beg fs ! i)) = unat beg + start_cluster fs (Suc i) - 1 \<and>
    Content (assign_clusters beg fs ! i) = Content (fs ! i) \<and> FileSize (assign_clusters beg fs ! i) = FileSize (fs ! i)"
  using assms
proof (induction fs arbitrary: beg i)
  case Nil
  then show ?case by simp
next
  case (Cons f fs)
  let ?e = "ucast (- 1 + ucast beg + DIVCEIL (FileSize f) 1024 :: u32) :: u16"
  have s: "unat ?e = unat beg + clusters f - 1" "unat (?e + 1) = unat beg + clusters f"
    using assign_clusters_step [of beg f] Cons.prems by simp_all
  show ?case
  proof (cases i)
    case 0
    then show ?thesis using s by (simp add: start_cluster_def Let_def)
  next
    case (Suc k)
    have "unat (?e + 1) + sum_list (map clusters fs) < 65536" "1 \<le> unat (?e + 1)" using s(2) Cons.prems by simp_all
    then show ?thesis using Cons.IH [of "?e + 1" k] Cons.prems(3) Suc s(2)
      by (simp add: start_cluster_def Let_def add.assoc)
  qed
qed

lemma length_assign [simp]: "length (assign_clusters beg fs) = length fs"
  by (induction fs arbitrary: beg) (simp_all add: Let_def)

lemma assign_name: "i < length fs \<Longrightarrow> Name (assign_clusters beg fs ! i) = Name (fs ! i)"
proof (induction fs arbitrary: beg i)
  case (Cons f fs)
  then show ?case by (cases i) (simp_all add: Let_def)
qed simp

subsection \<open>The allocation table\<close>

lemma length_end_chain [simp]: "length (end_chain first f b) = length b"
  by (simp add: end_chain_def Let_def)

lemma end_chain_nth:
  assumes "length b = 256" "k < 256" "unat (first :: u16) + 255 < 65536"
  shows "end_chain first f b ! k = (if unat (ClusterEnd f) = unat first + k then 0xffff else b ! k)"
proof (cases "ClusterEnd f \<ge> first")
  case True
  then have "unat (ClusterEnd f - first) = unat (ClusterEnd f) - unat first" "unat first \<le> unat (ClusterEnd f)"
    by (simp_all add: unat_minus_le word_le_nat_alt)
  then show ?thesis using True assms by (auto simp: end_chain_def Let_def)
next
  case False
  then show ?thesis by (auto simp: end_chain_def word_le_nat_alt)
qed

lemma fold_end_chain:
  assumes "length b = 256" "k < 256" "unat (first :: u16) + 255 < 65536"
  shows "fold (end_chain first) fs b ! k = (if \<exists>f\<in>set fs. unat (ClusterEnd f) = unat first + k then 0xffff else b ! k)"
  using assms
proof (induction fs arbitrary: b)
  case (Cons f fs)
  then show ?case using end_chain_nth [OF Cons.prems(1-3), of f] by auto
qed simp

lemma length_fat_sector [simp]: "length (fat_sector fs rel) = 256"
proof -
  have "length (fold (end_chain first) fs b) = length b" for first b
    by (induction fs arbitrary: b) simp_all
  then show ?thesis by (simp add: fat_sector_def Let_def)
qed

lemma fat_entry:
  assumes "2 \<le> c" "c < 65536" "fs \<noteq> []" "unat (ClusterEnd (last fs)) < 65535"
  shows "fat_sector fs (256 * t + c div 256) ! (c mod 256) =
    (if \<exists>f\<in>set fs. unat (ClusterEnd f) = c then 0xffff
     else if c \<le> unat (ClusterEnd (last fs)) then of_nat (Suc c) else 0)"
proof -
  define rel k where "rel = c div 256" and "k = c mod 256"
  have c: "c = rel * 256 + k" "k < 256" "rel < 256" using assms(2) by (simp_all add: rel_def k_def div_less_iff_less_mult)
  have r: "(256 * t + rel) mod 256 = rel" using c(3) by simp
  let ?first = "of_nat (rel * 256) :: u16"
  have u: "unat ?first = rel * 256" using c(3) by (simp add: unsigned_of_nat take_bit_nat_eq_self del: of_nat_mult)
  have uc: "unat (?first + of_nat k) = c"
    unfolding of_nat_add [symmetric] c(1) [symmetric] using assms(2) by (simp add: unsigned_of_nat take_bit_nat_eq_self)
  let ?unused = "ClusterEnd (last fs) + 1"
  have uu: "unat ?unused = unat (ClusterEnd (last fs)) + 1" using assms(4) by (simp add: unat_word_ariths)
  let ?b = "map (\<lambda>i. let c = ?first + of_nat i in if c \<ge> ?unused then 0 else c + 1) [0..<256]"
  let ?b' = "if rel = 0 then ?b[0 := 0xfff8, 1 := 0xffff] else ?b"
  have "?b ! k = (if ?first + of_nat k \<ge> ?unused then 0 else ?first + of_nat k + 1)" using c(2) by (simp add: Let_def)
  also have "\<dots> = (if c \<le> unat (ClusterEnd (last fs)) then of_nat (Suc c) else 0)"
    using uc uu word_of_unat16 [OF uc] by (simp add: word_le_nat_alt add.commute)
  finally have b: "?b ! k = (if c \<le> unat (ClusterEnd (last fs)) then of_nat (Suc c) else 0)" .
  have "?b' ! k = ?b ! k" using assms(1) c(1) by auto
  moreover have "fat_sector fs (256 * t + rel) = fold (end_chain ?first) fs ?b'"
    unfolding fat_sector_def r by (simp only: Let_def)
  moreover have "fold (end_chain ?first) fs ?b' ! k = (if \<exists>f\<in>set fs. unat (ClusterEnd f) = unat ?first + k then 0xffff else ?b' ! k)"
    using c(2,3) u by (intro fold_end_chain) auto
  ultimately show ?thesis using b c(1) u unfolding rel_def [symmetric] k_def [symmetric] by simp
qed

lemma le16_pair: "le16_at (concat (map le16 xs)) (2 * i) = xs ! i" if "i < length xs"
  using that
proof (induction xs arbitrary: i)
  case (Cons x xs)
  have x: "ucast (ucast x :: u8) OR push_bit 8 (ucast (ucast (drop_bit 8 x) :: u8)) = x"
    by (rule bit_word_eqI) (auto simp: bit_simps)
  show ?case
  proof (cases i)
    case 0
    then show ?thesis using x by (simp add: le16_at_def le16_def)
  next
    case (Suc k)
    then show ?thesis using Cons by (simp add: le16_at_def le16_def)
  qed
qed simp

subsection \<open>Files and their sectors\<close>

text \<open>The files after \<open>fcalculate_cluster\<close>.\<close>

lemma layout:
  assumes "sum_list (map clusters fs) \<le> 0xFFEE" "i < length fs"
  shows "unat (ClusterBeg (assign_clusters 2 fs ! i)) = 2 + start_cluster fs i"
    "unat (ClusterEnd (assign_clusters 2 fs ! i)) = 1 + start_cluster fs (Suc i)"
    "Content (assign_clusters 2 fs ! i) = Content (fs ! i)" "FileSize (assign_clusters 2 fs ! i) = FileSize (fs ! i)"
  using assign_clusters_nth [of 2 fs i] assms by simp_all

lemma chain_end:
  assumes "sum_list (map clusters fs) \<le> 0xFFEE" "i < length fs" "k < clusters (fs ! i)"
  shows "(\<exists>f\<in>set (assign_clusters 2 fs). unat (ClusterEnd f) = 2 + start_cluster fs i + k) \<longleftrightarrow> Suc k = clusters (fs ! i)"
proof
  assume "\<exists>f\<in>set (assign_clusters 2 fs). unat (ClusterEnd f) = 2 + start_cluster fs i + k"
  then obtain j where j: "j < length fs" "1 + start_cluster fs (Suc j) = 2 + start_cluster fs i + k"
    using layout(2) [OF assms(1)] by (auto simp: in_set_conv_nth)
  have "i \<le> j"
  proof (rule ccontr)
    assume "\<not> i \<le> j"
    then show False using start_cluster_mono [of "Suc j" i fs] j(2) by simp
  qed
  then show "Suc k = clusters (fs ! i)"
    using start_cluster_mono [of "Suc i" "Suc j" fs] start_cluster_Suc [OF assms(2)] j(2) assms(3) by simp
next
  assume "Suc k = clusters (fs ! i)"
  then show "\<exists>f\<in>set (assign_clusters 2 fs). unat (ClusterEnd f) = 2 + start_cluster fs i + k"
    using layout(2) [OF assms(1,2)] start_cluster_Suc [OF assms(2)] assms(2) by (intro bexI [of _ "assign_clusters 2 fs ! i"]) auto
qed

lemma find_cluster:
  assumes "sum_list (map clusters fs) \<le> 0xFFEE" "i < length fs" "k < clusters (fs ! i)"
  shows "ffind_by_cluster (assign_clusters 2 fs) (of_nat (2 + start_cluster fs i + k)) = Some i"
proof -
  let ?c = "2 + start_cluster fs i + k"
  have "start_cluster fs (Suc i) \<le> 0xFFEE" using start_cluster_total [of "Suc i" fs] assms by simp
  then have lt: "?c < 0xFFF0" using start_cluster_Suc [OF assms(2)] assms(3) by simp
  then have u: "unat (of_nat ?c :: u32) = ?c" by (intro unat_of_nat32) simp
  define P where "P f \<longleftrightarrow> ucast (ClusterBeg f) \<le> (of_nat ?c :: u32) \<and> (of_nat ?c :: u32) \<le> ucast (ClusterEnd f)" for f :: bootuf2_FILE
  have P: "P (assign_clusters 2 fs ! j) \<longleftrightarrow> 2 + start_cluster fs j \<le> ?c \<and> ?c \<le> 1 + start_cluster fs (Suc j)" if "j < length fs" for j
    unfolding P_def word_le_nat_alt u using layout(1,2) [OF assms(1) that] by (simp add: unat_up)
  have "P (assign_clusters 2 fs ! i)" using P [OF assms(2)] assms(3) start_cluster_Suc [OF assms(2)] by simp
  moreover have "\<not> P (assign_clusters 2 fs ! j)" if "j < i" for j
    using P [of j] start_cluster_mono [of "Suc j" i fs] that assms(2) by simp
  ultimately have "find_index P (assign_clusters 2 fs) = Some i" using assms(2) by (simp add: find_index_Some)
  moreover have "\<not> (of_nat ?c :: u32) \<ge> 0xFFF0" unfolding word_le_nat_alt u using lt by simp
  ultimately show ?thesis unfolding ffind_by_cluster_def P_def by simp
qed

lemma data_of_file:
  assumes "sum_list (map clusters fs) \<le> 0xFFEE" "i < length fs" "k < clusters (fs ! i)" "s < 2"
    and "Content (fs ! i) = Some b" "FileSize (fs ! i) = of_nat (length b)" "length b < 2 ^ 32"
  shows "data_sector (assign_clusters 2 fs) (2 * (start_cluster fs i + k) + s) = take 512 (drop (1024 * k + 512 * s) b)"
proof -
  let ?ds = "assign_clusters 2 fs" and ?rel = "2 * (start_cluster fs i + k) + s" and ?o = "1024 * k + 512 * s"
  have sb: "start_cluster fs (Suc i) \<le> 0xFFEE" using start_cluster_total [of "Suc i" fs] assms(1,2) by simp
  then have lt: "start_cluster fs i + k < 0xFFEE" using start_cluster_Suc [OF assms(2)] assms(3) by simp
  have "2 + ?rel div 2 = 2 + start_cluster fs i + k" using assms(4) by simp
  then have ff: "ffind_by_cluster ?ds (of_nat (2 + ?rel div 2)) = Some i" using find_cluster [OF assms(1-3)] by simp
  have fb: "unat (FileSize (?ds ! i)) = length b" using layout(4) [OF assms(1,2)] assms(6) unat_of_nat32 [OF assms(7)] by simp
  have beg: "(ucast (ClusterBeg (?ds ! i)) :: u32) = of_nat (2 + start_cluster fs i)"
    using layout(1) [OF assms(1,2)] unat_up [of "ClusterBeg (?ds ! i)"] word_of_unat by metis
  have "(of_nat ?rel - (ucast (ClusterBeg (?ds ! i)) - 2) * of_nat 2 :: u32) = of_nat (2 * k + s)" unfolding beg by simp
  then have off: "((of_nat ?rel - (ucast (ClusterBeg (?ds ! i)) - 2) * of_nat 2) * of_nat 512 :: u32) = of_nat ?o"
    by (simp only:) (simp add: algebra_simps)
  have uo: "unat (of_nat ?o :: u32) = ?o" using lt assms(4) by (intro unat_of_nat32) simp
  have c: "Content (?ds ! i) = Some b" using layout(3) [OF assms(1,2)] assms(5) by simp
  have D: "data_sector ?ds ?rel = (if FileSize (?ds ! i) > of_nat ?o
      then take (min (unat (FileSize (?ds ! i) - of_nat ?o)) 512) (drop ?o b) else [])"
    unfolding data_sector_def ff option.case Let_def off uo c option.sel by (rule refl)
  have lb: "FileSize (?ds ! i) > of_nat ?o \<longleftrightarrow> ?o < length b" unfolding word_less_nat_alt uo fb by (rule refl)
  show ?thesis
  proof (cases "?o < length b")
    case True
    then have "unat (FileSize (?ds ! i) - of_nat ?o) = length b - ?o"
      using unat_minus_le [of "of_nat ?o" "FileSize (?ds ! i)"] lb unfolding uo fb by (meson less_imp_le)
    then show ?thesis using D lb True by (auto simp: min_def)
  next
    case False
    then show ?thesis using D lb by simp
  qed
qed

subsection \<open>Properties\<close>

text \<open>
  For files that fit, after the clusters were assigned, each cluster of a
  file is chained in both allocation tables to the next one, and the last one is marked as the end;
  and the two sectors read from a cluster are the bytes of the file at that place, filled up with zeros.
\<close>

lemma disk_sectors:
  assumes "sum_list (map clusters fs) \<le> 0xFFEE" "i < length fs" "k < clusters (fs ! i)"
    and "Content (fs ! i) = Some b" "FileSize (fs ! i) = of_nat (length b)" "length b < 2 ^ 32" "s < 2" "t < 2"
  shows "let ds = files (fcalculate_cluster (ctx\<lparr> files := fs \<rparr>)); c = unat (ClusterBeg (ds ! i)) + k in
     le16_at (read_one tm ds (of_nat (SECTOR_RSVD_END + (SECTORS_PER_FAT * t + c div 256)))) (2 * (c mod 256)) =
       (if Suc k < clusters (fs ! i) then of_nat (Suc c) else 0xffff) \<and>
     read_one tm ds (of_nat (SECTOR_ROOT_END + (2 * (c - 2) + s))) =
       blit (replicate BYTES_PER_SECTOR 0) 0 (take 512 (drop (1024 * k + 512 * s) b))"
proof -
  let ?ds = "assign_clusters 2 fs" and ?c = "2 + start_cluster fs i + k"
  have ds: "files (fcalculate_cluster (ctx\<lparr> files := fs \<rparr>)) = ?ds" by (simp add: fcalculate_cluster_def)
  have c: "unat (ClusterBeg (?ds ! i)) + k = ?c" using layout(1) [OF assms(1,2)] by simp
  have S: "start_cluster fs (Suc i) = start_cluster fs i + clusters (fs ! i)" by (rule start_cluster_Suc [OF assms(2)])
  have sb: "start_cluster fs (Suc i) \<le> start_cluster fs (length fs)" "start_cluster fs (length fs) \<le> 0xFFEE"
    using start_cluster_mono [of "Suc i" "length fs" fs] start_cluster_total [of "length fs" fs] assms(1,2) by simp_all
  have lt: "?c < 0xFFF0" "?c \<le> 1 + start_cluster fs (length fs)" using S sb assms(3) by simp_all
  have ne: "?ds \<noteq> []" using assms(2) by (metis length_assign length_greater_0_conv less_nat_zero_code list.size(3))
  have last: "unat (ClusterEnd (last ?ds)) = 1 + start_cluster fs (length fs)"
  proof -
    have "Suc (length fs - 1) = length fs" using assms(2) by simp
    then show ?thesis using layout(2) [OF assms(1), of "length fs - 1"] ne by (simp add: last_conv_nth)
  qed
  have q: "?c div 256 < 256" using lt by (simp add: div_less_iff_less_mult)
  have fs1: "unat (of_nat (1 + (256 * t + ?c div 256)) :: u32) = 1 + (256 * t + ?c div 256)"
    using q assms(8) by (intro unat_of_nat32) simp
  have fat: "read_one tm ?ds (of_nat (1 + (256 * t + ?c div 256))) = concat (map le16 (fat_sector ?ds (256 * t + ?c div 256)))"
    unfolding read_one_def Let_def fs1 using q assms(8) by simp
  have ent: "fat_sector ?ds (256 * t + ?c div 256) ! (?c mod 256) = (if Suc k < clusters (fs ! i) then of_nat (Suc ?c) else 0xffff)"
    using fat_entry [of ?c ?ds t] chain_end [OF assms(1-3)] lt last ne sb assms(3) by auto
  have s1: "unat (of_nat (517 + (2 * (?c - 2) + s)) :: u32) = 517 + (2 * (start_cluster fs i + k) + s)"
    using lt assms(7) by (subst unat_of_nat32) simp_all
  have dat: "read_one tm ?ds (of_nat (517 + (2 * (?c - 2) + s))) =
      blit (replicate 512 0) 0 (data_sector ?ds (2 * (start_cluster fs i + k) + s))"
    unfolding read_one_def Let_def s1 using lt assms(7) by simp
  show ?thesis unfolding Let_def ds c
    using fat ent dat data_of_file [OF assms(1-3,7,4-6)] le16_pair [of "?c mod 256" "fat_sector ?ds (256 * t + ?c div 256)"]
    by simp
qed

subsection \<open>Reading the volume\<close>

text \<open>
  A volume as a reader of FAT16 sees it, given its sectors \<open>R\<close>: the boot record says where the allocation table, the root directory and the data are, a
  directory entry gives the first cluster and the size, and the table gives the cluster that follows, up to an end mark. \<open>n\<close> bounds the number of clusters followed.
\<close>

definition fat_start :: "(nat \<Rightarrow> u8 list) \<Rightarrow> nat" where
  "fat_start R = unat (le16_at (R 0) 14)"

definition root_start :: "(nat \<Rightarrow> u8 list) \<Rightarrow> nat" where
  "root_start R = fat_start R + unat (R 0 ! 16) * unat (le16_at (R 0) 22)"

definition data_start :: "(nat \<Rightarrow> u8 list) \<Rightarrow> nat" where
  "data_start R = root_start R + unat (le16_at (R 0) 17) * 32 div unat (le16_at (R 0) 11)"

definition next_cluster :: "(nat \<Rightarrow> u8 list) \<Rightarrow> nat \<Rightarrow> nat" where
  "next_cluster R c = unat (le16_at (R (fat_start R + 2 * c div unat (le16_at (R 0) 11))) (2 * c mod unat (le16_at (R 0) 11)))"

definition cluster_bytes :: "(nat \<Rightarrow> u8 list) \<Rightarrow> nat \<Rightarrow> u8 list" where
  "cluster_bytes R c = concat (map (\<lambda>s. R (data_start R + unat (R 0 ! 13) * (c - 2) + s)) [0..<unat (R 0 ! 13)])"

fun follow_chain :: "(nat \<Rightarrow> u8 list) \<Rightarrow> nat \<Rightarrow> nat \<Rightarrow> u8 list" where
  "follow_chain R 0 c = []"
| "follow_chain R (Suc n) c = cluster_bytes R c @ (if 0xfff8 \<le> next_cluster R c then [] else follow_chain R n (next_cluster R c))"

definition entry_at :: "(nat \<Rightarrow> u8 list) \<Rightarrow> nat \<Rightarrow> u8 list" where
  "entry_at R j = take 32 (drop (32 * j) (R (root_start R)))"

definition fat_file :: "(nat \<Rightarrow> u8 list) \<Rightarrow> nat \<Rightarrow> u8 list" where
  "fat_file R j = (let e = entry_at R j in take (unat (le32_at e 28)) (follow_chain R 65536 (unat (le16_at e 26))))"

lemma dbr_layout:
  assumes "R 0 = dbr_sector"
  shows "le16_at (R 0) 11 = 512" "R 0 ! 13 = 2" "fat_start R = 1" "root_start R = 513" "data_start R = 517"
proof -
  have l: "length bootuf2_DBR = 62" by (simp add: bootuf2_DBR_def bytes_of_def le16_def le32_def)
  have d: "dbr_sector ! k = bootuf2_DBR ! k" if "k < 62" for k
    using that l by (simp add: dbr_sector_def nth_blit)
  show a: "le16_at (R 0) 11 = 512" "R 0 ! 13 = 2"
    unfolding assms le16_at_def by (simp_all add: d bootuf2_DBR_def bytes_of_def le16_def le32_def)
  show f: "fat_start R = 1" unfolding fat_start_def assms le16_at_def by (simp add: d bootuf2_DBR_def bytes_of_def le16_def le32_def)
  show r: "root_start R = 513" unfolding root_start_def f unfolding assms le16_at_def
    by (simp add: d bootuf2_DBR_def bytes_of_def le16_def le32_def push_bit_eq_mult)
  have "le16_at (R 0) 17 = 64" unfolding assms le16_at_def by (simp add: d bootuf2_DBR_def bytes_of_def le16_def le32_def)
  then show "data_start R = 517" unfolding data_start_def r a by simp
qed

lemma pad_sector: "length xs \<le> 512 \<Longrightarrow> blit (replicate 512 0) 0 xs = xs @ replicate (512 - length xs) 0"
  by (simp add: blit_def)

lemma nth_piece:
  assumes "\<forall>p\<in>set ps. length p = 32" "i < length ps"
  shows "take 32 (drop (32 * i) (concat ps @ r)) = ps ! i"
  using assms
proof (induction ps arbitrary: i)
  case (Cons p ps)
  show ?case
  proof (cases i)
    case (Suc k)
    then have "drop (32 * i) (concat (p # ps) @ r) = drop (32 * k) (concat ps @ r)" using Cons.prems(1) by simp
    then show ?thesis using Cons.IH [of k] Cons.prems Suc by simp
  qed (use Cons.prems in simp)
qed simp

lemma length_fname [simp]: "length (fname_copy s n) = n"
  by (induction s n rule: fname_copy.induct) simp_all

lemma length_dir_entry [simp]: "length (dir_entry tm f) = 32"
  by (simp add: dir_entry_def le16_def le32_def)

lemma dir_entry_fields:
  "le16_at (dir_entry tm f) 26 = ClusterBeg f" "le32_at (dir_entry tm f) 28 = FileSize f" "take 11 (dir_entry tm f) = fname_copy (bytes_of (Name f)) 11"
proof -
  let ?n = "fname_copy (bytes_of (Name f)) 11"
  define pre where "pre = ?n @ [0x05, 0, TENTH tm] @ le16 (DOS_TIME tm) @ le16 (DOS_DATE tm) @ le16 (DOS_DATE tm) @ le16 0 @ le16 (DOS_TIME tm) @ le16 (DOS_DATE tm)"
  have e: "dir_entry tm f = pre @ le16 (ClusterBeg f) @ le32 (FileSize f)" by (simp add: dir_entry_def pre_def)
  have l: "length pre = 26" by (simp add: pre_def le16_def)
  have "le16_at (pre @ le16 v @ r) 26 = le16_at (concat (map le16 [v])) (2 * 0)" for v r
    using l by (simp add: le16_at_def le16_def nth_append)
  then show "le16_at (dir_entry tm f) 26 = ClusterBeg f" unfolding e using le16_pair [of 0 "[ClusterBeg f]"] by simp
  show "le32_at (dir_entry tm f) 28 = FileSize f"
    by (rule le32_roundtrip) (simp_all add: e l seg_def le16_def le32_def)
  show "take 11 (dir_entry tm f) = ?n" by (simp add: dir_entry_def)
qed

text \<open>The entries of up to 15 files are in the first sector of the directory, behind the label.\<close>

lemma root_entry:
  assumes "length fs \<le> 15" "i < length fs" "R 0 = dbr_sector" "R 513 = read_one tm fs 513"
  shows "entry_at R (Suc i) = (if FileSize (fs ! i) = 0 \<and> i \<noteq> 0 then replicate 32 0 else dir_entry tm (fs ! i))"
proof -
  let ?g = "\<lambda>idx. if FileSize (fs ! idx) = 0 \<and> idx \<noteq> 0 then replicate 32 0 else dir_entry tm (fs ! idx)"
  define ps where "ps = label_entry # map ?g [0..<length fs]"
  have l: "\<forall>p\<in>set ps. length p = 32" by (auto simp: ps_def label_entry_def)
  have "length (concat qs) = 32 * length qs" if "\<forall>p\<in>set qs. length p = 32" for qs :: "u8 list list"
    using that by (induction qs) simp_all
  from this [OF l] have c: "length (concat ps) \<le> 512" using assms(1) by (simp add: ps_def)
  have r: "root_entries tm fs 0 = concat ps" by (simp add: root_entries_def ps_def)
  have "R 513 = concat ps @ replicate (512 - length (concat ps)) 0"
    unfolding assms(4) read_one_def Let_def using pad_sector [OF c] by (simp add: r)
  moreover have "Suc i < length ps" using assms(2) by (simp add: ps_def)
  ultimately have "entry_at R (Suc i) = ps ! Suc i"
    unfolding entry_at_def dbr_layout(4) [of R, OF assms(3)] using nth_piece [OF l] by (simp only:)
  then show ?thesis using assms(2) by (simp add: ps_def)
qed

text \<open>Following the chain from cluster \<open>k\<close> of a file gives the rest of the file.\<close>

lemma two_sectors:
  assumes "length d \<le> 1024"
  shows "take (length d) ((blit (replicate 512 0) 0 (take 512 d) @ blit (replicate 512 0) 0 (take 512 (drop 512 d))) @ r) = d"
proof (cases "length d \<le> 512")
  case True
  then show ?thesis by (simp add: pad_sector)
next
  case False
  then have "take (length d) (take 512 d @ drop 512 d @ x) = d" for x by (simp add: append_take_drop_id flip: append_assoc)
  then show ?thesis using False assms by (simp add: pad_sector)
qed

lemma chain_gives_rest:
  assumes n: "n = (length b + 1023) div 1024"
    and data: "\<And>k. k < n \<Longrightarrow> cluster_bytes R (c + k) = blit (replicate 512 0) 0 (take 512 (drop (1024 * k) b)) @ blit (replicate 512 0) 0 (take 512 (drop (1024 * k + 512) b))"
    and link: "\<And>k. k < n \<Longrightarrow> next_cluster R (c + k) = (if Suc k < n then c + Suc k else 0xffff)" and c: "c + n < 0xfff8"
  shows "k < n \<Longrightarrow> n - k \<le> m \<Longrightarrow> take (length b - 1024 * k) (follow_chain R m (c + k)) = drop (1024 * k) b"
proof (induction m arbitrary: k)
  case (Suc m)
  let ?d = "drop (1024 * k) b"
  let ?cl = "blit (replicate 512 0) 0 (take 512 ?d) @ blit (replicate 512 0) 0 (take 512 (drop 512 ?d))"
  have cl: "cluster_bytes R (c + k) = ?cl" using data [OF Suc.prems(1)] by (simp add: add.commute)
  show ?case
  proof (cases "Suc k < n")
    case True
    then have "Suc (Suc k) * 1024 \<le> length b + 1023" unfolding n by (simp add: Suc_le_eq [symmetric] less_eq_div_iff_mult_less_eq)
    then have full: "1024 * Suc k \<le> length b" by simp
    have f: "follow_chain R (Suc m) (c + k) = ?cl @ follow_chain R m (c + Suc k)" using link [OF Suc.prems(1)] True c cl by simp
    have l: "length (take 512 ?d) = 512" "length (take 512 (drop 512 ?d)) = 512" using full by simp_all
    have "?cl = take 512 ?d @ take 512 (drop 512 ?d)" using l by (simp add: pad_sector)
    also have "\<dots> = take 1024 ?d" using take_add [of 512 512 ?d] by simp
    finally have full_cl: "?cl = take 1024 ?d" .
    have "take (length b - 1024 * Suc k) (follow_chain R m (c + Suc k)) = drop (1024 * Suc k) b" using Suc.IH [of "Suc k"] True Suc.prems by simp
    moreover have "length b - 1024 * k - length (take 1024 ?d) = length b - 1024 * Suc k" "length (take 1024 ?d) \<le> length b - 1024 * k" using full by simp_all
    moreover have "take (length b - 1024 * k) (take 1024 ?d) = take 1024 ?d" using full by simp
    ultimately have "take (length b - 1024 * k) (?cl @ follow_chain R m (c + Suc k)) = take 1024 ?d @ drop (1024 * Suc k) b"
      unfolding full_cl take_append by (simp only:)
    also have "drop (1024 * Suc k) b = drop 1024 ?d" by (simp add: add.commute)
    finally show ?thesis unfolding f by (simp only: append_take_drop_id)
  next
    case False
    then have nk: "n = Suc k" using Suc.prems(1) by simp
    have "length b + 1023 < 1024 + n * 1024" unfolding n by (rule dividend_less_div_times) simp
    then have "length ?d \<le> 1024" using nk by simp
    from two_sectors [OF this, of "[]"] show ?thesis using False link [OF Suc.prems(1)] cl by simp
  qed
qed simp

lemma fname_full: "length xs = n \<Longrightarrow> 0 \<notin> set xs \<Longrightarrow> fname_copy xs n = xs"
  by (induction xs n rule: fname_copy.induct) auto

text \<open>
  C18: The volume holds its files. For up to 15 files that fit, after the clusters were assigned, a reader of FAT16 that takes the layout from the boot record and follows the entry in
  the root directory and then the chain in the allocation table, through the sectors read from the disk, gets exactly the contents of each file, and finds its name in the entry
  of a file that is not empty. The second allocation table is equal to the first.
\<close>

theorem disk_serves_files:
  assumes fit: "sum_list (map clusters fs) \<le> 0xFFEE" "length fs \<le> 15" "i < length fs"
    and f: "Content (fs ! i) = Some b" "FileSize (fs ! i) = of_nat (length b)" "length b < 2 ^ 32"
  shows "let ds = files (fcalculate_cluster (ctx\<lparr> files := fs \<rparr>)); R = (\<lambda>n. boot2uf2_read_sector tm ds (of_nat n) 1) in
     fat_file R (Suc i) = b \<and>
     (b \<noteq> [] \<and> length (Name (fs ! i)) = 11 \<and> 0 \<notin> set (bytes_of (Name (fs ! i))) \<longrightarrow> take 11 (entry_at R (Suc i)) = bytes_of (Name (fs ! i))) \<and>
     (\<forall>n<256. R (257 + n) = R (1 + n))"
proof -
  let ?ds = "assign_clusters 2 fs"
  have ds: "files (fcalculate_cluster (ctx\<lparr> files := fs \<rparr>)) = ?ds" by (simp add: fcalculate_cluster_def)
  define R where "R n = boot2uf2_read_sector tm ?ds (of_nat n) 1" for n
  have R: "R n = read_one tm ?ds (of_nat n)" for n by (simp add: R_def)
  have R0: "R 0 = dbr_sector" by (simp add: R read_one_def)
  note L = dbr_layout [of R, OF R0]
  have u: "unat (FileSize (fs ! i)) = length b" using f(2,3) by (simp add: unat_of_nat32)
  have n: "clusters (fs ! i) = (length b + 1023) div 1024" by (simp add: clusters_def u)
  note lay = layout [OF fit(1,3)]
  let ?c = "2 + start_cluster fs i"
  have e: "entry_at R (Suc i) = (if b = [] \<and> i \<noteq> 0 then replicate 32 0 else dir_entry tm (?ds ! i))"
  proof -
    have "R 513 = read_one tm ?ds 513" by (simp add: R)
    moreover have "FileSize (?ds ! i) = 0 \<longleftrightarrow> b = []" using u lay(4) by (metis length_0_conv unat_eq_zero)
    ultimately show ?thesis using root_entry [of ?ds i R tm] fit(2,3) R0 by simp
  qed
  have sect: "le16_at (R (1 + (256 * t + (?c + k) div 256))) (2 * ((?c + k) mod 256)) = (if Suc k < clusters (fs ! i) then of_nat (Suc (?c + k)) else 0xffff)"
    "R (517 + (2 * (?c + k - 2) + s)) = blit (replicate 512 0) 0 (take 512 (drop (1024 * k + 512 * s) b))"
    if "k < clusters (fs ! i)" "s < 2" "t < 2" for k s t
    using disk_sectors [OF fit(1,3) that(1) f that(2,3), of ctx tm] unfolding ds Let_def lay(1) R by simp_all
  have c: "?c + clusters (fs ! i) \<le> 0xFFF0"
    using start_cluster_total [of "Suc i" fs] start_cluster_Suc [OF fit(3)] fit(1,3) by simp
  have data: "cluster_bytes R (?c + k) = blit (replicate 512 0) 0 (take 512 (drop (1024 * k) b)) @ blit (replicate 512 0) 0 (take 512 (drop (1024 * k + 512) b))"
    if "k < clusters (fs ! i)" for k
    using sect(2) [OF that, of 0 0] sect(2) [OF that, of 1 0] by (simp add: cluster_bytes_def L upt_rec)
  have link: "next_cluster R (?c + k) = (if Suc k < clusters (fs ! i) then ?c + Suc k else 0xffff)" if "k < clusters (fs ! i)" for k
  proof -
    have d: "2 * x div 512 = x div 256" "2 * x mod 512 = 2 * (x mod 256)" for x :: nat
      using div_mult_mult1 [of 2 x 256] mult_mod_right [of 2 x 256] by simp_all
    have v: "unat (if Suc k < clusters (fs ! i) then of_nat (Suc (?c + k)) else 0xffff :: u16) = (if Suc k < clusters (fs ! i) then ?c + Suc k else 0xffff)"
      using c that by (simp add: unsigned_of_nat take_bit_nat_eq_self del: of_nat_Suc)
    have z: "1 + (256 * 0 + (?c + k) div 256) = 1 + (?c + k) div 256" by simp
    have m: "unat (512 :: u16) = 512" by simp
    have "le16_at (R (1 + (?c + k) div 256)) (2 * ((?c + k) mod 256)) = (if Suc k < clusters (fs ! i) then of_nat (Suc (?c + k)) else 0xffff)"
      using sect(1) [OF that, of 0 0] unfolding z by simp
    then show ?thesis unfolding next_cluster_def L m d by (simp only: v)
  qed
  have "fat_file R (Suc i) = b"
  proof (cases "b = []")
    case True
    have "le32_at (replicate 32 0) 28 = 0" by (simp add: le32_at_def)
    then have "unat (le32_at (entry_at R (Suc i)) 28) = 0" using True e u lay(4) by (auto simp: dir_entry_fields)
    then show ?thesis using True by (simp add: fat_file_def Let_def)
  next
    case False
    then have "0 < clusters (fs ! i)" unfolding n by (simp add: div_greater_zero_iff Suc_le_eq)
    then have "take (length b - 1024 * 0) (follow_chain R 65536 (?c + 0)) = drop (1024 * 0) b"
      using c by (intro chain_gives_rest [OF n data link]) simp_all
    then show ?thesis using False e lay(1,4) u by (simp add: fat_file_def dir_entry_fields Let_def)
  qed
  moreover have "take 11 (entry_at R (Suc i)) = bytes_of (Name (fs ! i))" if "b \<noteq> [] \<and> length (Name (fs ! i)) = 11 \<and> 0 \<notin> set (bytes_of (Name (fs ! i)))"
  proof -
    have "Name (?ds ! i) = Name (fs ! i)" by (rule assign_name [OF fit(3)])
    then show ?thesis using that e fname_full [of "bytes_of (Name (fs ! i))" 11] by (simp add: dir_entry_fields bytes_of_def)
  qed
  moreover have "R (257 + k) = R (1 + k)" if "k < 256" for k
  proof -
    have "unat (of_nat (257 + k) :: u32) = 257 + k" "unat (of_nat (1 + k) :: u32) = 1 + k" using that by (intro unat_of_nat32, simp)+
    then show ?thesis unfolding R read_one_def Let_def using that by (simp add: fat_sector_def)
  qed
  ultimately show ?thesis unfolding ds Let_def R_def [symmetric] by blast
qed

theorem disk_serves_files_witness:
  "let ds = files (fcalculate_cluster (sample_disk\<lparr> files := [mk_file ''ONE     TXT'' (Some (replicate 1500 5)), mk_file ''TWO     TXT'' (Some [1, 2, 3])] \<rparr>));
       R = (\<lambda>n. boot2uf2_read_sector \<lparr> DOS_DATE = 0, DOS_TIME = 0, TENTH = 0 \<rparr> ds (of_nat n) 1) in
   fat_file R 2 = [1, 2, 3]"
proof -
  let ?fs = "[mk_file ''ONE     TXT'' (Some (replicate 1500 5)), mk_file ''TWO     TXT'' (Some [1, 2, 3])]"
  have "sum_list (map clusters ?fs) \<le> 0xFFEE" by (simp add: clusters_def mk_file_def)
  from disk_serves_files [OF this, of 1 "[1, 2, 3]" sample_disk "\<lparr> DOS_DATE = 0, DOS_TIME = 0, TENTH = 0 \<rparr>"]
  have "fat_file (\<lambda>n. boot2uf2_read_sector \<lparr> DOS_DATE = 0, DOS_TIME = 0, TENTH = 0 \<rparr> (files (fcalculate_cluster (sample_disk\<lparr> files := ?fs \<rparr>))) (of_nat n) 1)
      (Suc 1) = [1, 2, 3]" by (simp add: mk_file_def Let_def)
  then show ?thesis unfolding Let_def by (simp only: Suc_1)
qed

end
