(* ===== verification/Boot_Main.thy ===== *)
theory Boot_Main
  imports Uf2_Disk
begin

text \<open>
  The bootloader's decisions: bootloader/src/bl_state.c (the counter of failed starts and the flag that keeps the
  bootloader in UF2 mode, in a key-value store), the USB callbacks of bootloader/msc_bootuf2.c, and
  bootloader/src/main.c. The store is FlashDB, a library the code only calls: a parameter (\<open>kvdb\<close>) whose
  documented behaviour is \<open>kv_ok\<close>: \<open>'d\<close> is what the store keeps in its partition, so opening it does not
  change what a key holds, and a store operation that succeeds is what later reads see. Clock, console, LED, watchdog and logging calls have no effect on
  the decisions and are left out.
\<close>

record 'd kvdb =
  kvdb_init :: "'d \<Rightarrow> bool \<times> 'd"
  kv_get :: "string \<Rightarrow> u32 \<Rightarrow> 'd \<Rightarrow> nat \<times> u32"
  kv_set :: "string \<Rightarrow> u32 \<Rightarrow> 'd \<Rightarrow> bool \<times> 'd"

record 'd bl_state =
  state_ready :: bool
  state_db :: 'd

abbreviation (input) STATE_KEY_FAIL_COUNT :: string where "STATE_KEY_FAIL_COUNT \<equiv> ''bl.fail_count''"
abbreviation (input) STATE_KEY_FORCE_BL :: string where "STATE_KEY_FORCE_BL \<equiv> ''bl.force_bootloader''"
abbreviation (input) BL_FAIL_LIMIT :: u32 where "BL_FAIL_LIMIT \<equiv> 5"
abbreviation (input) UINT32_MAX :: u32 where "UINT32_MAX \<equiv> 0xffffffff"
abbreviation (input) ppor_reset_wdog0 :: u32 where "ppor_reset_wdog0 \<equiv> 0x10000"

subsection \<open>The state kept between starts\<close>

text \<open>\<open>kv_get\<close> gives the number of bytes read and what the buffer then holds.\<close>

definition get_u32 :: "'d kvdb \<Rightarrow> string \<Rightarrow> u32 \<Rightarrow> 'd bl_state \<Rightarrow> bool \<times> u32" where
  "get_u32 K key val st = (case kv_get K key val (state_db st) of (got, v) \<Rightarrow> (got = 4, v))"

definition set_u32 :: "'d kvdb \<Rightarrow> string \<Rightarrow> u32 \<Rightarrow> 'd bl_state \<Rightarrow> bool \<times> 'd bl_state" where
  "set_u32 K key val st = (case kv_set K key val (state_db st) of (ok, db) \<Rightarrow> (ok, st\<lparr> state_db := db \<rparr>))"

definition bl_state_init :: "'d kvdb \<Rightarrow> 'd bl_state \<Rightarrow> bool \<times> 'd bl_state" where
  "bl_state_init K st =
   (case kvdb_init K (state_db st) of
      (ok, db) \<Rightarrow> if \<not> ok then (False, st\<lparr> state_db := db \<rparr>) else (True, st\<lparr> state_db := db, state_ready := True \<rparr>))"

text \<open>The result, what is stored in \<open>*fail_count\<close>, and the state.\<close>

definition bl_state_update_for_reset :: "'d kvdb \<Rightarrow> u32 \<Rightarrow> 'd bl_state \<Rightarrow> bool \<times> u32 option \<times> 'd bl_state" where
  "bl_state_update_for_reset K reset_status st =
   (if \<not> state_ready st then (False, None, st)
    else
      let count = (if reset_status AND ppor_reset_wdog0 \<noteq> 0
                   then let c = snd (get_u32 K STATE_KEY_FAIL_COUNT 0 st) in if c < UINT32_MAX then c + 1 else c
                   else 0);
          (ok, st) = set_u32 K STATE_KEY_FAIL_COUNT count st
      in if \<not> ok then (False, None, st)
         else if count \<ge> BL_FAIL_LIMIT
         then (let (ok, st) = set_u32 K STATE_KEY_FORCE_BL 1 st
               in if \<not> ok then (False, None, st) else (True, Some count, st))
         else (True, Some count, st))"

definition bl_state_should_stay :: "'d kvdb \<Rightarrow> 'd bl_state \<Rightarrow> bool \<times> 'd bl_state" where
  "bl_state_should_stay K st =
   (if \<not> state_ready st then (False, st)
    else
      let (got, force) = get_u32 K STATE_KEY_FORCE_BL 0 st;
          stay = got \<and> force \<noteq> 0
      in if stay then (True, snd (set_u32 K STATE_KEY_FORCE_BL 0 st)) else (False, st))"

definition bl_state_clear_after_update :: "'d kvdb \<Rightarrow> 'd bl_state \<Rightarrow> 'd bl_state" where
  "bl_state_clear_after_update K st =
   (if state_ready st then snd (set_u32 K STATE_KEY_FORCE_BL 0 (snd (set_u32 K STATE_KEY_FAIL_COUNT 0 st))) else st)"

subsection \<open>The start\<close>

text \<open>\<open>None\<close> is the failed assertion of \<open>fal_partition_find\<close>; \<open>word_at\<close> is a 32-bit read of the address space.\<close>

definition app_valid :: "(u32 \<Rightarrow> u32) \<Rightarrow> 'h fal \<Rightarrow> bool option" where
  "app_valid word_at fal =
   (case fal_partition_find ''app'' fal of
      None \<Rightarrow> None
    | Some None \<Rightarrow> Some False
    | Some (Some app) \<Rightarrow> Some (word_at (FLASH_BASE + part_offset (partition_table fal ! app)) = CONFIG_BOOTUF2_FAMILYID))"

datatype boot_outcome = Jump u32 | Uf2_Mode | Aborted

definition jump_to_app :: "'h fal \<Rightarrow> boot_outcome" where
  "jump_to_app fal =
   (case fal_partition_find ''app'' fal of
      None \<Rightarrow> Aborted
    | Some None \<Rightarrow> Jump (0 + 4)
    | Some (Some app) \<Rightarrow> Jump (FLASH_BASE + part_offset (partition_table fal ! app) + 4))"

text \<open>\<open>main\<close> up to the jump or the USB loop, with the flash layer initialised; the conditions are evaluated in order, as in the code.\<close>

definition boot_main :: "'d kvdb \<Rightarrow> (u32 \<Rightarrow> u32) \<Rightarrow> 'h fal \<Rightarrow> u32 \<Rightarrow> 'd bl_state \<Rightarrow> boot_outcome \<times> 'd bl_state" where
  "boot_main K word_at fal reset_flags st =
   (let (init_ok, st) = bl_state_init K st;
        (state_ok, st) = (if init_ok then (case bl_state_update_for_reset K reset_flags st of (ok, _, st) \<Rightarrow> (ok, st)) else (False, st))
    in if \<not> state_ok then (Uf2_Mode, st)
       else
         let (stay, st) = bl_state_should_stay K st
         in if stay then (Uf2_Mode, st)
            else case app_valid word_at fal of
                   None \<Rightarrow> (Aborted, st)
                 | Some False \<Rightarrow> (Uf2_Mode, st)
                 | Some True \<Rightarrow> (jump_to_app fal, st))"

text \<open>A round of the endless loop: whether the device is reset, and the disk.\<close>

definition main_loop_round :: "'h flash_writer \<Rightarrow> bootuf2_data \<times> 'h \<Rightarrow> (bool \<times> bootuf2_data \<times> 'h) option" where
  "main_loop_round fw ch = bootuf2_is_write_done fw ch"

subsection \<open>USB callbacks\<close>

definition hex_digit :: "u32 \<Rightarrow> char" where
  "hex_digit d = (if d < 10 then char_of (48 + unat d) else char_of (55 + unat d))"

text \<open>\<open>%08X\<close>\<close>

definition hex8 :: "u32 \<Rightarrow> string" where
  "hex8 w = map (\<lambda>i. hex_digit (drop_bit (28 - 4 * i) w AND 15)) [0..<8]"

text \<open>What \<open>sprintf\<close> stores into the 32 bytes of \<open>chip_id\<close>, its end mark included.\<close>

definition chip_id_text :: "u32 list \<Rightarrow> u8 list" where
  "chip_id_text uuid_words = bytes_of (concat (map hex8 uuid_words)) @ [0]"

abbreviation (input) STRING3_CHAR_INDEX :: nat where "STRING3_CHAR_INDEX \<equiv> 88"

definition modify_descriptor_chip_id :: "(u32 \<Rightarrow> u32) \<Rightarrow> u8 list \<Rightarrow> u8 list" where
  "modify_descriptor_chip_id read_from_shadow desc =
   (let chip_id = chip_id_text (map read_from_shadow [88, 89, 90, 91])
    in fold (\<lambda>i d. d[STRING3_CHAR_INDEX + i * 2 := chip_id ! i]) [0..<32] desc)"

datatype usbd_event = USBD_EVENT_CONFIGURED | USBD_EVENT_OTHER

definition usbd_event_handler :: "usbd_event \<Rightarrow> bool \<Rightarrow> bootuf2_data \<Rightarrow> bootuf2_data" where
  "usbd_event_handler event alloc ctx =
   (case event of USBD_EVENT_CONFIGURED \<Rightarrow> bootuf2_init alloc ctx | USBD_EVENT_OTHER \<Rightarrow> ctx)"

definition usbd_msc_get_cap :: "u32 \<times> u32" where
  "usbd_msc_get_cap = (bootuf2_get_sector_count, ucast bootuf2_get_sector_size)"

definition usbd_msc_sector_read :: "build_time \<Rightarrow> u32 \<Rightarrow> u32 \<Rightarrow> bootuf2_data \<Rightarrow> int \<times> u8 list" where
  "usbd_msc_sector_read tm sector len ctx = (0, boot2uf2_read_sector tm (files ctx) sector (unat (len div ucast bootuf2_get_sector_size)))"

definition usbd_msc_sector_write ::
  "'h flash_writer \<Rightarrow> u32 \<Rightarrow> u8 list \<Rightarrow> u32 \<Rightarrow> bootuf2_data \<times> 'h \<Rightarrow> (int \<times> bootuf2_data \<times> 'h) option" where
  "usbd_msc_sector_write fw sector buffer len ch =
   map_option (\<lambda>ch. (0, ch)) (bootuf2_write_sector fw buffer (unat (len div ucast bootuf2_get_sector_size)) ch)"

definition boot2uf2_flash_init :: "'h fal_flash_dev list \<Rightarrow> fal_partition list \<Rightarrow> 'h fal \<Rightarrow> 'h fal option" where
  "boot2uf2_flash_init device_table table st = map_option snd (fal_init device_table table st)"

subsection \<open>What the store promises\<close>

definition kv_ok :: "'d kvdb \<Rightarrow> bool" where
  "kv_ok K \<longleftrightarrow>
     (\<forall>db. fst (kvdb_init K db) \<longrightarrow> (\<forall>key old. kv_get K key old (snd (kvdb_init K db)) = kv_get K key old db)) \<and>
     (\<forall>key val db. fst (kv_set K key val db) \<longrightarrow>
        (\<forall>old. kv_get K key old (snd (kv_set K key val db)) = (4, val)) \<and>
        (\<forall>key' old. key' \<noteq> key \<longrightarrow> kv_get K key' old (snd (kv_set K key val db)) = kv_get K key' old db))"

text \<open>A store in which no operation fails.\<close>

definition kv_total :: "'d kvdb \<Rightarrow> bool" where
  "kv_total K \<longleftrightarrow> (\<forall>db. fst (kvdb_init K db)) \<and> (\<forall>key val db. fst (kv_set K key val db))"

definition fail_count :: "'d kvdb \<Rightarrow> 'd bl_state \<Rightarrow> u32" where
  "fail_count K st = snd (kv_get K STATE_KEY_FAIL_COUNT 0 (state_db st))"

definition forced :: "'d kvdb \<Rightarrow> 'd bl_state \<Rightarrow> bool" where
  "forced K st \<longleftrightarrow> fst (kv_get K STATE_KEY_FORCE_BL 0 (state_db st)) = 4 \<and> snd (kv_get K STATE_KEY_FORCE_BL 0 (state_db st)) \<noteq> 0"

definition next_count :: "u32 \<Rightarrow> u32 \<Rightarrow> u32" where
  "next_count reset_flags c = (if reset_flags AND ppor_reset_wdog0 = 0 then 0 else if c < UINT32_MAX then c + 1 else c)"

subsection \<open>Five failed starts\<close>

text \<open>The starts that follow one another, with the reset flags each finds; the outcomes in that order.\<close>

fun boot_sequence ::
  "'d kvdb \<Rightarrow> (u32 \<Rightarrow> u32) \<Rightarrow> 'h fal \<Rightarrow> u32 list \<Rightarrow> 'd bl_state \<Rightarrow> boot_outcome list \<times> 'd bl_state" where
  "boot_sequence K word_at fal [] st = ([], st)"
| "boot_sequence K word_at fal (flags # rest) st =
     (case boot_main K word_at fal flags st of
        (out, st) \<Rightarrow> (case boot_sequence K word_at fal rest st of (outs, st) \<Rightarrow> (out # outs, st)))"

lemma kv_okD:
  assumes "kv_ok K"
  shows "kvdb_init K db = (True, db') \<Longrightarrow> kv_get K key old db' = kv_get K key old db"
    and "kv_set K key val db = (True, db') \<Longrightarrow> kv_get K key old db' = (4, val)"
    and "kv_set K key val db = (True, db') \<Longrightarrow> key' \<noteq> key \<Longrightarrow> kv_get K key' old db' = kv_get K key' old db"
  using assms unfolding kv_ok_def by (metis fst_conv snd_conv)+

lemma set_u32_laws:
  assumes "kv_ok K" and "set_u32 K key val st = (True, st')"
  shows "kv_get K key old (state_db st') = (4, val)"
    and "key' \<noteq> key \<Longrightarrow> kv_get K key' old (state_db st') = kv_get K key' old (state_db st)"
    and "state_ready st' = state_ready st"
  using assms(2) kv_okD(2,3) [OF assms(1)] by (auto simp: set_u32_def split: prod.splits)

lemma bl_state_init_keeps:
  assumes "kv_ok K" and "bl_state_init K st = (True, st1)"
  shows "fail_count K st1 = fail_count K st" "forced K st1 = forced K st" "state_ready st1"
proof -
  obtain db where "kvdb_init K (state_db st) = (True, db)" "st1 = st\<lparr> state_db := db, state_ready := True \<rparr>"
    using assms(2) by (auto simp: bl_state_init_def split: prod.splits if_splits)
  with kv_okD(1) [OF assms(1) this(1)]
  show "fail_count K st1 = fail_count K st" "forced K st1 = forced K st" "state_ready st1"
    by (simp_all add: fail_count_def forced_def)
qed

lemma set_fail_count:
  assumes "kv_ok K" and "set_u32 K STATE_KEY_FAIL_COUNT n st = (True, st')"
  shows "fail_count K st' = n" "forced K st' = forced K st" "state_ready st' = state_ready st"
  using set_u32_laws [OF assms] by (simp_all add: fail_count_def forced_def)

lemma set_force:
  assumes "kv_ok K" and "set_u32 K STATE_KEY_FORCE_BL v st = (True, st')"
  shows "fail_count K st' = fail_count K st" "forced K st' \<longleftrightarrow> v \<noteq> 0" "state_ready st' = state_ready st"
  using set_u32_laws [OF assms] by (simp_all add: fail_count_def forced_def)

lemma update_for_reset_steps:
  assumes "state_ready st"
  shows "bl_state_update_for_reset K flags st =
    (case set_u32 K STATE_KEY_FAIL_COUNT (next_count flags (fail_count K st)) st of
       (ok, st1) \<Rightarrow>
         if \<not> ok then (False, None, st1)
         else if BL_FAIL_LIMIT \<le> next_count flags (fail_count K st)
         then (case set_u32 K STATE_KEY_FORCE_BL 1 st1 of
                 (ok, st2) \<Rightarrow> if ok then (True, Some (next_count flags (fail_count K st)), st2) else (False, None, st2))
         else (True, Some (next_count flags (fail_count K st)), st1))"
proof -
  have n: "(if flags AND ppor_reset_wdog0 \<noteq> 0
            then let c = snd (get_u32 K STATE_KEY_FAIL_COUNT 0 st) in if c < UINT32_MAX then c + 1 else c
            else 0) = next_count flags (fail_count K st)"
    by (simp add: next_count_def fail_count_def get_u32_def Let_def split: prod.split)
  show ?thesis
    using assms unfolding bl_state_update_for_reset_def n by (simp add: Let_def split: prod.split)
qed

lemma update_for_reset_outcome:
  assumes "kv_ok K" and "state_ready st" and "bl_state_update_for_reset K flags st = (True, r, st1)"
  shows "r = Some (next_count flags (fail_count K st))"
    and "fail_count K st1 = next_count flags (fail_count K st)"
    and "forced K st1 \<longleftrightarrow> BL_FAIL_LIMIT \<le> next_count flags (fail_count K st) \<or> forced K st"
    and "state_ready st1"
proof -
  define n where "n = next_count flags (fail_count K st)"
  obtain ok st2 where s: "set_u32 K STATE_KEY_FAIL_COUNT n st = (ok, st2)" by fastforce
  obtain ok' st3 where s': "set_u32 K STATE_KEY_FORCE_BL 1 st2 = (ok', st3)" by fastforce
  have ok: "ok" and r: "r = Some n" and cases: "if BL_FAIL_LIMIT \<le> n then ok' \<and> st1 = st3 else st1 = st2"
    using assms(3) unfolding update_for_reset_steps [OF assms(2)] n_def [symmetric]
    by (auto simp: s s' split: if_splits)
  note one = set_fail_count [OF assms(1) s [unfolded eqTrueI [OF ok]]]
  show "r = Some (next_count flags (fail_count K st))" using r by (simp add: n_def)
  show "fail_count K st1 = next_count flags (fail_count K st)"
    "forced K st1 \<longleftrightarrow> BL_FAIL_LIMIT \<le> next_count flags (fail_count K st) \<or> forced K st" "state_ready st1"
    using one assms(2) cases set_force [OF assms(1), of 1 st2 st3] s'
    unfolding n_def [symmetric] by (auto split: if_splits)
qed

lemma should_stay_steps:
  assumes "state_ready st"
  shows "bl_state_should_stay K st = (if forced K st then (True, snd (set_u32 K STATE_KEY_FORCE_BL 0 st)) else (False, st))"
  using assms by (simp add: bl_state_should_stay_def forced_def get_u32_def Let_def split: prod.split)

lemma kv_totalD:
  assumes "kv_total K"
  shows "fst (kvdb_init K db)" "fst (kv_set K key v db)"
  using assms by (simp_all add: kv_total_def)

lemma kv_total_set: "kv_total K \<Longrightarrow> \<exists>st'. set_u32 K key v st = (True, st')"
  by (cases "kv_set K key v (state_db st)") (use kv_totalD(2) [of K key v "state_db st"] in \<open>auto simp: set_u32_def\<close>)

lemma kv_total_update:
  assumes "kv_total K" and "state_ready st"
  shows "\<exists>r st1. bl_state_update_for_reset K flags st = (True, r, st1)"
proof -
  define n where "n = next_count flags (fail_count K st)"
  obtain st1 where "set_u32 K STATE_KEY_FAIL_COUNT n st = (True, st1)" using kv_total_set [OF assms(1)] by blast
  moreover obtain st2 where "set_u32 K STATE_KEY_FORCE_BL 1 st1 = (True, st2)" using kv_total_set [OF assms(1)] by blast
  ultimately show ?thesis by (simp add: update_for_reset_steps [OF assms(2)] n_def [symmetric])
qed

lemma kv_total_init: "kv_total K \<Longrightarrow> \<exists>st1. bl_state_init K st = (True, st1)"
  by (auto simp: kv_total_def bl_state_init_def split: prod.split) (metis fst_conv)

lemma boot_main_jump:
  assumes "kv_ok K" and "boot_main K word_at fal flags st = (Jump pc, st')"
  shows "fail_count K st' = next_count flags (fail_count K st)"
    and "next_count flags (fail_count K st) < BL_FAIL_LIMIT" and "\<not> forced K st"
    and "app_valid word_at fal = Some True"
proof -
  obtain st1 where i: "bl_state_init K st = (True, st1)"
    using assms(2) by (cases "bl_state_init K st") (auto simp: boot_main_def split: if_splits)
  note init = bl_state_init_keeps [OF assms(1) i]
  obtain r st2 where u: "bl_state_update_for_reset K flags st1 = (True, r, st2)"
    using assms(2) i by (cases "bl_state_update_for_reset K flags st1") (auto simp: boot_main_def split: if_splits)
  note upd = update_for_reset_outcome [OF assms(1) init(3) u]
  have f: "\<not> forced K st2" and st': "st' = st2" and v: "app_valid word_at fal = Some True"
    using assms(2) i u
    by (auto simp: boot_main_def should_stay_steps [OF upd(4)] split: if_splits option.splits bool.splits)
  from v show "app_valid word_at fal = Some True" .
  from f upd(3) init(1,2) show "next_count flags (fail_count K st) < BL_FAIL_LIMIT" "\<not> forced K st" by auto
  from upd(2) init(1) st' show "fail_count K st' = next_count flags (fail_count K st)" by simp
qed

lemma boot_sequence_length: "length (fst (boot_sequence K word_at fal flags st)) = length flags"
  by (induction flags arbitrary: st) (simp_all split: prod.split, metis fst_conv)

lemma watchdog_starts_count:
  assumes "kv_ok K" and "\<forall>flags \<in> set fl. flags AND ppor_reset_wdog0 \<noteq> 0"
    and "\<forall>out \<in> set (fst (boot_sequence K word_at fal fl st)). \<exists>pc. out = Jump pc" and "fl \<noteq> []"
  shows "unat (fail_count K st) + length fl < 5"
  using assms(2-4)
proof (induction fl arbitrary: st)
  case (Cons flags fl)
  obtain out st1 where b: "boot_main K word_at fal flags st = (out, st1)" by fastforce
  with Cons.prems(2) obtain pc where "out = Jump pc" by (auto split: prod.splits)
  note j = boot_main_jump(1,2) [OF assms(1) b [unfolded this]]
  have "fail_count K st < UINT32_MAX"
    using j(2) Cons.prems(1) by (auto simp: next_count_def word_less_nat_alt split: if_splits)
  then have n: "next_count flags (fail_count K st) = fail_count K st + 1"
    using Cons.prems(1) by (simp add: next_count_def)
  have "unat (fail_count K st) < 2 ^ 32 - 1" using \<open>fail_count K st < UINT32_MAX\<close> by (simp add: word_less_nat_alt)
  then have c: "unat (fail_count K st1) = unat (fail_count K st) + 1" "unat (fail_count K st1) < 5"
    using j n by (simp_all add: unat_plus_no_wrap word_less_nat_alt)
  show ?case
  proof (cases "fl = []")
    case True
    then show ?thesis using c by simp
  next
    case False
    have "unat (fail_count K st1) + length fl < 5"
      using Cons.prems b False by (intro Cons.IH) (auto split: prod.splits)
    with c show ?thesis by simp
  qed
qed simp

text \<open>
  C9: In any five starts that follow one another and each find the watchdog's reset flag, at least one does not
  hand over to the application: the counter in the store reaches its limit. It holds whatever store
  operations fail, since a failure keeps the bootloader in UF2 mode, and whatever the counter held at first.
\<close>

theorem watchdog_loop_broken:
  assumes "kv_ok K" and "length fl = 5" and "\<forall>flags \<in> set fl. flags AND ppor_reset_wdog0 \<noteq> 0"
  shows "\<exists>out \<in> set (fst (boot_sequence K word_at fal fl st)). \<forall>pc. out \<noteq> Jump pc"
proof (rule ccontr)
  assume "\<not> ?thesis"
  then have "\<forall>out \<in> set (fst (boot_sequence K word_at fal fl st)). \<exists>pc. out = Jump pc" by blast
  from watchdog_starts_count [OF assms(1,3) this] assms(2) show False by force
qed

text \<open>A store that keeps a partial function from keys to words.\<close>

definition sim_kv :: "(string \<rightharpoonup> u32) kvdb" where
  "sim_kv = \<lparr> kvdb_init = (\<lambda>db. (True, db)),
     kv_get = (\<lambda>key old db. case db key of None \<Rightarrow> (0, old) | Some v \<Rightarrow> (4, v)),
     kv_set = (\<lambda>key v db. (True, db(key \<mapsto> v))) \<rparr>"

lemma sim_kv_ok: "kv_ok sim_kv" "kv_total sim_kv"
  by (simp_all add: kv_ok_def kv_total_def sim_kv_def)

definition sim_bl :: "(string \<rightharpoonup> u32) bl_state" where
  "sim_bl = \<lparr> state_ready = False, state_db = Map.empty \<rparr>"

definition sim_boot_fal :: "unit fal" where
  "sim_boot_fal = (fal_zero ())\<lparr> fal_ok := True, flash_ok := True, part_ok := True,
     partition_table := FAL_PART_TABLE, partition_table_len := 7 \<rparr>"

lemma sim_boot_fal_app: "fal_partition_find ''app'' sim_boot_fal = Some (Some 1)"
  by (simp add: sim_boot_fal_def fal_partition_find_def fal_zero_def FAL_PART_TABLE_def part_entry_def)

theorem watchdog_loop_broken_witness:
  "\<exists>out \<in> set (fst (boot_sequence sim_kv (\<lambda>_. CONFIG_BOOTUF2_FAMILYID) sim_boot_fal
     (replicate 5 ppor_reset_wdog0) sim_bl)). \<forall>pc. out \<noteq> Jump pc"
  by (rule watchdog_loop_broken [OF sim_kv_ok(1)]) simp_all

lemma boot_main_decides:
  assumes "kv_ok K" and "kv_total K" and "fal_partition_find ''app'' fal = Some (Some a)"
    and "boot_main K word_at fal reset_flags st = (out, st')"
  shows "fail_count K st' = next_count reset_flags (fail_count K st)" and "\<not> forced K st'"
    and "let n = next_count reset_flags (fail_count K st);
             app_start = FLASH_BASE + part_offset (partition_table fal ! a)
         in out = (if BL_FAIL_LIMIT \<le> n \<or> forced K st \<or> word_at app_start \<noteq> CONFIG_BOOTUF2_FAMILYID
                   then Uf2_Mode else Jump (app_start + 4))"
proof -
  obtain st1 where i: "bl_state_init K st = (True, st1)" using kv_total_init [OF assms(2)] by blast
  note init = bl_state_init_keeps [OF assms(1) i]
  obtain r st2 where u: "bl_state_update_for_reset K reset_flags st1 = (True, r, st2)"
    using kv_total_update [OF assms(2) init(3)] by blast
  note upd = update_for_reset_outcome [OF assms(1) init(3) u]
  obtain st3 where s: "set_u32 K STATE_KEY_FORCE_BL 0 st2 = (True, st3)" using kv_total_set [OF assms(2)] by blast
  note cleared = set_force [OF assms(1) s]
  show "fail_count K st' = next_count reset_flags (fail_count K st)" and "\<not> forced K st'"
    and "let n = next_count reset_flags (fail_count K st);
             app_start = FLASH_BASE + part_offset (partition_table fal ! a)
         in out = (if BL_FAIL_LIMIT \<le> n \<or> forced K st \<or> word_at app_start \<noteq> CONFIG_BOOTUF2_FAMILYID
                   then Uf2_Mode else Jump (app_start + 4))"
    using assms(4) upd init cleared
    by (auto simp: boot_main_def i u s should_stay_steps [OF upd(4)] app_valid_def jump_to_app_def assms(3) Let_def
        split: if_splits bool.splits)
qed

text \<open>
  C39: What a start decides when the store works. The counter becomes one more than it was if the watchdog
  caused the reset (without wrapping around), and zero otherwise. The bootloader stays in UF2 mode exactly if the counter has reached
  its limit, or the flag was set, or the application partition does not begin with the family id; otherwise it jumps
  to the word after that id. Afterwards the flag is clear, so that it holds the bootloader for one start only.
\<close>

theorem boot_decision:
  assumes "kv_ok K" and "kv_total K" and "fal_partition_find ''app'' fal = Some (Some a)"
    and "boot_main K word_at fal reset_flags st = (out, st')"
  shows "fail_count K st' = next_count reset_flags (fail_count K st) \<and> \<not> forced K st' \<and>
    (let n = next_count reset_flags (fail_count K st);
         app_start = FLASH_BASE + part_offset (partition_table fal ! a)
     in out = (if BL_FAIL_LIMIT \<le> n \<or> forced K st \<or> word_at app_start \<noteq> CONFIG_BOOTUF2_FAMILYID
               then Uf2_Mode else Jump (app_start + 4)))"
  using boot_main_decides [OF assms] by blast

theorem boot_decision_witness:
  "\<exists>st'. boot_main sim_kv (\<lambda>_. CONFIG_BOOTUF2_FAMILYID) sim_boot_fal 0 sim_bl = (Jump (FLASH_BASE + 131076), st')"
proof -
  obtain out st' where b: "boot_main sim_kv (\<lambda>_. CONFIG_BOOTUF2_FAMILYID) sim_boot_fal 0 sim_bl = (out, st')" by fastforce
  from boot_decision [OF sim_kv_ok sim_boot_fal_app b] b show ?thesis
    by (simp add: next_count_def forced_def sim_kv_def sim_bl_def sim_boot_fal_def fal_zero_def FAL_PART_TABLE_def
        part_entry_def Let_def)
qed

text \<open>\<open>sprintf\<close> stores one byte more than \<open>chip_id\<close> has room for.\<close>

lemma chip_id_overrun: "length uuid_words = 4 \<Longrightarrow> length (chip_id_text uuid_words) = 32 + 1"
  by (auto simp: chip_id_text_def hex8_def bytes_of_def length_concat comp_def sum_list_triv)

end
