(* ===== verification/Uf2_Install.thy ===== *)
theory Uf2_Install
  imports Boot_Main
begin

text \<open>
  Installing an application: the UF2 disk of bootloader/bootuf2/bootuf2.c on top of \<open>bootuf2_flash_write\<close>, the
  flash abstraction layer and the flash port. The locale \<open>image_writer\<close> is what the disk relies on when it
  flushes its cache: a writer that stores consecutive pieces of an image. It is interpreted on the
  logging writer and on the bootloader's flash. The download of \<open>Boot_Uf2\<close> then carries over to the flash.
\<close>

subsection \<open>A writer that stores consecutive pieces\<close>

abbreviation (input) stored :: "(u32 \<times> u8 list) list \<Rightarrow> u8 list" where "stored log \<equiv> concat (map snd log)"

locale image_writer =
  fixes fw :: "'h flash_writer"
    and rel :: "(u32 \<times> u8 list) list \<Rightarrow> 'h \<Rightarrow> bool"
    and base :: u32
    and cap :: nat
  assumes store: "rel log h \<Longrightarrow> \<forall>e\<in>set log. length (snd e) = CONFIG_BOOTUF2_CACHE_SIZE \<Longrightarrow>
      addr = base + of_nat (length (stored log)) \<Longrightarrow> 0 < unat n \<Longrightarrow> unat n \<le> CONFIG_BOOTUF2_CACHE_SIZE \<Longrightarrow> unat n \<le> length data \<Longrightarrow>
      length (stored log) + unat n \<le> cap \<Longrightarrow>
      \<exists>h'. fw addr data n h = Some (0, h') \<and> rel (log @ [(addr, take (unat n) data)]) h'"
begin

lemma flush_step:
  assumes inv: "download_inv base (length ps) ps k (ctx, log)" and "rel log h" and "\<forall>p\<in>set ps. length p = 256"
    and "k \<le> length ps" "256 * length ps \<le> cap" and n0: "cached_bytes ctx \<noteq> 0"
  shows "\<exists>h'. bootuf2_flash_flush fw (ctx, h) = Some (0, ctx\<lparr> cached_bytes := 0 \<rparr>, h') \<and>
    rel (log @ [(cached_address ctx, take (unat (cached_bytes ctx)) (cache ctx))]) h'"
proof -
  obtain c where c: "c \<le> 16" "unat (cached_bytes ctx) = 256 * c" using inv by (auto simp: download_inv_def)
  have I: "length (cache ctx) = 4096" "stored log @ take (256 * c) (cache ctx) = concat (take k ps)"
    "cached_address ctx = base + of_nat (length (stored log))" "\<forall>e\<in>set log. length (snd e) = 4096"
    using inv n0 c(2) by (auto simp: download_inv_def)
  have "length (stored log @ take (256 * c) (cache ctx)) = 256 * k" unfolding I(2) using assms(3,4) by (simp add: concat_blocks)
  then have "length (stored log) + 256 * c \<le> cap" using I(1) c(1) assms(4,5) by simp
  moreover have "0 < unat (cached_bytes ctx)" using n0 by (simp add: unat_gt_0)
  ultimately obtain h' where "fw (cached_address ctx) (cache ctx) (cached_bytes ctx) h = Some (0, h')"
    "rel (log @ [(cached_address ctx, take (unat (cached_bytes ctx)) (cache ctx))]) h'"
    using store [OF assms(2) I(4) I(3), of "cached_bytes ctx" "cache ctx"] I(1) c by auto
  then show ?thesis using n0 by (simp add: bootuf2_flash_flush_def)
qed

lemma log_flush: "cached_bytes ctx \<noteq> 0 \<Longrightarrow> bootuf2_flash_flush log_write (ctx, log) =
    Some (0, ctx\<lparr> cached_bytes := 0 \<rparr>, log @ [(cached_address ctx, take (unat (cached_bytes ctx)) (cache ctx))])"
  by (simp add: bootuf2_flash_flush_def log_write_def)

text \<open>A block written through \<open>fw\<close> does to the disk what it does through the log, and keeps the two related.\<close>

lemma internal_step:
  assumes inv: "download_inv base (length ps) ps k (ctx, log)" and rel: "rel log h" and ps: "\<forall>p\<in>set ps. length p = 256"
    and k: "k \<le> length ps" "256 * length ps \<le> cap"
    and step: "bootuf2_flash_write_internal log_write u (ctx, log) = Some (r, ctx', log')"
  shows "\<exists>h'. bootuf2_flash_write_internal fw u (ctx, h) = Some (r, ctx', h') \<and> rel log' h'"
proof (cases "(cached_bytes ctx \<noteq> 0 \<and> cached_address ctx + cached_bytes ctx \<noteq> TargetAddress u) \<or> cached_bytes ctx = of_nat CONFIG_BOOTUF2_CACHE_SIZE")
  case True
  then have n0: "cached_bytes ctx \<noteq> 0" by auto
  obtain h' where h': "bootuf2_flash_flush fw (ctx, h) = Some (0, ctx\<lparr> cached_bytes := 0 \<rparr>, h')"
    "rel (log @ [(cached_address ctx, take (unat (cached_bytes ctx)) (cache ctx))]) h'"
    using flush_step [OF inv rel ps k n0] by blast
  show ?thesis using step True h' log_flush [OF n0]
    by (cases "cache_block u (ctx\<lparr> cached_bytes := 0 \<rparr>)") (auto simp: bootuf2_flash_write_internal_def)
next
  case False
  then show ?thesis using step rel
    by (cases "cache_block u ctx") (auto simp: bootuf2_flash_write_internal_def)
qed

lemma block_step:
  assumes inv: "download_inv base (length ps) ps k (ctx, log)" and rel: "rel log h" and ps: "\<forall>p\<in>set ps. length p = 256"
    and k: "k \<le> length ps" "256 * length ps \<le> cap" and step: "write_block log_write u (ctx, log) = Some (ctx', log')"
  shows "\<exists>h'. write_block fw u (ctx, h) = Some (ctx', h') \<and> rel log' h'"
proof (cases "block_accepted u \<and> FamilyID u = CONFIG_BOOTUF2_FAMILYID \<and>
    bootuf2block_check_writable (STATE ctx) u CONFIG_BOOTUF2_FLASHMAX = Some True")
  case True
  obtain r ctx1 log1 where i: "bootuf2_flash_write_internal log_write u (ctx, log) = Some (r, ctx1, log1)"
    using step True by (cases "bootuf2_flash_write_internal log_write u (ctx, log)") (auto simp: write_block_def)
  obtain h' where "bootuf2_flash_write_internal fw u (ctx, h) = Some (r, ctx1, h')" "rel log1 h'"
    using internal_step [OF inv rel ps k i] by blast
  then show ?thesis using step True i by (auto simp: write_block_def)
next
  case False
  then show ?thesis using step rel
    by (auto simp: write_block_def split: if_splits option.splits bool.splits)
qed

lemma sectors_step:
  assumes "download_inv base (length ps) ps k (ctx, log)" and "rel log h" and ps: "\<forall>p\<in>set ps. length p = 256"
    and cap: "length ps < 13824" "256 * length ps \<le> cap"
    and "\<forall>i<n. image_block base (length ps) (k + i) (ps ! (k + i)) (parse_block (drop (512 * i) buff))" "k + n \<le> length ps"
  shows "\<exists>ctx' log' h'. bootuf2_write_sector fw buff n (ctx, h) = Some (ctx', h') \<and> rel log' h' \<and>
    download_inv base (length ps) ps (k + n) (ctx', log')"
  using assms(1,2,6,7)
proof (induction n arbitrary: k ctx log h buff)
  case 0
  then show ?case by auto
next
  case (Suc n)
  have b: "image_block base (length ps) k (ps ! k) (parse_block buff)" using Suc.prems(3) [rule_format, of 0] by simp
  obtain ctx1 log1 where w: "write_block log_write (parse_block buff) (ctx, log) = Some (ctx1, log1)"
    "download_inv base (length ps) ps (Suc k) (ctx1, log1)"
    using write_block_download [OF Suc.prems(1) b ps refl _ cap(1)] Suc.prems(4) by auto
  obtain h1 where h1: "write_block fw (parse_block buff) (ctx, h) = Some (ctx1, h1)" "rel log1 h1"
    using block_step [OF Suc.prems(1,2) ps _ cap(2) w(1)] Suc.prems(4) by auto
  have "\<forall>i<n. image_block base (length ps) (Suc k + i) (ps ! (Suc k + i)) (parse_block (drop (512 * i) (drop 512 buff)))"
    using Suc.prems(3) [rule_format, of "Suc i" for i] by (simp add: add.commute)
  from Suc.IH [OF w(2) h1(2) this] show ?case using h1(1) Suc.prems(4) by simp
qed

text \<open>A whole download: the pieces stored are the image.\<close>

lemma download:
  assumes "uf2_fresh ctx" and "rel [] h" and "0 < length ps" "length ps < 13824" "256 * length ps \<le> cap"
    and "\<forall>k<length ps. image_block base (length ps) k (ps ! k) (parse_block (drop (512 * k) buff))"
  shows "\<exists>ch ctx' h' log. bootuf2_write_sector fw buff (length ps) (ctx, h) = Some ch \<and>
    bootuf2_is_write_done fw ch = Some (True, ctx', h') \<and> rel log h' \<and> stored log = concat ps"
proof -
  have ps: "\<forall>p\<in>set ps. length p = 256" using assms(6) by (auto simp: image_block_def in_set_conv_nth)
  obtain ctx1 log1 h1 where w: "bootuf2_write_sector fw buff (length ps) (ctx, h) = Some (ctx1, h1)" "rel log1 h1"
    "download_inv base (length ps) ps (length ps) (ctx1, log1)"
    using sectors_step [OF fresh_download [OF assms(1)] assms(2) ps assms(4,5), where n = "length ps" and buff = buff] assms(6) by auto
  have d: "bootuf2block_state_check (STATE ctx1)" using download_done [OF w(3) _ assms(4,3)] by simp
  have I: "stored log1 @ take (unat (cached_bytes ctx1)) (cache ctx1) = concat ps" using w(3) by (simp add: download_inv_def)
  show ?thesis
  proof (cases "cached_bytes ctx1 = 0")
    case True
    then show ?thesis using w d I
      by (intro exI [of _ "(ctx1, h1)"] exI [of _ ctx1] exI [of _ h1] exI [of _ log1])
        (simp add: bootuf2_is_write_done_def bootuf2_flash_flush_def)
  next
    case False
    obtain h2 where "bootuf2_flash_flush fw (ctx1, h1) = Some (0, ctx1\<lparr> cached_bytes := 0 \<rparr>, h2)"
      "rel (log1 @ [(cached_address ctx1, take (unat (cached_bytes ctx1)) (cache ctx1))]) h2"
      using flush_step [OF w(3,2) ps _ assms(5) False] by auto
    then show ?thesis using w(1) d I
      by (intro exI [of _ "(ctx1, h1)"] exI [of _ "ctx1\<lparr> cached_bytes := 0 \<rparr>"] exI [of _ h2]
          exI [of _ "log1 @ [(cached_address ctx1, take (unat (cached_bytes ctx1)) (cache ctx1))]"])
        (simp add: bootuf2_is_write_done_def)
  qed
qed

end

interpretation logged: image_writer log_write "(=)" base cap for base cap
  by unfold_locales (simp add: log_write_def)

subsection \<open>A flash on which nothing fails\<close>

definition rom_succeeds :: "'s nor_rom \<Rightarrow> bool" where
  "rom_succeeds R \<longleftrightarrow> (\<forall>off data s. fst (rom_program R off data s) = status_success) \<and>
     (\<forall>off s. fst (rom_erase_block R off s) = status_success) \<and> (\<forall>off s. fst (rom_erase_sector R off s) = status_success)"

lemma erase_loop_succeeds:
  assumes "rom_succeeds R" "erase_loop R sector block off al f = Some (ok, f')"
  shows ok
proof -
  have "rom_succeeds R \<longrightarrow> fst (ok, f')"
  proof (rule erase_loop.raw_induct [OF _ assms(2), where P = "\<lambda>R sector block off al f y. rom_succeeds R \<longrightarrow> fst y"], goal_cases)
    case (1 erase_loop R sector block off al f y)
    then show ?case by (auto simp: rom_succeeds_def Let_def split: if_splits)
  qed
  then show ?thesis using assms(1) by simp
qed

lemma write_loop_succeeds: "rom_succeeds R \<Longrightarrow> fst (write_loop R off data f)"
proof (induction R off data f rule: write_loop.induct)
  case (1 R off data f)
  obtain status s where p: "rom_program R off (take (min (length data) 256) data) (chip f) = (status, s)" by fastforce
  moreover have "status = 0" using p 1(2) unfolding rom_succeeds_def by (metis fst_conv)
  ultimately show ?case using 1(1) [OF _ refl p [symmetric] refl] 1(2)
    by (subst write_loop.simps) (simp add: Let_def)
qed

lemma xpi_erase_succeeds:
  assumes "rom_succeeds R" "xpi_erase R off n f = Some (r, f')" "\<not> out_of_range off n f" "n \<noteq> 0"
  shows "r = sint n"
  using assms(2-4) by (auto simp: xpi_erase_def Let_def dest: erase_loop_succeeds [OF assms(1)])

lemma xpi_write_succeeds:
  assumes "rom_succeeds R" "xpi_write R off data n f = Some (r, f')" "\<not> out_of_range off n f" "n \<noteq> 0"
  shows "r = sint n"
  using assms(2-4) write_loop_succeeds [OF assms(1)]
  by (auto simp: xpi_write_def Let_def case_prod_beta split: if_splits)

lemma app_write_succeeds:
  assumes "rom_succeeds R" and "boot_fal R st" and "unat addr + unat n \<le> 3538944" "0 < unat n" "unat n \<le> length data"
    and "unat (sector_size R (chip (hw st))) dvd 131072 + unat addr" "unat (page_size R (chip (hw st))) dvd 131072 + unat addr"
  shows "\<exists>f. bootuf2_flash_write [onchip_dev R] (FLASH_BASE + 131072 + addr) data n st = Some (0, st\<lparr> hw := f \<rparr>) \<and> flash_inv R f \<and>
    same_units R (hw st) f \<and>
    outside (131072 + unat addr) (whole_sectors R (hw st) (unat n)) (flash_image R (hw st)) (flash_image R f) \<and>
    seg (flash_image R f) (131072 + unat addr) (unat n) = take (unat n) data"
proof -
  have B: "flash_inv R (hw st)" "length (flash_image R (hw st)) = 4194304" "partition_table st = FAL_PART_TABLE"
    "fal_partition_find ''app'' st = Some (Some 1)" "part_on [onchip_dev R] st 1 (onchip_dev R) 4194304"
    using assms(2) by (auto simp: boot_fal_def)
  note app = app_entry [OF B(3)]
  have on: "part_device [onchip_dev R] 1 addr n (st\<lparr> hw := h \<rparr>) = Some (Some (onchip_dev R))" for h
    using part_device_in(1) [of "[onchip_dev R]" "st\<lparr> hw := h \<rparr>" 1 "onchip_dev R" 4194304 addr n] B(5) assms(3) app(2) by simp
  let ?o = "131072 + addr"
  have o: "unat ?o = 131072 + unat addr" using unat_plus_no_wrap [of 131072 addr] assms(3) by simp
  have rg: "unat ?o + unat n \<le> length (flash_image R (hw st))" unfolding o B(2) using assms(3) by simp
  have n0: "n \<noteq> 0" using assms(4) by auto
  obtain r1 f1 where e: "xpi_erase R ?o n (hw st) = Some (r1, f1)" "flash_inv R f1" "same_units R (hw st) f1"
    "outside (unat ?o div unat (sector_size R (chip (hw st))) * unat (sector_size R (chip (hw st)))) (whole_sectors R (hw st) (unat n))
      (flash_image R (hw st)) (flash_image R f1)"
    using erase_in [OF B(1) rg assms(4)] by (auto simp: Let_def)
  have rg1: "unat ?o + unat n \<le> length (flash_image R f1)" using rg e(4) by (simp add: outside_def)
  obtain r2 f2 where w: "xpi_write R ?o data n f1 = Some (r2, f2)" "flash_inv R f2" "same_units R f1 f2"
    using write_in [OF e(2) rg1 assms(4,5)] by blast
  note b = not_out_of_range [OF B(1) rg] and b1 = not_out_of_range [OF e(2) rg1]
  have r: "r1 = int (unat n)" "r2 = int (unat n)"
    using xpi_erase_succeeds [OF assms(1) e(1) b(1) n0] xpi_write_succeeds [OF assms(1) w(1) b1(1) n0] b(4) by simp_all
  have "bootuf2_flash_write [onchip_dev R] (FLASH_BASE + 131072 + addr) data n st = Some (0, st\<lparr> hw := f2 \<rparr>)"
    using B(4) app(3) on [of "hw st"] on [of f1] e(1) w(1) r
    by (simp add: bootuf2_flash_write_def Let_def fal_partition_erase_def fal_partition_write_def onchip_dev_def)
  moreover obtain f where f: "bootuf2_flash_write [onchip_dev R] (FLASH_BASE + 131072 + addr) data n st = Some (0, st\<lparr> hw := f \<rparr>)" "flash_inv R f"
    "outside (131072 + unat addr) (whole_sectors R (hw st) (unat n)) (flash_image R (hw st)) (flash_image R f)"
    "fal_partition_read [onchip_dev R] 1 addr n (st\<lparr> hw := f \<rparr>) = Some (int (unat n), Some (take (unat n) data))"
    using write_app [OF assms(2-7)] calculation by auto
  ultimately have "f = f2" by (metis Pair_inject fal.select_convs(7) fal.surjective fal.update_convs(7) option.inject)
  moreover have "xpi_read R ?o n f = (int (unat n), Some (take (unat n) data))"
    using f(4) on [of f] app(3) by (simp add: fal_partition_read_def onchip_dev_def)
  then have "seg (flash_image R f) (131072 + unat addr) (unat n) = take (unat n) data"
    using read_in [OF f(2), of ?o n] rg f(3) o by (simp add: outside_def)
  ultimately show ?thesis using f e(3) w(3) by auto
qed

subsection \<open>The bootloader's flash stores the image\<close>

lemma seg_add: "seg d i (a + b) = seg d i a @ seg d (i + a) b"
  by (simp add: seg_def take_add ac_simps)

lemma seg_outside: "outside a m xs ys \<Longrightarrow> i + n \<le> a \<Longrightarrow> i + n \<le> length xs \<Longrightarrow> seg ys i n = seg xs i n"
  by (intro nth_equalityI) (auto simp: outside_def seg_def)

text \<open>
  The application partition begins with what was written so far, and nothing outside the partition
  differs from the image \<open>img\<close> at the beginning.
\<close>

definition installed :: "'s nor_rom \<Rightarrow> u8 list \<Rightarrow> (u32 \<times> u8 list) list \<Rightarrow> 's onchip_flash fal \<Rightarrow> bool" where
  "installed R img log st \<longleftrightarrow> boot_fal R st \<and> rom_succeeds R \<and> unat (sector_size R (chip (hw st))) dvd 4096 \<and>
     unat (page_size R (chip (hw st))) dvd 4096 \<and> outside 131072 3538944 img (flash_image R (hw st)) \<and>
     length (stored log) \<le> 3538944 \<and> seg (flash_image R (hw st)) 131072 (length (stored log)) = stored log"

lemma stored_length: "\<forall>e\<in>set log. length (snd e) = c \<Longrightarrow> length (stored log) = c * length log"
  by (induction log) auto

lemma installed_step:
  assumes I: "installed R img log st" and pieces: "\<forall>e\<in>set log. length (snd e) = 4096"
    and n: "0 < unat n" "unat n \<le> length data" "length (stored log) + unat n \<le> 3538944"
  shows "\<exists>st'. bootuf2_flash_write [onchip_dev R] (FLASH_BASE + 131072 + of_nat (length (stored log))) data n st = Some (0, st') \<and>
    installed R img (log @ [(addr, take (unat n) data)]) st'"
proof -
  define L where "L = length (stored log)"
  have Lu: "unat (of_nat L :: u32) = L" using n(3) by (simp add: L_def unat_of_nat32)
  have Ld: "4096 dvd 131072 + L" using stored_length [OF pieces] by (simp add: L_def)
  let ?s = "unat (sector_size R (chip (hw st)))"
  have B: "boot_fal R st" "rom_succeeds R" "?s dvd 4096" "unat (page_size R (chip (hw st))) dvd 4096"
    "outside 131072 3538944 img (flash_image R (hw st))" "seg (flash_image R (hw st)) 131072 L = stored log"
    "length (flash_image R (hw st)) = 4194304" "flash_inv R (hw st)"
    using I by (simp_all add: installed_def boot_fal_def L_def)
  obtain f where f: "bootuf2_flash_write [onchip_dev R] (FLASH_BASE + 131072 + of_nat L) data n st = Some (0, st\<lparr> hw := f \<rparr>)"
    "flash_inv R f" "same_units R (hw st) f"
    "outside (131072 + L) (whole_sectors R (hw st) (unat n)) (flash_image R (hw st)) (flash_image R f)"
    "seg (flash_image R f) (131072 + L) (unat n) = take (unat n) data"
    using app_write_succeeds [OF B(2,1), of "of_nat L" n data] n dvd_trans [OF B(3) Ld] dvd_trans [OF B(4) Ld]
    unfolding Lu L_def [symmetric] by blast
  have s0: "0 < ?s" using onchip.capacity [OF B(8)] by simp
  have "?s dvd 3538944" using dvd_mult [OF B(3), of 864] by simp
  moreover have sL: "?s dvd L" using dvd_trans [OF B(3), of "131072 + L"] Ld dvd_mult [OF B(3), of 32] by (simp add: dvd_add_right_iff)
  ultimately have "L + whole_sectors R (hw st) (unat n) \<le> 3538944"
    using round_up_range [OF s0, of 3538944 L "unat n"] n(3) by (simp add: whole_sectors_def Let_def L_def)
  then have out: "outside 131072 3538944 (flash_image R (hw st)) (flash_image R f)"
    by (intro outside_widen [OF f(4)]) simp_all
  have "seg (flash_image R f) 131072 L = stored log"
    using seg_outside [OF f(4), of 131072 L] B(6,7) n(3) by (simp add: L_def)
  then have "seg (flash_image R f) 131072 (L + unat n) = stored log @ take (unat n) data" using f(5) by (simp add: seg_add)
  moreover have "boot_fal R (st\<lparr> hw := f \<rparr>)" using B(1) f(2,4) by (simp add: boot_fal_def outside_def)
  ultimately have "installed R img (log @ [(addr, take (unat n) data)]) (st\<lparr> hw := f \<rparr>)"
    using B f(3) outside_trans [OF B(5) out] n by (simp add: installed_def L_def min_absorb2)
  then show ?thesis using f(1) unfolding L_def by blast
qed

interpretation app_flash: image_writer "bootuf2_flash_write [onchip_dev R]" "installed R img" "FLASH_BASE + 131072" 3538944 for R img
proof (unfold_locales, goal_cases)
  case (1 log h addr n data)
  then show ?case using installed_step [OF 1(1,2,4,6,7)] unfolding 1(3) by blast
qed

subsection \<open>From USB to the next start\<close>

text \<open>The writes a USB host makes one after the other, each a sector and whole sectors of data.\<close>

fun usb_writes :: "'h flash_writer \<Rightarrow> (u32 \<times> u8 list) list \<Rightarrow> bootuf2_data \<times> 'h \<Rightarrow> (bootuf2_data \<times> 'h) option" where
  "usb_writes fw [] ch = Some ch"
| "usb_writes fw ((sector, buf) # ws) ch =
   (case usbd_msc_sector_write fw sector buf (of_nat (length buf)) ch of None \<Rightarrow> None | Some (_, ch) \<Rightarrow> usb_writes fw ws ch)"

lemma parse_block_append: "512 \<le> length b \<Longrightarrow> parse_block (b @ c) = parse_block b"
  by (cases "b = []") (simp_all add: parse_block_def le32_at_def nth_append seg_def)

lemma write_sector_append:
  assumes "length b = 512 * m"
  shows "bootuf2_write_sector fw (b @ c) (m + n) ch =
    (case bootuf2_write_sector fw b m ch of None \<Rightarrow> None | Some ch \<Rightarrow> bootuf2_write_sector fw c n ch)"
  using assms
proof (induction m arbitrary: b ch)
  case (Suc m)
  then have "length (drop 512 b) = 512 * m" "512 \<le> length b" by simp_all
  then show ?case using Suc.IH [of "drop 512 b"] by (auto simp: parse_block_append split: option.split)
qed simp

lemma usb_writes_sectors:
  assumes "\<forall>w\<in>set ws. 512 dvd length (snd w) \<and> length (snd w) < 2 ^ 32"
  shows "usb_writes fw ws ch = bootuf2_write_sector fw (concat (map snd ws)) (length (concat (map snd ws)) div 512) ch"
  using assms
proof (induction fw ws ch rule: usb_writes.induct)
  case (2 fw sector buf ws ch)
  obtain m where m: "length buf = 512 * m" using "2.prems" by (auto elim: dvdE)
  have "unat ((of_nat (length buf) :: u32) div ucast bootuf2_get_sector_size) = m"
    using "2.prems" m by (simp add: bootuf2_get_sector_size_def unat_div unat_of_nat32 del: of_nat_mult)
  then have w: "usbd_msc_sector_write fw sector buf (of_nat (length buf)) ch =
      map_option (\<lambda>ch. (0, ch)) (bootuf2_write_sector fw buf m ch)"
    by (simp only: usbd_msc_sector_write_def)
  have "(length buf + length (concat (map snd ws))) div 512 = m + length (concat (map snd ws)) div 512" using m by simp
  then show ?case using 2 w write_sector_append [OF m, of fw "concat (map snd ws)"]
    by (cases "bootuf2_write_sector fw buf m ch") simp_all
qed simp

text \<open>The ROM's configuration of the chip succeeds and does not change it; a reset keeps the chip only.\<close>

definition config_ok :: "'s nor_rom \<Rightarrow> bool" where
  "config_ok R \<longleftrightarrow> (\<forall>s. fst (auto_config R s) = status_success \<and> same_geometry R s (snd (auto_config R s)) \<and>
     chip_image R (snd (auto_config R s)) = chip_image R s)"

definition reset_fal :: "'s nor_rom \<Rightarrow> 's onchip_flash fal \<Rightarrow> 's onchip_flash fal option" where
  "reset_fal R st = map_option snd (fal_init [onchip_dev R] FAL_PART_TABLE (fal_zero (power_on (chip (hw st)))))"

text \<open>A 32-bit read through the memory-mapped flash.\<close>

definition xip_word :: "'s nor_rom \<Rightarrow> 's onchip_flash fal \<Rightarrow> u32 \<Rightarrow> u32" where
  "xip_word R st a = le32_at (flash_image R (hw st)) (unat (a - FLASH_BASE))"

lemma reset_keeps_flash:
  assumes "boot_fal R st" "config_ok R"
  shows "\<exists>st'. reset_fal R st = Some st' \<and> boot_fal R st' \<and> flash_image R (hw st') = flash_image R (hw st)"
proof -
  have inv: "flash_inv R (hw st)" "length (flash_image R (hw st)) = 4194304" using assms(1) by (simp_all add: boot_fal_def)
  let ?c = "chip (hw st)"
  obtain s where s: "auto_config R ?c = (0, s)" "same_geometry R ?c s" "chip_image R s = chip_image R ?c"
    using assms(2) unfolding config_ok_def by (metis prod.collapse)
  have g: "geometry_ok R s" "rom_ok R" using inv(1) s(2) by (simp_all add: flash_inv_def geometry_ok_def same_geometry_def)
  have t: "total_size R s = 4096 * 1024"
    using inv(2) s(2) word_of_unat [of "total_size R s" 4194304] by (simp add: flash_image_def same_geometry_def)
  have "sector_size R s \<noteq> 0" using g(1) onchip.capacity [OF inv(1)] s(2) by (auto simp: same_geometry_def)
  then obtain f where f: "xpi_init R (power_on ?c) = (0, f)" "chip f = s"
    using s(1) t by (simp add: xpi_init_def power_on_def)
  show ?thesis using boot_fal_init [OF f(1)] g t f(2) s(3)
    by (auto simp: reset_fal_def boot_fal_def flash_image_def)
qed

lemma xip_word_app:
  assumes "boot_fal R st" "seg (flash_image R (hw st)) 131072 n = img" "4 \<le> n" "131072 + n \<le> 4194304"
  shows "xip_word R st (FLASH_BASE + 131072) = le32_at img 0"
proof -
  have "flash_image R (hw st) ! (131072 + k) = img ! k" if "k < 4" for k
    using seg_nth [OF assms(2), of k] assms that by (simp add: boot_fal_def)
  from this [of 0] this [of 1] this [of "Suc (Suc 0)"] this [of 3] show ?thesis by (simp add: xip_word_def le32_at_def)
qed

text \<open>The result of the flush is not looked at: a download whose last write fails is reported as complete.\<close>

lemma failed_write_reported_done:
  assumes "bootuf2block_state_check (STATE ctx)" "cached_bytes ctx \<noteq> 0"
    and "fw (cached_address ctx) (cache ctx) (cached_bytes ctx) h = Some (1, h')"
  shows "main_loop_round fw (ctx, h) = Some (True, ctx, h')"
  using assms by (simp add: main_loop_round_def bootuf2_is_write_done_def bootuf2_flash_flush_def)

subsection \<open>An example\<close>

text \<open>A UF2 file of one block whose payload begins with the family id.\<close>

definition app_payload :: "u8 list" where
  "app_payload = le32 CONFIG_BOOTUF2_FAMILYID @ replicate 252 7"

definition app_sector :: "u8 list" where
  "app_sector = le32 BOOTUF2_MAGIC_START0 @ le32 BOOTUF2_MAGIC_START1 @ le32 BOOTUF2_FLAG_FAMILID_PRESENT @ le32 (FLASH_BASE + 131072) @
     le32 256 @ le32 0 @ le32 1 @ le32 CONFIG_BOOTUF2_FAMILYID @ app_payload @ replicate 220 0 @ le32 BOOTUF2_MAGIC_END"

lemma app_payload_props [simp]: "length app_payload = 256" "le32_at app_payload 0 = CONFIG_BOOTUF2_FAMILYID"
proof -
  show l: "length app_payload = 256" by (simp add: app_payload_def)
  show "le32_at app_payload 0 = CONFIG_BOOTUF2_FAMILYID"
    by (rule le32_roundtrip) (simp_all add: l, simp add: app_payload_def seg_def)
qed

lemma app_sector_length: "length app_sector = 512"
  by (simp add: app_sector_def)

lemma app_sector_block: "image_block (FLASH_BASE + 131072) 1 0 app_payload (parse_block app_sector)"
proof -
  note [simp] = app_sector_length
  have f: "le32_at app_sector 0 = BOOTUF2_MAGIC_START0" "le32_at app_sector 4 = BOOTUF2_MAGIC_START1"
    "le32_at app_sector 8 = BOOTUF2_FLAG_FAMILID_PRESENT" "le32_at app_sector 12 = FLASH_BASE + 131072" "le32_at app_sector 16 = 256"
    "le32_at app_sector 20 = 0" "le32_at app_sector 24 = 1" "le32_at app_sector 28 = CONFIG_BOOTUF2_FAMILYID"
    "le32_at app_sector 508 = BOOTUF2_MAGIC_END"
    by (rule le32_roundtrip; simp add: app_sector_def seg_def)+
  have "seg app_sector 32 476 = app_payload @ replicate 220 0" by (simp add: app_sector_def seg_def)
  then show ?thesis by (simp add: parse_block_def image_block_def block_accepted_def f [simplified])
qed

lemma big_rom_succeeds: "rom_succeeds big_rom" "config_ok big_rom"
  by (simp_all add: rom_succeeds_def config_ok_def big_rom_def sim_nor_def same_geometry_def)

end
