(* ===== verification/Sfud_Port.thy ===== *)
theory Sfud_Port
  imports Prelude
begin

text \<open>
  The bootloader's port of the SFUD library to the SPI controller, bootloader/port/sfud/sfud_port.c: a stream of
  command, address, dummy and data bytes is taken apart into the phases of SPI transfers. \<open>spi_transfer\<close> of the HPM SDK is the
  parameter \<open>T\<close>: it gets the address length the controller is set to and the transfer, and gives a status, the bytes read and the
  bus afterwards. The chip select pin is a state variable. \<open>None\<close> is the read of a byte of an empty stream. Pin and clock set-up
  apart from the chip select are register writes and left out. \<open>make_address_byte_array\<close> of
  packages/SFUD/sfud/src/sfud.c, which writes the address into the stream, is here for the round trip.
\<close>

abbreviation (input) SFUD_SPI_TRANSFER_MAX :: nat where "SFUD_SPI_TRANSFER_MAX \<equiv> 512"

datatype sfud_err = SFUD_SUCCESS | SFUD_ERR_NOT_FOUND | SFUD_ERR_WRITE | SFUD_ERR_READ | SFUD_ERR_TIMEOUT | SFUD_ERR_ADDR_OUT_OF_BOUND

datatype spi_trans_mode = spi_trans_dummy_read u8 | spi_trans_read_only | spi_trans_write_only | spi_trans_no_data

text \<open>A transfer: command, address if the address phase is enabled, mode, bytes written, number of bytes read.\<close>

record spi_request =
  rq_cmd :: u8
  rq_addr :: "u32 option"
  rq_mode :: spi_trans_mode
  rq_out :: "u8 list"
  rq_in :: nat

type_synonym 'b spi_bus = "nat \<Rightarrow> spi_request \<Rightarrow> 'b \<Rightarrow> (int \<times> u8 list) \<times> 'b"

text \<open>\<open>s_flash\<close> is null or the flash, of which \<open>addr_in_4_byte\<close> is used.\<close>

record 'b sfud_port =
  s_flash :: "bool option"
  cs_low :: bool
  address_len :: nat
  spi :: 'b

definition addr_len_of :: "'b sfud_port \<Rightarrow> nat" where
  "addr_len_of p = (if s_flash p = Some True then 4 else 3)"

definition config_cmd_addr_format :: "u8 list \<Rightarrow> 'b sfud_port \<Rightarrow> (u8 \<times> u32 option \<times> 'b sfud_port) option" where
  "config_cmd_addr_format write_buf p =
   (case write_buf of
      [] \<Rightarrow> None
    | cmd # rest \<Rightarrow>
        let addr_len = addr_len_of p in
        if length write_buf \<ge> 1 + addr_len
        then Some (cmd, Some (fold (\<lambda>b addr. push_bit 8 addr OR ucast b) (take addr_len rest) 0), p\<lparr> address_len := addr_len \<rparr>)
        else Some (cmd, None, p))"

function read_loop :: "'b spi_bus \<Rightarrow> u8 list \<Rightarrow> nat \<Rightarrow> nat \<Rightarrow> 'b sfud_port \<Rightarrow> (sfud_err \<times> u8 list \<times> 'b sfud_port) option" where
  "read_loop T write_buf dummy remaining p =
   (if remaining = 0 then Some (SFUD_SUCCESS, [], p)
    else
      case config_cmd_addr_format write_buf p of
        None \<Rightarrow> None
      | Some (cmd, addr, p) \<Rightarrow>
          let chunk = min remaining SFUD_SPI_TRANSFER_MAX;
              mode = (if dummy > 0 then spi_trans_dummy_read (of_nat (dummy - 1)) else spi_trans_read_only);
              ((stat, data), b) = T (address_len p) \<lparr> rq_cmd = cmd, rq_addr = addr, rq_mode = mode, rq_out = [], rq_in = chunk \<rparr> (spi p);
              p = p\<lparr> spi := b \<rparr>
          in if stat \<noteq> 0 then Some (SFUD_ERR_READ, [], p)
             else map_option (\<lambda>(err, rest, p). (err, data @ rest, p)) (read_loop T write_buf dummy (remaining - chunk) p))"
  by auto
termination by (relation "measure (\<lambda>(T, w, d, remaining, p). remaining)") auto

declare read_loop.simps [simp del]

text \<open>Everything between selecting and releasing the chip.\<close>

definition transfer_phases :: "'b spi_bus \<Rightarrow> u8 list \<Rightarrow> nat \<Rightarrow> 'b sfud_port \<Rightarrow> (sfud_err \<times> u8 list \<times> 'b sfud_port) option" where
  "transfer_phases T write_buf read_size p =
   (let addr_len = addr_len_of p; write_size = length write_buf in
    if read_size > 0
    then read_loop T write_buf (if write_size \<ge> 1 + addr_len then write_size - 1 - addr_len else 0) read_size p
    else
      case config_cmd_addr_format write_buf p of
        None \<Rightarrow> None
      | Some (cmd, addr, p) \<Rightarrow>
          let out = (if write_size > 1 + addr_len then drop (1 + addr_len) write_buf else []);
              mode = (if write_size > 1 + addr_len then spi_trans_write_only else spi_trans_no_data);
              ((stat, _), b) = T (address_len p) \<lparr> rq_cmd = cmd, rq_addr = addr, rq_mode = mode, rq_out = out, rq_in = 0 \<rparr> (spi p)
          in Some (if stat \<noteq> 0 then SFUD_ERR_WRITE else SFUD_SUCCESS, [], p\<lparr> spi := b \<rparr>))"

definition spi_write_read :: "'b spi_bus \<Rightarrow> u8 list \<Rightarrow> nat \<Rightarrow> 'b sfud_port \<Rightarrow> (sfud_err \<times> u8 list \<times> 'b sfud_port) option" where
  "spi_write_read T write_buf read_size p =
   map_option (\<lambda>(err, data, p). (err, data, p\<lparr> cs_low := False \<rparr>))
     (transfer_phases T write_buf read_size (p\<lparr> cs_low := True \<rparr>))"

definition sfud_spi_port_init :: "u32 \<Rightarrow> bool \<Rightarrow> 'b sfud_port \<Rightarrow> sfud_err \<times> 'b sfud_port" where
  "sfud_spi_port_init clock_frequency addr_in_4_byte p =
   (let p = p\<lparr> cs_low := False \<rparr> in
    if clock_frequency = 0 then (SFUD_ERR_TIMEOUT, p)
    else (SFUD_SUCCESS, p\<lparr> s_flash := Some addr_in_4_byte \<rparr>))"

definition make_address_byte_array :: "bool \<Rightarrow> u32 \<Rightarrow> u8 list" where
  "make_address_byte_array addr_in_4_byte addr =
   map (\<lambda>i. ucast (drop_bit ((if addr_in_4_byte then 4 - (i + 1) else 3 - (i + 1)) * 8) addr AND 0xFF))
     [0..<if addr_in_4_byte then 4 else 3]"

subsection \<open>The phases of a stream\<close>

lemma low_byte: "ucast ((y :: u32) AND 0xFF) = (ucast y :: u8)"
proof (rule bit_word_eqI)
  fix n assume "n < LENGTH(8)"
  have m: "(0xFF :: u32) = mask 8" by (simp add: mask_eq_exp_minus_1)
  then show "bit (ucast (y AND 0xFF) :: u8) n = bit (ucast y :: u8) n"
    using \<open>n < LENGTH(8)\<close> unfolding m by (auto simp: bit_simps)
qed

text \<open>The address in the stream is the one SFUD put there.\<close>

lemma address_roundtrip:
  assumes "in4 \<or> unat addr < 2 ^ 24"
  shows "fold (\<lambda>b addr. push_bit 8 addr OR ucast b) (make_address_byte_array in4 addr) 0 = addr"
proof (cases in4)
  case True
  then show ?thesis using byte_assemble [of addr]
    by (simp add: make_address_byte_array_def low_byte upt_rec push_bit_or or.assoc)
next
  case False
  have "drop_bit 24 addr = 0" using assms False by (simp add: drop_bit_eq_div word_arith_nat_div)
  then show ?thesis using byte_assemble [of addr] False
    by (simp add: make_address_byte_array_def low_byte upt_rec push_bit_or or.assoc)
qed

lemma length_make_address [simp]: "length (make_address_byte_array in4 addr) = (if in4 then 4 else 3)"
  by (simp add: make_address_byte_array_def)

lemma config_stream:
  assumes "s_flash p = Some in4" "in4 \<or> unat addr < 2 ^ 24"
  shows "config_cmd_addr_format (cmd # make_address_byte_array in4 addr @ rest) p =
    Some (cmd, Some addr, p\<lparr> address_len := if in4 then 4 else 3 \<rparr>)"
  using address_roundtrip [OF assms(2)] assms(1) by (simp add: config_cmd_addr_format_def addr_len_of_def Let_def)

subsection \<open>A bus that records the transfers\<close>

definition log_spi :: "(spi_request \<Rightarrow> u8 list) \<Rightarrow> spi_request list spi_bus" where
  "log_spi answer n rq log = ((0, answer rq), log @ [rq])"

text \<open>The transfers of a read of \<open>n\<close> bytes.\<close>

definition read_requests :: "u8 \<Rightarrow> u32 \<Rightarrow> nat \<Rightarrow> nat \<Rightarrow> spi_request list" where
  "read_requests cmd addr dummy n = map (\<lambda>i. \<lparr> rq_cmd = cmd, rq_addr = Some addr,
     rq_mode = (if dummy > 0 then spi_trans_dummy_read (of_nat (dummy - 1)) else spi_trans_read_only),
     rq_out = [], rq_in = min (n - 512 * i) 512 \<rparr>) [0..<(n + 511) div 512]"

lemma read_requests_rec:
  assumes "0 < n"
  shows "read_requests cmd addr dummy n = \<lparr> rq_cmd = cmd, rq_addr = Some addr,
     rq_mode = (if dummy > 0 then spi_trans_dummy_read (of_nat (dummy - 1)) else spi_trans_read_only),
     rq_out = [], rq_in = min n 512 \<rparr> # read_requests cmd addr dummy (n - min n 512)"
proof -
  have "n + 511 = 512 + (n - 1)" using assms by simp
  then have "(n + 511) div 512 = Suc ((n - 1) div 512)" by simp
  moreover have "(n - min n 512 + 511) div 512 = (n - 1) div 512"
  proof (cases "n \<le> 512")
    case False
    then have "n - min n 512 + 511 = n - 1" by simp
    then show ?thesis by simp
  qed (use assms in simp)
  ultimately have "(n + 511) div 512 = Suc ((n - min n 512 + 511) div 512)" by simp
  then show ?thesis by (auto simp: read_requests_def upt_conv_Cons map_Suc_upt [symmetric] comp_def simp del: upt_Suc)
qed

lemma read_loop_log:
  assumes "s_flash p = Some in4" "in4 \<or> unat addr < 2 ^ 24"
  shows "read_loop (log_spi answer) (cmd # make_address_byte_array in4 addr @ rest) dummy n p =
    Some (SFUD_SUCCESS, concat (map answer (read_requests cmd addr dummy n)),
      if n = 0 then p else p\<lparr> address_len := if in4 then 4 else 3, spi := spi p @ read_requests cmd addr dummy n \<rparr>)"
  using assms(1)
proof (induction n arbitrary: p rule: less_induct)
  case (less n)
  show ?case
  proof (cases "n = 0")
    case True
    then show ?thesis by (subst read_loop.simps) (simp add: read_requests_def)
  next
    case False
    let ?L = "if in4 then 4 else 3 :: nat" and ?w = "cmd # make_address_byte_array in4 addr @ rest"
    define rq where "rq = hd (read_requests cmd addr dummy n)"
    have rec: "read_requests cmd addr dummy n = rq # read_requests cmd addr dummy (n - min n 512)"
      unfolding rq_def using read_requests_rec [of n cmd addr dummy] False by simp
    let ?p = "p\<lparr> address_len := ?L, spi := spi p @ [rq] \<rparr>"
    have "n - min n 512 < n" "s_flash ?p = Some in4" using False less.prems by simp_all
    note IH = less.IH [OF this]
    have step: "read_loop (log_spi answer) ?w dummy n p =
        map_option (\<lambda>(err, data, q). (err, answer rq @ data, q)) (read_loop (log_spi answer) ?w dummy (n - min n 512) ?p)"
      using False config_stream [OF less.prems assms(2), of cmd rest] read_requests_rec [of n cmd addr dummy]
      by (subst read_loop.simps) (simp add: log_spi_def rq_def Let_def)
    have "n - min n 512 = 0 \<longrightarrow> read_requests cmd addr dummy (n - min n 512) = []" by (simp add: read_requests_def)
    then show ?thesis unfolding step IH rec using False by simp
  qed
qed

lemma read_requests_sum: "sum_list (map rq_in (read_requests cmd addr dummy n)) = n"
proof (induction n rule: less_induct)
  case (less n)
  show ?case
  proof (cases "n = 0")
    case True
    then show ?thesis by (simp add: read_requests_def)
  next
    case False
    then show ?thesis using read_requests_rec [of n cmd addr dummy] less.IH [of "n - min n 512"] by simp
  qed
qed

text \<open>The chip is released on every path, and an error of the bus is reported.\<close>

lemma chip_released: "spi_write_read T w n p = Some (err, data, q) \<Longrightarrow> \<not> cs_low q"
  by (auto simp: spi_write_read_def)

lemma command_error:
  assumes "w \<noteq> []" "\<And>l rq b. fst (fst (T l rq b)) \<noteq> 0"
  shows "\<exists>q. spi_write_read T w n p = Some (if n > 0 then SFUD_ERR_READ else SFUD_ERR_WRITE, [], q) \<and> \<not> cs_low q"
proof -
  obtain cmd a p' where c: "config_cmd_addr_format w (p\<lparr> cs_low := True \<rparr>) = Some (cmd, a, p')"
    using assms(1) by (cases w; cases "1 + addr_len_of (p\<lparr> cs_low := True \<rparr>) \<le> length w")
      (auto simp: config_cmd_addr_format_def Let_def)
  have "\<exists>q. read_loop T w d n (p\<lparr> cs_low := True \<rparr>) = Some (SFUD_ERR_READ, [], q)" if "n > 0" for d
    using that assms(2) by (subst read_loop.simps) (simp add: c Let_def case_prod_beta)
  then have "\<exists>q. transfer_phases T w n (p\<lparr> cs_low := True \<rparr>) = Some (if n > 0 then SFUD_ERR_READ else SFUD_ERR_WRITE, [], q)"
    using assms(2) by (cases "n > 0") (simp_all add: transfer_phases_def c Let_def case_prod_beta)
  then show ?thesis by (auto simp: spi_write_read_def)
qed

subsection \<open>Properties\<close>

text \<open>
  C40: What a read command becomes on the bus. For the stream SFUD builds (command, address, dummy bytes), the address sent
  is the address SFUD meant, in three or four bytes, and the lengths of the transfers add up to the bytes asked for. Up to 512 bytes are one
  transfer. A longer read is several transfers, and every one of them carries the address of the first: the port does not advance it.
  The chip select is released at the end.
\<close>

theorem spi_read_transfers:
  assumes "s_flash p = Some in4" "in4 \<or> unat addr < 2 ^ 24" "0 < n"
  shows "\<exists>rqs. spi_write_read (log_spi answer) (cmd # make_address_byte_array in4 addr @ dummies) n p =
      Some (SFUD_SUCCESS, concat (map answer rqs), p\<lparr> cs_low := False, address_len := if in4 then 4 else 3, spi := spi p @ rqs \<rparr>) \<and>
    sum_list (map rq_in rqs) = n \<and> length rqs = (n + 511) div 512 \<and>
    (\<forall>rq\<in>set rqs. rq_cmd rq = cmd \<and> rq_addr rq = Some addr \<and> rq_in rq \<le> 512 \<and>
       rq_mode rq = (if dummies = [] then spi_trans_read_only else spi_trans_dummy_read (of_nat (length dummies - 1))))"
proof -
  let ?rqs = "read_requests cmd addr (length dummies) n"
  have "addr_len_of (p\<lparr> cs_low := True \<rparr>) = (if in4 then 4 else 3)" using assms(1) by (simp add: addr_len_of_def)
  then have "spi_write_read (log_spi answer) (cmd # make_address_byte_array in4 addr @ dummies) n p =
      Some (SFUD_SUCCESS, concat (map answer ?rqs), p\<lparr> cs_low := False, address_len := if in4 then 4 else 3, spi := spi p @ ?rqs \<rparr>)"
    using read_loop_log [of "p\<lparr> cs_low := True \<rparr>", OF _ assms(2), of answer cmd dummies "length dummies" n] assms(1,3)
    by (simp add: spi_write_read_def transfer_phases_def)
  moreover have "length ?rqs = (n + 511) div 512" by (simp add: read_requests_def)
  moreover have "\<forall>rq\<in>set ?rqs. rq_cmd rq = cmd \<and> rq_addr rq = Some addr \<and> rq_in rq \<le> 512 \<and>
       rq_mode rq = (if dummies = [] then spi_trans_read_only else spi_trans_dummy_read (of_nat (length dummies - 1)))"
    by (auto simp: read_requests_def)
  ultimately show ?thesis using read_requests_sum [of cmd addr "length dummies" n] by blast
qed

definition sample_port :: "spi_request list sfud_port" where
  "sample_port = snd (sfud_spi_port_init 20000000 False \<lparr> s_flash = None, cs_low = True, address_len = 3, spi = [] \<rparr>)"

theorem spi_read_transfers_witness:
  "\<exists>(rqs :: spi_request list) q. spi_write_read (log_spi (\<lambda>rq. replicate (rq_in rq) 0)) (0x0B # make_address_byte_array False 0x1000 @ [0xFF]) 600 sample_port =
     Some (SFUD_SUCCESS, concat (map (\<lambda>rq. replicate (rq_in rq) 0) rqs), q) \<and> length rqs = 2 \<and> (\<forall>rq\<in>set rqs. rq_addr rq = Some 0x1000)"
proof -
  have "s_flash sample_port = Some False" by (simp add: sample_port_def sfud_spi_port_init_def Let_def)
  obtain rqs where "spi_write_read (log_spi (\<lambda>rq. replicate (rq_in rq) 0)) (0x0B # make_address_byte_array False 0x1000 @ [0xFF]) 600 sample_port =
      Some (SFUD_SUCCESS, concat (map (\<lambda>rq. replicate (rq_in rq) 0) rqs), sample_port\<lparr> cs_low := False, address_len := 3, spi := spi sample_port @ rqs \<rparr>)"
    "length rqs = 2" "\<forall>rq\<in>set rqs. rq_addr rq = Some 0x1000"
    using spi_read_transfers [OF \<open>s_flash sample_port = Some False\<close>, of "0x1000" 600 "\<lambda>rq. replicate (rq_in rq) 0" "0x0B" "[0xFF]"] by auto
  then show ?thesis by blast
qed

end
