(* ===== verification/Spec2Isabelle.thy ===== *)
theory Spec2Isabelle
  imports Sdio_Stack Sdio_Cis Host_Machine Uf2_Install Sfud_Port
begin

text \<open>
  A verification development of the WL-hosted host firmware for the HPM6364: the RT-Thread package
  that drives a Wi-Fi coprocessor over SDIO, and the UF2 bootloader that installs and starts the firmware.

  \<^bold>\<open>The program.\<close> The package (packages/wlh_rtt_host) registers two WLAN devices, a station and an
  access point, with RT-Thread. Device operations become requests to the Host Core; the Core's frames go
  through the SDIO transport to the coprocessor, and its events and received frames come
  back and are reported to RT-Thread. Three threads with message queues do the work: the executor
  runs Core tasks, the lifecycle thread starts and stops the transport, the receive thread delivers
  frames; the SDIO worker has its own queue. An iPerf2 service measures throughput. The
  bootloader (bootloader/) decides at reset between starting the application and offering a USB
  disk to which a UF2 file is copied; it stores the file through the flash abstraction layer
  (packages/fal) and the XPI NOR port.

  \<^bold>\<open>Shared theory.\<close>
  \<^item> \<open>Prelude\<close>: C integer types as words, error codes, byte copies and byte orders, and the lemmas
    about lists and words that the components share.

  \<^bold>\<open>The package.\<close>
  \<^item> \<open>Rt_Mq\<close>: the message queue of rt-thread/src/ipc.c with its block pool and free list. The locale
    \<open>bounded_fifo\<close> is the contract of a bounded queue, interpreted on the model of the code.
  \<^item> \<open>Wlh_Logic\<close>: src/wlh_rtt_logic.c. The generation counter skips zero and does not repeat within its
    period; the block pool, a bit mask, refines a set of free blocks; the SoftAP client table
    refines a bounded map.
  \<^item> \<open>Sdio_Protocol\<close>: transport/sdio/wlh_rtt_sdio_protocol.c. Padding, address windows, lengths across the
    wrap-around of a 20-bit counter and tokens of a 12-bit counter.
  \<^item> \<open>Iperf2_Proto\<close>, \<open>Iperf2\<close>: the datagram formats (round trip) and the traffic loops (numbering,
    loss accounting, end on request).
  \<^item> \<open>Host_State\<close>: the structures of src/wlh_rtt_internal.h and the interface \<open>core_api\<close> of the Host Core.
  \<^item> \<open>Wlh_Request\<close>: src/wlh_rtt_request.c. Requests in progress and their completions, told apart by
    generations.
  \<^item> \<open>Wlan_Rx\<close>: wlan/wlh_rtt_wlan_rx.c. The receive pools and the job queue refine a queue of frames.
  \<^item> \<open>Wlan_Ops\<close>: wlan/wlh_rtt_wlan.c. The WLAN device operations.
  \<^item> \<open>Wlan_Event\<close>: wlan/wlh_rtt_wlan_event.c. The events of the Core.
  \<^item> \<open>Sdio_Transport\<close>: transport/sdio/wlh_rtt_sdio.c. Transfers, bursts, probe, removal, transport operations.
  \<^item> \<open>Sdio_Core\<close>: the layer below the transport, rt-thread/components/drivers/sdio/dev_sdio.c. A byte buffer of any length
    becomes the CMD53 commands that move exactly it; with it a frame written by the transport is
    followed down to the card. Interrupts, the driver registry and the ready wait.
  \<^item> \<open>Sdio_Ident\<close>: the rest of that file, the identification of a card: operating conditions, card registers, the tuple chains and the
    functions, with the allocations and the error labels. Blocks are owned: each operation is stated with the multiset of blocks it leaves
    allocated, and the theorem about \<open>init_sdio\<close> follows.
  \<^item> \<open>Sdio_Cis\<close>: what the identification finds out: a tuple chain laid out as the specification says is read back, but a null tuple hides
    the tuple behind it.
  \<^item> \<open>Sdxc\<close>, \<open>Dcache\<close>, \<open>Drv_Sdio\<close>: the board's driver under that layer, libraries/drivers/drv_sdio.c, with what it calls of the chip's
    SDK: the controller driver (hpm_sdxc_drv.c) and the cache commands (hpm_l1c_drv.c), on a model of a write-back data cache. A request
    waits by polling or by events, and goes to the caller's buffer or through the driver's.
  \<^item> \<open>Sdio_Dma\<close>: what a request does on a controller that keeps its contract: the bytes on the bus are those of the buffer, whatever the
    cache held; every request is answered once; the errors the driver misses.
  \<^item> \<open>Sdio_Stack\<close>: transport, SDIO layer, driver and cache composed: a frame goes onto the bus byte for byte.
  \<^item> \<open>Lifecycle\<close>, \<open>Host\<close>: src/wlh_rtt_lifecycle.c and src/wlh_rtt_host.c. Threads, initialisation, start,
    stop, recovery.
  \<^item> \<open>Host_Machine\<close>: all entry points and thread rounds as a step relation, and the invariants of
    every reachable state by rule induction.

  \<^bold>\<open>The bootloader.\<close>
  \<^item> \<open>Xpi_Flash\<close>: port/fal/fal_flash_port.c over the chip's ROM API. The locale \<open>flash_device\<close> is what the layer
    above relies on; it is interpreted on the port.
  \<^item> \<open>Fal\<close>: packages/fal/src. Devices, the partition table compiled in or searched, bounded access.
  \<^item> \<open>Boot_Uf2\<close>: the writing half of bootuf2/bootuf2.c and \<open>bootuf2_flash_write\<close> of msc_bootuf2.c.
  \<^item> \<open>Uf2_Disk\<close>: the reading half, a FAT16 volume computed sector by sector; a reader that takes the layout from the boot record and follows directory and
    allocation table gets the files.
  \<^item> \<open>Boot_Main\<close>: src/bl_state.c, src/main.c and the USB callbacks.
  \<^item> \<open>Uf2_Install\<close>: the composition. The locale \<open>image_writer\<close> is what a download needs of the function that
    stores a piece of the image; it is interpreted on the log of the pieces and on the whole flash stack.
    The theorem of this theory follows an image from the USB writes into the flash and to the jump.
  \<^item> \<open>Sfud_Port\<close>: port/sfud/sfud_port.c, the SPI transfers that the serial flash driver calls.

  \<^bold>\<open>Parameters.\<close> Code that is not in the repository or belongs to vendored libraries is an argument of the
  definitions: the Host Core and its protobuf decoders (\<open>core_api\<close>), the SDIO bus and coprocessor
  (\<open>sdio_env\<close>), the SDIO controller with the card behind it (\<open>sd_host\<close>; \<open>hpm_host\<close> is the board's driver as such a controller), the registers of
  the SDXC controller with its DMA and the services of the kernel that the driver waits with (\<open>sdxc_hw\<close>, with \<open>controller_ok\<close>, which says that the controller
  moves the bytes its descriptor names before it reports the end, \<open>no_early_error\<close>, which no hardware guarantees and which excludes the error that the driver misses, and \<open>clock_runs\<close>), the memory map (\<open>mem_map\<close>), the SPI bus (\<open>spi_bus\<close>), the ROM API (\<open>nor_rom\<close>, with
  \<open>rom_ok\<close>, \<open>geometry_ok\<close>, and \<open>rom_succeeds\<close>, \<open>config_ok\<close> where the calls are to succeed), FlashDB (\<open>kvdb\<close>, with \<open>kv_ok\<close>),
  sockets and clock (inputs of the iPerf2 loops), and the results of allocations. The witnesses
  instantiate them by concrete functions.

  \<^bold>\<open>Conventions.\<close> C integers are words and wrap; \<open>int\<close> return codes are integers. A pointer the code
  compares with null is an option. A critical section is one step. Calls without a result that
  leave the package are appended to logs. In the bootloader theories \<open>None\<close> is an access outside an
  array, a failed assertion, or a loop that does not end, so a theorem that the result is \<open>Some\<close> excludes
  all three.

  \<^bold>\<open>Loops.\<close> Traffic loops and bursts recurse over the observations or over their bounds; a
  loop over observations yields \<open>None\<close> until it has reached its end. The erase loop of the flash port, which counts an
  unsigned remainder down, the loop that loads a searched partition table and the polling loops of the SDIO driver are \<open>partial_function (option)\<close>; that erasing returns, and
  that polling returns if the clock runs, is proved. The loop over the tuples of a card ends because the register space does. Threads are one round of their endless loops.

  \<^bold>\<open>What the code does not do.\<close> Three consumers compare the result of \<open>rt_mq_recv\<close>, a length in this version
  of RT-Thread, with \<open>RT_EOK\<close>. The rounds of the threads are modelled with that comparison, and
  \<open>rx_main_never_delivers\<close>, \<open>tx_frames_dropped_silently\<close> and \<open>lifecycle_jobs_never_run\<close> state what follows. The bodies
  after the comparison are definitions of their own, and their properties say what happens to a job
  that is processed. The SDIO driver takes an error that is there at its first look at the status for success (\<open>early_error_lost\<close>).

  \<^bold>\<open>Not modelled.\<close> RT-Thread apart from the message queue and the SDIO layer, the vendored
  libraries (CherryUSB, FlashDB, SFUD itself, littlefs, EasyLogger, the rest of the HPM SDK), and the vendor's other peripheral
  drivers: code of others. Of the SDIO driver, the configuration of clock, voltage and pins and the registration of the host; of RT-Thread's
  SD layer, memory cards. Board start-up and pin multiplexing: register writes. The
  application's copy of the flash port. The application's main function, which only calls libraries.
\<close>

section \<open>From the USB cable to the running application\<close>

text \<open>
  C2: Installing and starting an application. On a flash on which nothing fails, let a USB host write
  the UF2 blocks of an image, in order but grouped into writes in any way, to the freshly initialised
  disk, with addresses from the start of the application partition on. Then every write returns, and the main loop finds
  the download complete and resets the device. The application partition then begins with exactly the image,
  nothing outside the partition has changed, and after the reset the flash layer comes up again. If the image begins with the family id, the
  start that follows jumps to the word after it unless the watchdog counter or the flag in the store holds it.
\<close>

theorem download_then_boot:
  assumes flash: "boot_fal R st" "rom_succeeds R" "config_ok R" "unat (sector_size R (chip (hw st))) dvd 4096"
      "unat (page_size R (chip (hw st))) dvd 4096"
    and store: "kv_ok K" "kv_total K"
    and disk: "uf2_fresh ctx"
    and img: "0 < length ps" "length ps < 13824" "le32_at (concat ps) 0 = CONFIG_BOOTUF2_FAMILYID"
    and usb: "\<forall>w\<in>set ws. 512 dvd length (snd w) \<and> length (snd w) < 2 ^ 32" "length (concat (map snd ws)) = 512 * length ps"
      "\<forall>k<length ps. image_block (FLASH_BASE + 131072) (length ps) k (ps ! k) (parse_block (drop (512 * k) (concat (map snd ws))))"
  shows "\<exists>ch ctx' st' st''. usb_writes (bootuf2_flash_write [onchip_dev R]) ws (ctx, st) = Some ch \<and>
     main_loop_round (bootuf2_flash_write [onchip_dev R]) ch = Some (True, ctx', st') \<and>
     seg (flash_image R (hw st')) 131072 (256 * length ps) = concat ps \<and>
     outside 131072 3538944 (flash_image R (hw st)) (flash_image R (hw st')) \<and>
     reset_fal R st' = Some st'' \<and> boot_fal R st'' \<and>
     (\<forall>flags db. next_count flags (fail_count K db) < BL_FAIL_LIMIT \<and> \<not> forced K db \<longrightarrow>
        fst (boot_main K (xip_word R st'') st'' flags db) = Jump (FLASH_BASE + 131072 + 4))"
proof -
  let ?fw = "bootuf2_flash_write [onchip_dev R]" and ?buff = "concat (map snd ws)"
  have "installed R (flash_image R (hw st)) [] st" using flash by (simp add: installed_def seg_def)
  then obtain ch ctx' st' log where d: "bootuf2_write_sector ?fw ?buff (length ps) (ctx, st) = Some ch"
    "bootuf2_is_write_done ?fw ch = Some (True, ctx', st')" "installed R (flash_image R (hw st)) log st'" "concat (map snd log) = concat ps"
    using app_flash.download [OF disk _ img(1,2) _ usb(3)] img(2) by fastforce
  have len: "length (concat ps) = 256 * length ps"
  proof -
    have "\<forall>p\<in>set ps. length p = 256" using usb(3) by (auto simp: image_block_def in_set_conv_nth)
    then show ?thesis using concat_blocks [of ps "length ps"] by simp
  qed
  have I: "boot_fal R st'" "seg (flash_image R (hw st')) 131072 (256 * length ps) = concat ps"
    "outside 131072 3538944 (flash_image R (hw st)) (flash_image R (hw st'))"
    using d(3,4) len by (simp_all add: installed_def)
  obtain st'' where r: "reset_fal R st' = Some st''" "boot_fal R st''" "flash_image R (hw st'') = flash_image R (hw st')"
    using reset_keeps_flash [OF I(1) flash(3)] by blast
  have w: "xip_word R st'' (FLASH_BASE + 131072) = CONFIG_BOOTUF2_FAMILYID"
    using xip_word_app [OF r(2), of "256 * length ps" "concat ps"] I(2) r(3) img by simp
  have app: "fal_partition_find ''app'' st'' = Some (Some 1)" "part_offset (partition_table st'' ! 1) = 131072"
    using r(2) app_entry(3) [of st''] by (simp_all add: boot_fal_def)
  have j: "fst (boot_main K (xip_word R st'') st'' flags db) = Jump (FLASH_BASE + 131072 + 4)"
    if "next_count flags (fail_count K db) < BL_FAIL_LIMIT \<and> \<not> forced K db" for flags db
    using boot_main_decides(3) [OF store app(1) surjective_pairing, where word_at = "xip_word R st''" and reset_flags = flags and st = db] app(2) w that
    by (simp add: Let_def not_le)
  have "usb_writes ?fw ws (ctx, st) = Some ch" using usb_writes_sectors [OF usb(1), where fw = ?fw and ch = "(ctx, st)"] usb(2) d(1) by simp
  then show ?thesis using d(2) I r j by (auto simp: main_loop_round_def)
qed

theorem download_then_boot_witness:
  "\<exists>st ch ctx' st' st''. boot_fal big_rom st \<and>
     usb_writes (bootuf2_flash_write [onchip_dev big_rom]) [(0, app_sector)] (sample_disk, st) = Some ch \<and>
     main_loop_round (bootuf2_flash_write [onchip_dev big_rom]) ch = Some (True, ctx', st') \<and> reset_fal big_rom st' = Some st'' \<and>
     fst (boot_main sim_kv (xip_word big_rom st'') st'' 0 sim_bl) = Jump (FLASH_BASE + 131072 + 4)"
proof -
  obtain st where st: "boot_fal big_rom st" using big_boot by blast
  have u: "unat (sector_size big_rom (chip (hw st))) dvd 4096" "unat (page_size big_rom (chip (hw st))) dvd 4096"
    by (simp_all add: big_rom_def sim_nor_def)
  have "uf2_fresh sample_disk" by (simp add: uf2_fresh_def sample_disk_def)
  from download_then_boot [OF st big_rom_succeeds u sim_kv_ok this, of "[app_payload]" "[(0, app_sector)]"]
  obtain ch ctx' st' st'' where
    "usb_writes (bootuf2_flash_write [onchip_dev big_rom]) [(0, app_sector)] (sample_disk, st) = Some ch"
    "main_loop_round (bootuf2_flash_write [onchip_dev big_rom]) ch = Some (True, ctx', st')" "reset_fal big_rom st' = Some st''"
    "\<forall>flags db. next_count flags (fail_count sim_kv db) < BL_FAIL_LIMIT \<and> \<not> forced sim_kv db \<longrightarrow>
        fst (boot_main sim_kv (xip_word big_rom st'') st'' flags db) = Jump (FLASH_BASE + 131072 + 4)"
    using app_sector_block app_sector_length by auto
  moreover have "next_count 0 (fail_count sim_kv sim_bl) < BL_FAIL_LIMIT" "\<not> forced sim_kv sim_bl"
    by (simp_all add: next_count_def forced_def sim_kv_def sim_bl_def)
  ultimately show ?thesis using st by blast
qed

end
